(* ===== verification/Sponge_Prelude.thy ===== *)
theory Sponge_Prelude
  imports Main "HOL-Library.Word"
begin

text \<open>
  Shared ground of the development: the machine types of the C++ code, its exceptions as
  values, the state-and-exception computations that every stateful member function is
  written in, and the generic lemmas the component theories share.

  \<^item> A \<^verbatim>\<open>uint8_t\<close>, \<^verbatim>\<open>uint16_t\<close>, \<^verbatim>\<open>uint32_t\<close> or \<^verbatim>\<open>unsigned\<close> is a word of
    that width. A \<^verbatim>\<open>size_t\<close> is a \<open>nat\<close>: every \<^verbatim>\<open>size_t\<close> of the modelled code is the
    length of an object in memory, a sum or a difference of such lengths (guarded where it
    is a difference), or a parameter that is only compared with one, so it stays below
    \<open>2 ^ 63\<close>. The places where a negative \<^verbatim>\<open>ssize_t\<close> is converted to \<^verbatim>\<open>size_t\<close>, or
    a \<^verbatim>\<open>ssize_t\<close> is narrowed to \<^verbatim>\<open>int\<close>, are written out
    (\<open>size_of_ssize\<close>, \<open>narrow_int\<close>).
  \<^item> A \<^verbatim>\<open>std::string\<close> or \<^verbatim>\<open>std::string_view\<close> of packet data is a byte list.
  \<^item> A thrown exception is a value of \<open>exn\<close>; a computation returns it together with the
    state the throw leaves behind.
  \<^item> Reading outside an array is \<open>UndefinedBehaviour\<close>, an outcome of its own.
\<close>

unbundle bit_operations_syntax

subsection \<open>Machine types\<close>

type_synonym byte = "8 word"
type_synonym uint16 = "16 word"
type_synonym uint32 = "32 word"
type_synonym bytes = "byte list"

text \<open>Narrowing a \<^verbatim>\<open>ssize_t\<close> to \<^verbatim>\<open>int\<close>, and converting a \<^verbatim>\<open>ssize_t\<close> to \<^verbatim>\<open>size_t\<close>.\<close>

definition narrow_int :: "int \<Rightarrow> int" where
  "narrow_int i = signed_take_bit 31 i"

definition size_of_ssize :: "int \<Rightarrow> nat" where
  "size_of_ssize i = nat (i mod 2 ^ 64)"

text \<open>\<^verbatim>\<open>std::string::max_size()\<close> and \<^verbatim>\<open>std::string::resize\<close> with its \<^verbatim>\<open>length_error\<close>.\<close>

definition max_size :: nat where
  "max_size = 2 ^ 63 - 1"

subsection \<open>Exceptions\<close>

datatype exn =
    OutOfRange string
  | LengthError string
  | InvalidArgument string
  | RuntimeError string
  | UnixError string int
  | TaggedError string string int
  | UndefinedBehaviour string

type_synonym 'a result = "exn + 'a"

definition string_resize :: "nat \<Rightarrow> bytes \<Rightarrow> bytes result" where
  "string_resize n s =
     (if n > max_size then Inl (LengthError ''basic_string::_M_replace_aux'')
      else Inr (take n s @ replicate (n - length s) 0))"

subsection \<open>Computations with a state and exceptions\<close>

type_synonym ('s, 'a) prog = "'s \<Rightarrow> 'a result \<times> 's"

definition ret :: "'a \<Rightarrow> ('s, 'a) prog" where
  "ret x s = (Inr x, s)"

definition throw :: "exn \<Rightarrow> ('s, 'a) prog" where
  "throw e s = (Inl e, s)"

definition bnd :: "('s, 'a) prog \<Rightarrow> ('a \<Rightarrow> ('s, 'b) prog) \<Rightarrow> ('s, 'b) prog" where
  "bnd m f s = (case m s of (Inl e, s') \<Rightarrow> (Inl e, s') | (Inr x, s') \<Rightarrow> f x s')"

definition gets :: "('s \<Rightarrow> 'a) \<Rightarrow> ('s, 'a) prog" where
  "gets f s = (Inr (f s), s)"

definition modify :: "('s \<Rightarrow> 's) \<Rightarrow> ('s, unit) prog" where
  "modify f s = (Inr (), f s)"

definition lift_result :: "'a result \<Rightarrow> ('s, 'a) prog" where
  "lift_result r s = (r, s)"

text \<open>A range-\<^verbatim>\<open>for\<close> over a list, stopping at the first exception.\<close>

fun for_each :: "('a \<Rightarrow> ('s, unit) prog) \<Rightarrow> 'a list \<Rightarrow> ('s, unit) prog" where
  "for_each f [] = ret ()"
| "for_each f (x # xs) = bnd (f x) (\<lambda>_. for_each f xs)"

lemmas prog_defs = ret_def throw_def bnd_def gets_def modify_def lift_result_def

lemma bnd_Inl: "m s = (Inl e, s') \<Longrightarrow> bnd m f s = (Inl e, s')"
  by (simp add: bnd_def)

lemma bnd_Inr: "m s = (Inr x, s') \<Longrightarrow> bnd m f s = f x s'"
  by (simp add: bnd_def)

lemma bnd_simps [simp]:
  "bnd (ret x) f = f x"
  "bnd (throw e) f = throw e"
  "bnd (lift_result (Inr x)) f = f x"
  "bnd (lift_result (Inl e)) f = throw e"
  "bnd (gets g) f s = f (g s) s"
  "bnd (modify h) k s = k () (h s)"
  by (auto simp: prog_defs fun_eq_iff)

lemma bnd_assoc: "bnd (bnd m f) g = bnd m (\<lambda>x. bnd (f x) g)"
  by (rule ext) (simp add: bnd_def split: prod.split sum.split)

lemma bnd_if: "bnd (if b then m else n) f = (if b then bnd m f else bnd n f)"
  by simp

lemma bnd_eq_Inr:
  "bnd m f s = (Inr y, t) \<longleftrightarrow> (\<exists>x s'. m s = (Inr x, s') \<and> f x s' = (Inr y, t))"
  by (auto simp: bnd_def split: prod.split sum.split)

lemma bnd_eq_Inl:
  "bnd m f s = (Inl e, t) \<longleftrightarrow>
     m s = (Inl e, t) \<or> (\<exists>x s'. m s = (Inr x, s') \<and> f x s' = (Inl e, t))"
  by (auto simp: bnd_def split: prod.split sum.split)

text \<open>
  A string that is passed by reference is a variable of the caller next to the state: a computation on the state leaves it alone,
  and an exception leaves it as it is at that point. \<open>local_var\<close> is the caller whose variable it is, and who returns it.
\<close>

definition with_var :: "('s, 'a) prog \<Rightarrow> ('s \<times> 'v, 'a) prog" where
  "with_var m = (\<lambda>(s, v). case m s of (r, t) \<Rightarrow> (r, t, v))"

definition put_var :: "'v \<Rightarrow> ('s \<times> 'v, unit) prog" where
  "put_var v' = (\<lambda>(s, v). (Inr (), s, v'))"

definition resize_var :: "nat \<Rightarrow> ('s \<times> bytes, unit) prog" where
  "resize_var n = bnd (gets snd) (\<lambda>str. bnd (lift_result (string_resize n str)) put_var)"

definition local_var :: "'v \<Rightarrow> ('s \<times> 'v, unit) prog \<Rightarrow> ('s, 'v) prog" where
  "local_var v m s = (case m (s, v) of (Inl e, t, _) \<Rightarrow> (Inl e, t) | (Inr _, t, v') \<Rightarrow> (Inr v', t))"

lemma bnd_with_var: "m s = (Inr x, t) \<Longrightarrow> bnd (with_var m) f (s, v) = f x (t, v)"
  by (simp add: bnd_def with_var_def)

lemma bnd_put_var: "bnd (put_var v') f (s, v) = f () (s, v')"
  by (simp add: bnd_def put_var_def)

lemma bnd_resize_var: "string_resize n str = Inr str' \<Longrightarrow> bnd (resize_var n) f (s, str) = f () (s, str')"
  by (simp add: resize_var_def put_var_def bnd_assoc) (simp add: bnd_def)

text \<open>The caller's view of a computation with a variable.\<close>

lemma local_var_simps:
  "local_var v (bnd (with_var m) f) = bnd m (\<lambda>x. local_var v (f x))"
  "local_var v (bnd (gets snd) f2) = local_var v (f2 v)"
  "local_var v (bnd (put_var v') f3) = local_var v' (f3 ())"
  "local_var v (bnd (lift_result r) f4) = bnd (lift_result r) (\<lambda>x. local_var v (f4 x))"
  "local_var v (throw e) = throw e"
  "local_var v (with_var m0) = bnd m0 (\<lambda>_. ret v)"
  "local_var v (if c then m1 else m2) = (if c then local_var v m1 else local_var v m2)"
  by (auto simp: local_var_def with_var_def put_var_def prog_defs fun_eq_iff split: prod.split sum.split)

lemma local_var_resize: "local_var v (bnd (resize_var n) f) = bnd (lift_result (string_resize n v)) (\<lambda>v. local_var v (f ()))"
  unfolding resize_var_def bnd_assoc by (simp only: local_var_simps)

text \<open>
  A computation keeps a state predicate when the state it leaves satisfies it, whether it
  returns or throws. The rules are collected in \<open>keeps_intros\<close>: an operation keeps an
  invariant because its parts do.
\<close>

definition keeps :: "('s \<Rightarrow> bool) \<Rightarrow> ('s, 'a) prog \<Rightarrow> bool" where
  "keeps I m \<longleftrightarrow> (\<forall>s. I s \<longrightarrow> I (snd (m s)))"

named_theorems keeps_intros

lemma keepsI: "(\<And>s. I s \<Longrightarrow> I (snd (m s))) \<Longrightarrow> keeps I m"
  by (simp add: keeps_def)

lemma keepsD: "keeps I m \<Longrightarrow> I s \<Longrightarrow> I (snd (m s))"
  by (simp add: keeps_def)

lemma keepsD': "keeps I m \<Longrightarrow> I s \<Longrightarrow> m s = (r, t) \<Longrightarrow> I t"
  by (metis keepsD snd_conv)

lemma keeps_ret [keeps_intros]: "keeps I (ret x)"
  by (simp add: keeps_def ret_def)

lemma keeps_throw [keeps_intros]: "keeps I (throw e)"
  by (simp add: keeps_def throw_def)

lemma keeps_gets [keeps_intros]: "keeps I (gets f)"
  by (simp add: keeps_def gets_def)

lemma keeps_lift_result [keeps_intros]: "keeps I (lift_result r)"
  by (simp add: keeps_def lift_result_def)

lemma keeps_modify: "(\<And>s. I s \<Longrightarrow> I (f s)) \<Longrightarrow> keeps I (modify f)"
  by (simp add: keeps_def modify_def)

lemma keeps_bnd [keeps_intros]:
  assumes "keeps I m" and "\<And>x. keeps I (f x)"
  shows "keeps I (bnd m f)"
proof (rule keepsI)
  fix s assume I: "I s"
  obtain r t where m: "m s = (r, t)" by (cases "m s")
  with assms(1) I have "I t" by (blast intro: keepsD')
  with m assms(2) show "I (snd (bnd m f s))"
    by (cases r) (auto simp: bnd_def intro: keepsD)
qed

lemma keeps_if [keeps_intros]:
  "keeps I m \<Longrightarrow> keeps I n \<Longrightarrow> keeps I (if b then m else n)"
  by simp

lemma keeps_option [keeps_intros]:
  "keeps I m \<Longrightarrow> (\<And>x. keeps I (f x)) \<Longrightarrow> keeps I (case v of None \<Rightarrow> m | Some x \<Rightarrow> f x)"
  by (cases v) auto

lemma keeps_case_prod [keeps_intros]:
  "(\<And>a b. keeps I (f a b)) \<Longrightarrow> keeps I (case x of (a, b) \<Rightarrow> f a b)"
  by (cases x) auto

lemma keeps_case_sum [keeps_intros]:
  "(\<And>a. keeps I (f a)) \<Longrightarrow> (\<And>b. keeps I (g b)) \<Longrightarrow> keeps I (case x of Inl a \<Rightarrow> f a | Inr b \<Rightarrow> g b)"
  by (cases x) auto

lemma keeps_for_each [keeps_intros]: "(\<And>x. keeps I (f x)) \<Longrightarrow> keeps I (for_each f xs)"
  by (induction xs) (auto intro: keeps_intros)

text \<open>\<^verbatim>\<open>try { m } catch (...) { handler }\<close>\<close>

definition try_catch :: "('s, 'a) prog \<Rightarrow> (exn \<Rightarrow> ('s, 'a) prog) \<Rightarrow> ('s, 'a) prog" where
  "try_catch m handler s = (case m s of (Inl e, s') \<Rightarrow> handler e s' | (Inr x, s') \<Rightarrow> (Inr x, s'))"

lemma keeps_try_catch [keeps_intros]:
  assumes "keeps I m" and "\<And>e. keeps I (handler e)"
  shows "keeps I (try_catch m handler)"
proof (rule keepsI)
  fix s assume I: "I s"
  obtain r t where m: "m s = (r, t)" by (cases "m s")
  with assms(1) I have "I t" by (blast intro: keepsD')
  with m assms(2) show "I (snd (try_catch m handler s))"
    by (cases r) (auto simp: try_catch_def intro: keepsD)
qed

subsection \<open>Results as predicates\<close>

definition is_ok :: "'a result \<Rightarrow> bool" where
  "is_ok r \<longleftrightarrow> (case r of Inl _ \<Rightarrow> False | Inr _ \<Rightarrow> True)"

lemma is_ok_simps [simp]: "is_ok (Inr x)" "\<not> is_ok (Inl e)"
  by (simp_all add: is_ok_def)

lemma is_ok_iff: "is_ok r \<longleftrightarrow> (\<exists>x. r = Inr x)"
  by (cases r) auto

subsection \<open>Lists, and sums of lengths\<close>

definition total_length :: "'a list list \<Rightarrow> nat" where
  "total_length xss = length (concat xss)"

lemma total_length_simps [simp]:
  "total_length [] = 0"
  "total_length (xs # xss) = length xs + total_length xss"
  by (simp_all add: total_length_def)

lemma total_length_append [simp]: "total_length (xss @ yss) = total_length xss + total_length yss"
  by (simp add: total_length_def)

lemma sum_list_length_concat: "sum_list (map length xss) = total_length xss"
  by (induction xss) auto

lemma foldl_add_sum: "foldl (\<lambda>acc x. acc + f x) (a :: nat) xs = a + sum_list (map f xs)"
  by (induction xs arbitrary: a) auto

lemma foldl_append_concat: "foldl (\<lambda>acc x. acc @ f x) a xs = a @ concat (map f xs)"
  by (induction xs arbitrary: a) auto

subsection \<open>Decimal notation (\<^verbatim>\<open>std::to_string\<close>)\<close>

fun string_of_nat :: "nat \<Rightarrow> string" where
  "string_of_nat n =
     (if n < 10 then [char_of (48 + n)] else string_of_nat (n div 10) @ [char_of (48 + n mod 10)])"

declare string_of_nat.simps [simp del]

definition string_of_int :: "int \<Rightarrow> string" where
  "string_of_int i = (if i < 0 then ''-'' @ string_of_nat (nat (- i)) else string_of_nat (nat i))"

text \<open>The bytes of a string literal, and back.\<close>

definition bytes_of_string :: "string \<Rightarrow> bytes" where
  "bytes_of_string s = map (\<lambda>c. of_nat (of_char c)) s"

definition string_of_bytes :: "bytes \<Rightarrow> string" where
  "string_of_bytes bs = map (\<lambda>b. char_of (unat b)) bs"

lemma bytes_of_string_simps: "length (bytes_of_string s) = length s" "bytes_of_string s = [] \<longleftrightarrow> s = []" "bytes_of_string [] = []"
  by (simp_all add: bytes_of_string_def)

subsection \<open>Integers of a width\<close>

lemma narrow_int_id: "- (2 ^ 31) \<le> i \<Longrightarrow> i < 2 ^ 31 \<Longrightarrow> narrow_int i = i"
  by (simp add: narrow_int_def signed_take_bit_int_eq_self)

lemma narrow_int_range: "- (2 ^ 31) \<le> narrow_int i" "narrow_int i < 2 ^ 31"
  using signed_take_bit_int_greater_eq_minus_exp [of 31 i] signed_take_bit_int_less_exp [of 31 i]
  by (simp_all add: narrow_int_def)

lemma size_of_ssize_nonneg: "0 \<le> i \<Longrightarrow> i < 2 ^ 64 \<Longrightarrow> size_of_ssize i = nat i"
  by (simp add: size_of_ssize_def)

lemma size_of_ssize_neg:
  assumes "i < 0" and "- (2 ^ 31) \<le> i"
  shows "size_of_ssize i > max_size"
proof -
  have "i mod 2 ^ 64 = (i + 2 ^ 64) mod 2 ^ 64" by simp
  also have "\<dots> = i + 2 ^ 64" using assms by (intro mod_pos_pos_trivial) auto
  finally show ?thesis using assms by (simp add: size_of_ssize_def max_size_def nat_less_iff)
qed

end
