(* ===== verification/Buffer.thy ===== *)
theory Buffer
  imports Sponge_Prelude
begin

text \<open>
  The byte containers of \<^verbatim>\<open>util/buffer.hh\<close> and \<^verbatim>\<open>util/buffer.cc\<close>:
  \<^item> \<^verbatim>\<open>Buffer\<close>, a reference-counted read-only string with a starting offset. The string
    behind the \<^verbatim>\<open>shared_ptr\<close> is never written after construction, so the model stores the string itself
    (theory \<open>Buffer_Store\<close> has the sharing between copies, and shows that it makes no difference); \<open>None\<close> is the null
    pointer of the default constructor and of \<^verbatim>\<open>_storage.reset()\<close>;
  \<^item> \<^verbatim>\<open>BufferList\<close>, a queue of Buffers;
  \<^item> \<^verbatim>\<open>BufferViewList\<close>, a queue of string views; a view is the bytes it points to.

  The three classes share one contract, the locale \<open>discardable\<close>: a byte string whose
  bytes can be discarded from the front. Every class interprets it, and the laws about
  sequences of discards are proved once, inside it.
\<close>

subsection \<open>Buffer\<close>

record Buffer =
  storage :: "bytes option"
  starting_offset :: nat

definition Buffer_default :: Buffer where
  "Buffer_default = \<lparr>storage = None, starting_offset = 0\<rparr>"

definition Buffer_of_string :: "bytes \<Rightarrow> Buffer" where
  "Buffer_of_string str = \<lparr>storage = Some str, starting_offset = 0\<rparr>"

definition Buffer_str :: "Buffer \<Rightarrow> bytes" where
  "Buffer_str b =
     (case storage b of
        None \<Rightarrow> []
      | Some st \<Rightarrow> take (length st - starting_offset b) (drop (starting_offset b) st))"

definition Buffer_at :: "Buffer \<Rightarrow> nat \<Rightarrow> byte result" where
  "Buffer_at b n =
     (if n < length (Buffer_str b) then Inr (Buffer_str b ! n)
      else Inl (OutOfRange ''basic_string_view::at''))"

definition Buffer_size :: "Buffer \<Rightarrow> nat" where
  "Buffer_size b = length (Buffer_str b)"

definition Buffer_copy :: "Buffer \<Rightarrow> bytes" where
  "Buffer_copy b = Buffer_str b"

definition Buffer_remove_prefix :: "nat \<Rightarrow> (Buffer, unit) prog" where
  "Buffer_remove_prefix n b =
     (if n > length (Buffer_str b) then (Inl (OutOfRange ''Buffer::remove_prefix''), b)
      else
        let b1 = b\<lparr>starting_offset := starting_offset b + n\<rparr> in
        case storage b1 of
          None \<Rightarrow> (Inr (), b1)
        | Some st \<Rightarrow>
            (if starting_offset b1 = length st then (Inr (), b1\<lparr>storage := None\<rparr>)
             else (Inr (), b1)))"

subsection \<open>BufferList\<close>

record BufferList =
  buffers :: "Buffer list"

definition BufferList_default :: BufferList where
  "BufferList_default = \<lparr>buffers = []\<rparr>"

definition BufferList_of_Buffer :: "Buffer \<Rightarrow> BufferList" where
  "BufferList_of_Buffer b = \<lparr>buffers = [b]\<rparr>"

definition BufferList_append :: "BufferList \<Rightarrow> BufferList \<Rightarrow> BufferList" where
  "BufferList_append self other =
     foldl (\<lambda>l buf. l\<lparr>buffers := buffers l @ [buf]\<rparr>) self (buffers other)"

definition BufferList_of_string :: "bytes \<Rightarrow> BufferList" where
  "BufferList_of_string str =
     BufferList_append BufferList_default (BufferList_of_Buffer (Buffer_of_string str))"

definition BufferList_to_Buffer :: "BufferList \<Rightarrow> Buffer result" where
  "BufferList_to_Buffer l =
     (case buffers l of
        [] \<Rightarrow> Inr Buffer_default
      | [b] \<Rightarrow> Inr b
      | _ \<Rightarrow> Inl (RuntimeError ''BufferList: please use concatenate() to combine a multi-Buffer BufferList into one Buffer''))"

definition BufferList_concatenate :: "BufferList \<Rightarrow> bytes" where
  "BufferList_concatenate l = foldl (\<lambda>ret buf. ret @ Buffer_str buf) [] (buffers l)"

definition BufferList_size :: "BufferList \<Rightarrow> nat" where
  "BufferList_size l = foldl (\<lambda>ret buf. ret + Buffer_size buf) 0 (buffers l)"

text \<open>
  The \<^verbatim>\<open>while\<close> loop pops whole Buffers from the deque and, when the remaining count is
  smaller than the front Buffer, discards inside it and stops. The deque keeps what the
  iterations before a throw did to it.
\<close>

fun BufferList_remove_prefix_loop :: "nat \<Rightarrow> Buffer list \<Rightarrow> unit result \<times> Buffer list" where
  "BufferList_remove_prefix_loop n [] =
     (if n > 0 then (Inl (OutOfRange ''BufferList::remove_prefix''), []) else (Inr (), []))"
| "BufferList_remove_prefix_loop n (b # bs) =
     (if n > 0 then
        (if n < length (Buffer_str b) then
           (let (r, b') = Buffer_remove_prefix n b in (r, b' # bs))
         else BufferList_remove_prefix_loop (n - length (Buffer_str b)) bs)
      else (Inr (), b # bs))"

definition BufferList_remove_prefix :: "nat \<Rightarrow> (BufferList, unit) prog" where
  "BufferList_remove_prefix n l =
     (let (r, bs) = BufferList_remove_prefix_loop n (buffers l) in (r, l\<lparr>buffers := bs\<rparr>))"

subsection \<open>BufferViewList\<close>

record BufferViewList =
  views :: "bytes list"

record iovec =
  iov_base :: bytes
  iov_len :: nat

definition BufferViewList_of_string :: "bytes \<Rightarrow> BufferViewList" where
  "BufferViewList_of_string str = \<lparr>views = [str]\<rparr>"

definition BufferViewList_of_BufferList :: "BufferList \<Rightarrow> BufferViewList" where
  "BufferViewList_of_BufferList bl = \<lparr>views = foldl (\<lambda>vs x. vs @ [Buffer_str x]) [] (buffers bl)\<rparr>"

fun BufferViewList_remove_prefix_loop :: "nat \<Rightarrow> bytes list \<Rightarrow> unit result \<times> bytes list" where
  "BufferViewList_remove_prefix_loop n [] =
     (if n > 0 then (Inl (OutOfRange ''BufferListView::remove_prefix''), []) else (Inr (), []))"
| "BufferViewList_remove_prefix_loop n (v # vs) =
     (if n > 0 then
        (if n < length v then (Inr (), drop n v # vs)
         else BufferViewList_remove_prefix_loop (n - length v) vs)
      else (Inr (), v # vs))"

definition BufferViewList_remove_prefix :: "nat \<Rightarrow> (BufferViewList, unit) prog" where
  "BufferViewList_remove_prefix n l =
     (let (r, vs) = BufferViewList_remove_prefix_loop n (views l) in (r, l\<lparr>views := vs\<rparr>))"

definition BufferViewList_size :: "BufferViewList \<Rightarrow> nat" where
  "BufferViewList_size l = foldl (\<lambda>ret buf. ret + length buf) 0 (views l)"

definition BufferViewList_as_iovecs :: "BufferViewList \<Rightarrow> iovec list" where
  "BufferViewList_as_iovecs l =
     foldl (\<lambda>ret x. ret @ [\<lparr>iov_base = x, iov_len = length x\<rparr>]) [] (views l)"

text \<open>The bytes an \<^verbatim>\<open>iovec\<close> array describes to \<^verbatim>\<open>writev\<close> and \<^verbatim>\<open>sendmsg\<close>.\<close>

definition iovec_bytes :: "iovec list \<Rightarrow> bytes" where
  "iovec_bytes vs = concat (map (\<lambda>v. take (iov_len v) (iov_base v)) vs)"

subsection \<open>Well-formed containers\<close>

definition Buffer_inv :: "Buffer \<Rightarrow> bool" where
  "Buffer_inv b \<longleftrightarrow> (case storage b of None \<Rightarrow> True | Some st \<Rightarrow> starting_offset b \<le> length st)"

definition BufferList_inv :: "BufferList \<Rightarrow> bool" where
  "BufferList_inv l \<longleftrightarrow> list_all Buffer_inv (buffers l)"

lemma Buffer_str_drop:
  "Buffer_str b = (case storage b of None \<Rightarrow> [] | Some st \<Rightarrow> drop (starting_offset b) st)"
  by (simp add: Buffer_str_def split: option.split)

lemma Buffer_str_default [simp]: "Buffer_str Buffer_default = []"
  by (simp add: Buffer_str_drop Buffer_default_def)

lemma Buffer_str_of_string [simp]: "Buffer_str (Buffer_of_string s) = s"
  by (simp add: Buffer_str_drop Buffer_of_string_def)

lemma Buffer_inv_default [simp]: "Buffer_inv Buffer_default"
  by (simp add: Buffer_inv_def Buffer_default_def)

lemma Buffer_inv_of_string [simp]: "Buffer_inv (Buffer_of_string s)"
  by (simp add: Buffer_inv_def Buffer_of_string_def)

lemma Buffer_remove_prefix_ok:
  assumes "Buffer_inv b" and "n \<le> length (Buffer_str b)"
  shows "fst (Buffer_remove_prefix n b) = Inr ()"
    and "Buffer_str (snd (Buffer_remove_prefix n b)) = drop n (Buffer_str b)"
    and "Buffer_inv (snd (Buffer_remove_prefix n b))"
  using assms
  by (auto simp: Buffer_remove_prefix_def Buffer_str_drop Buffer_inv_def Let_def add.commute
      split: option.split)

lemma Buffer_remove_prefix_bad:
  "length (Buffer_str b) < n \<Longrightarrow>
     Buffer_remove_prefix n b = (Inl (OutOfRange ''Buffer::remove_prefix''), b)"
  by (simp add: Buffer_remove_prefix_def)

subsection \<open>The contract: a byte string that discards from the front\<close>

locale discardable =
  fixes contents :: "'b \<Rightarrow> bytes"
    and size_of :: "'b \<Rightarrow> nat"
    and discard :: "nat \<Rightarrow> ('b, unit) prog"
    and invar :: "'b \<Rightarrow> bool"
  assumes size_of_contents: "invar b \<Longrightarrow> size_of b = length (contents b)"
    and discard_ok: "invar b \<Longrightarrow> n \<le> length (contents b) \<Longrightarrow>
      \<exists>b'. discard n b = (Inr (), b') \<and> contents b' = drop n (contents b) \<and> invar b'"
    and discard_bad: "invar b \<Longrightarrow> length (contents b) < n \<Longrightarrow>
      \<exists>b' msg. discard n b = (Inl (OutOfRange msg), b') \<and> invar b'"
begin

lemma discard_keeps: "keeps invar (discard n)"
proof (rule keepsI)
  fix b assume "invar b"
  then show "invar (snd (discard n b))"
    using discard_ok [of b n] discard_bad [of b n] by (cases "n \<le> length (contents b)") auto
qed

lemma discard_succeeds_iff: "invar b \<Longrightarrow> is_ok (fst (discard n b)) \<longleftrightarrow> n \<le> size_of b"
  using discard_ok [of b n] discard_bad [of b n] size_of_contents [of b]
  by (cases "n \<le> length (contents b)") auto

lemma discard_Inr:
  assumes "invar b" and "discard n b = (Inr (), b')"
  shows "n \<le> size_of b" and "contents b' = drop n (contents b)" and "invar b'"
    and "size_of b' = size_of b - n"
proof -
  from discard_succeeds_iff [OF assms(1), of n] assms(2) show le: "n \<le> size_of b" by simp
  then show "contents b' = drop n (contents b)" and i: "invar b'"
    using discard_ok [OF assms(1), of n] assms by (auto simp: size_of_contents)
  then show "size_of b' = size_of b - n" using assms(1) by (simp add: size_of_contents)
qed

text \<open>
  A series of discards succeeds exactly when their sum fits, and is then one discard of the
  sum: how a caller cuts a message into discards does not matter.
\<close>

lemma discards_fit:
  assumes "invar b" and "sum_list ns \<le> size_of b"
  shows "\<exists>b'. for_each discard ns b = (Inr (), b') \<and> invar b' \<and>
           contents b' = drop (sum_list ns) (contents b)"
  using assms
proof (induction ns arbitrary: b)
  case Nil
  then show ?case by (simp add: ret_def)
next
  case (Cons n ns)
  then obtain b1 where b1: "discard n b = (Inr (), b1)" "contents b1 = drop n (contents b)" "invar b1"
    using discard_ok [of b n] by (auto simp: size_of_contents)
  with Cons.prems have "sum_list ns \<le> size_of b1"
    by (simp add: size_of_contents)
  from Cons.IH [OF b1(3) this] b1 show ?case
    by (auto simp: bnd_Inr add.commute)
qed

lemma discards_overrun:
  assumes "invar b" and "size_of b < sum_list ns"
  shows "\<exists>b' msg. for_each discard ns b = (Inl (OutOfRange msg), b') \<and> invar b'"
  using assms
proof (induction ns arbitrary: b)
  case Nil
  then show ?case by simp
next
  case (Cons n ns)
  show ?case
  proof (cases "n \<le> length (contents b)")
    case True
    then obtain b1 where b1: "discard n b = (Inr (), b1)" "invar b1" "contents b1 = drop n (contents b)"
      using discard_ok [of b n] Cons.prems by auto
    with Cons.prems True have "size_of b1 < sum_list ns"
      by (simp add: size_of_contents)
    from Cons.IH [OF b1(2) this] b1 show ?thesis by (auto simp: bnd_Inr)
  next
    case False
    then show ?thesis using discard_bad [of b n] Cons.prems by (auto simp: bnd_Inl)
  qed
qed

lemma discard_progress:
  assumes "invar b" and "discard n b = (Inr (), b')" and "n > 0"
  shows "size_of b' < size_of b"
  using discard_Inr [OF assms(1,2)] assms(3) by simp

end

interpretation buf: discardable Buffer_str Buffer_size Buffer_remove_prefix Buffer_inv
proof
  fix b :: Buffer and n :: nat
  assume inv: "Buffer_inv b"
  show "Buffer_size b = length (Buffer_str b)" by (simp add: Buffer_size_def)
  {
    assume "n \<le> length (Buffer_str b)"
    with inv show "\<exists>b'. Buffer_remove_prefix n b = (Inr (), b') \<and>
        Buffer_str b' = drop n (Buffer_str b) \<and> Buffer_inv b'"
      by (metis Buffer_remove_prefix_ok prod.collapse)
  }
  {
    assume "length (Buffer_str b) < n"
    with inv show "\<exists>b' msg. Buffer_remove_prefix n b = (Inl (OutOfRange msg), b') \<and> Buffer_inv b'"
      by (simp add: Buffer_remove_prefix_bad)
  }
qed

text \<open>
  The two queues add a law: discarding more than there is throws and leaves the queue
  empty, so that the bytes after a discard are a suffix of the bytes before in every case.
\<close>

locale discardable_queue = discardable +
  fixes pieces :: "'b \<Rightarrow> bytes list"
  assumes contents_pieces: "contents b = concat (pieces b)"
    and discard_bad_empties:
      "invar b \<Longrightarrow> length (contents b) < n \<Longrightarrow> pieces (snd (discard n b)) = []"
begin

lemma discard_contents: "invar b \<Longrightarrow> contents (snd (discard n b)) = drop n (contents b)"
proof (cases "n \<le> length (contents b)")
  case True
  assume "invar b"
  with discard_ok [OF this True] show ?thesis by auto
next
  case False
  assume "invar b"
  with discard_bad_empties [OF this, of n] False show ?thesis
    by (simp add: contents_pieces [of "snd (discard n b)"])
qed

end

subsection \<open>BufferList and BufferViewList discard alike\<close>

lemma BufferList_append_buffers: "buffers (BufferList_append l m) = buffers l @ buffers m"
proof -
  have "buffers (foldl (\<lambda>l buf. l\<lparr>buffers := buffers l @ [buf]\<rparr>) l bs) = buffers l @ bs" for bs
    by (induction bs arbitrary: l) auto
  then show ?thesis by (simp add: BufferList_append_def)
qed

lemma BufferList_append_inv:
  "BufferList_inv l \<Longrightarrow> BufferList_inv m \<Longrightarrow> BufferList_inv (BufferList_append l m)"
  by (simp add: BufferList_inv_def BufferList_append_buffers)

lemma BufferList_concatenate_concat:
  "BufferList_concatenate l = concat (map Buffer_str (buffers l))"
  by (simp add: BufferList_concatenate_def foldl_append_concat)

lemma BufferList_size_concat: "BufferList_size l = total_length (map Buffer_str (buffers l))"
  by (simp add: BufferList_size_def foldl_add_sum Buffer_size_def comp_def
      flip: sum_list_length_concat)

lemma BufferViewList_size_concat: "BufferViewList_size l = total_length (views l)"
  by (simp add: BufferViewList_size_def foldl_add_sum sum_list_length_concat)

lemma views_of_BufferList: "views (BufferViewList_of_BufferList l) = map Buffer_str (buffers l)"
proof -
  have "foldl (\<lambda>vs x. vs @ [Buffer_str x]) a bs = a @ map Buffer_str bs" for a bs
    by (induction bs arbitrary: a) auto
  then show ?thesis by (simp add: BufferViewList_of_BufferList_def)
qed

lemma view_loop_ok:
  "n \<le> total_length vs \<Longrightarrow>
     fst (BufferViewList_remove_prefix_loop n vs) = Inr () \<and>
     concat (snd (BufferViewList_remove_prefix_loop n vs)) = drop n (concat vs)"
  by (induction n vs rule: BufferViewList_remove_prefix_loop.induct) auto

lemma view_loop_bad:
  "total_length vs < n \<Longrightarrow>
     BufferViewList_remove_prefix_loop n vs = (Inl (OutOfRange ''BufferListView::remove_prefix''), [])"
  by (induction n vs rule: BufferViewList_remove_prefix_loop.induct) auto

lemma buffer_loop_bad:
  "total_length (map Buffer_str bs) < n \<Longrightarrow>
     BufferList_remove_prefix_loop n bs = (Inl (OutOfRange ''BufferList::remove_prefix''), [])"
  by (induction n bs rule: BufferList_remove_prefix_loop.induct) auto

lemma buffer_loop_simulates_views:
  "list_all Buffer_inv bs \<Longrightarrow>
     is_ok (fst (BufferList_remove_prefix_loop n bs)) =
       is_ok (fst (BufferViewList_remove_prefix_loop n (map Buffer_str bs))) \<and>
     map Buffer_str (snd (BufferList_remove_prefix_loop n bs)) =
       snd (BufferViewList_remove_prefix_loop n (map Buffer_str bs)) \<and>
     list_all Buffer_inv (snd (BufferList_remove_prefix_loop n bs))"
proof (induction n bs rule: BufferList_remove_prefix_loop.induct)
  case (1 n)
  then show ?case by simp
next
  case (2 n b bs)
  show ?case
  proof (cases "0 < n \<and> n < length (Buffer_str b)")
    case True
    with 2 Buffer_remove_prefix_ok [of b n] show ?thesis
      by (auto simp: split_beta)
  next
    case False
    with 2 show ?thesis by auto
  qed
qed

lemma buffer_loop_ok:
  assumes "list_all Buffer_inv bs" and "n \<le> total_length (map Buffer_str bs)"
  shows "fst (BufferList_remove_prefix_loop n bs) = Inr ()"
    and "concat (map Buffer_str (snd (BufferList_remove_prefix_loop n bs))) =
           drop n (concat (map Buffer_str bs))"
proof -
  from view_loop_ok [OF assms(2)] buffer_loop_simulates_views [OF assms(1), of n]
  show "concat (map Buffer_str (snd (BufferList_remove_prefix_loop n bs))) =
           drop n (concat (map Buffer_str bs))"
    and "fst (BufferList_remove_prefix_loop n bs) = Inr ()"
    by (auto simp: is_ok_iff)
qed

lemmas BufferList_remove_prefix_split = BufferList_remove_prefix_def split_beta Let_def
lemmas BufferViewList_remove_prefix_split = BufferViewList_remove_prefix_def split_beta Let_def

interpretation blist: discardable_queue
  BufferList_concatenate BufferList_size BufferList_remove_prefix BufferList_inv
  "\<lambda>l. map Buffer_str (buffers l)"
proof
  fix l :: BufferList and n :: nat
  show "BufferList_concatenate l = concat (map Buffer_str (buffers l))"
    by (rule BufferList_concatenate_concat)
  assume inv: "BufferList_inv l"
  show "BufferList_size l = length (BufferList_concatenate l)"
    by (simp add: BufferList_size_concat BufferList_concatenate_concat total_length_def)
  {
    assume "n \<le> length (BufferList_concatenate l)"
    with inv buffer_loop_ok [of "buffers l" n] buffer_loop_simulates_views [of "buffers l" n]
    show "\<exists>l'. BufferList_remove_prefix n l = (Inr (), l') \<and>
        BufferList_concatenate l' = drop n (BufferList_concatenate l) \<and> BufferList_inv l'"
      by (simp add: BufferList_remove_prefix_split BufferList_concatenate_concat
          BufferList_inv_def total_length_def)
  }
  assume "length (BufferList_concatenate l) < n"
  then have bad: "BufferList_remove_prefix n l =
      (Inl (OutOfRange ''BufferList::remove_prefix''), l\<lparr>buffers := []\<rparr>)"
    using buffer_loop_bad [of "buffers l" n]
    by (simp add: BufferList_remove_prefix_split BufferList_concatenate_concat total_length_def)
  then show "\<exists>l' msg. BufferList_remove_prefix n l = (Inl (OutOfRange msg), l') \<and> BufferList_inv l'"
    and "map Buffer_str (buffers (snd (BufferList_remove_prefix n l))) = []"
    by (simp_all add: BufferList_inv_def)
qed

interpretation vlist: discardable_queue
  "\<lambda>l. concat (views l)" BufferViewList_size BufferViewList_remove_prefix "\<lambda>_. True" views
proof
  fix l :: BufferViewList and n :: nat
  show "concat (views l) = concat (views l)" ..
  show "BufferViewList_size l = length (concat (views l))"
    by (simp add: BufferViewList_size_concat total_length_def)
  {
    assume "n \<le> length (concat (views l))"
    with view_loop_ok [of n "views l"]
    show "\<exists>l'. BufferViewList_remove_prefix n l = (Inr (), l') \<and>
        concat (views l') = drop n (concat (views l)) \<and> True"
      by (simp add: BufferViewList_remove_prefix_split total_length_def)
  }
  assume "length (concat (views l)) < n"
  with view_loop_bad [of "views l" n]
  show "\<exists>l' msg. BufferViewList_remove_prefix n l = (Inl (OutOfRange msg), l') \<and> True"
    and "views (snd (BufferViewList_remove_prefix n l)) = []"
    by (simp_all add: BufferViewList_remove_prefix_split total_length_def)
qed

lemma as_iovecs_map:
  "BufferViewList_as_iovecs l = map (\<lambda>x. \<lparr>iov_base = x, iov_len = length x\<rparr>) (views l)"
proof -
  have "foldl (\<lambda>ret x. ret @ [\<lparr>iov_base = x, iov_len = length x\<rparr>]) a vs =
      a @ map (\<lambda>x. \<lparr>iov_base = x, iov_len = length x\<rparr>) vs" for a and vs :: "bytes list"
    by (induction vs arbitrary: a) auto
  then show ?thesis by (simp add: BufferViewList_as_iovecs_def)
qed

lemma iovec_bytes_as_iovecs: "iovec_bytes (BufferViewList_as_iovecs l) = concat (views l)"
  by (simp add: iovec_bytes_def as_iovecs_map comp_def)

subsection \<open>Properties\<close>

text \<open>
  C13: \<^verbatim>\<open>BufferList::remove_prefix\<close> on a well-formed list. It returns exactly when the list
  holds at least \<open>n\<close> bytes and throws \<^verbatim>\<open>out_of_range\<close> otherwise; in both cases the bytes
  that remain are the old bytes less the first \<open>n\<close> (none after a throw), the size agrees
  with them, and the list stays well-formed.
\<close>

theorem BufferList_remove_prefix_spec:
  assumes "BufferList_inv l"
  shows "fst (BufferList_remove_prefix n l) =
           (if n \<le> BufferList_size l then Inr ()
            else Inl (OutOfRange ''BufferList::remove_prefix'')) \<and>
         BufferList_concatenate (snd (BufferList_remove_prefix n l)) =
           drop n (BufferList_concatenate l) \<and>
         BufferList_size (snd (BufferList_remove_prefix n l)) = BufferList_size l - n \<and>
         BufferList_inv (snd (BufferList_remove_prefix n l))"
proof (intro conjI)
  show "BufferList_concatenate (snd (BufferList_remove_prefix n l)) = drop n (BufferList_concatenate l)"
    by (rule blist.discard_contents [OF assms])
  moreover show i: "BufferList_inv (snd (BufferList_remove_prefix n l))"
    by (rule keepsD [OF blist.discard_keeps assms])
  ultimately show "BufferList_size (snd (BufferList_remove_prefix n l)) = BufferList_size l - n"
    by (simp add: blist.size_of_contents assms)
  show "fst (BufferList_remove_prefix n l) =
      (if n \<le> BufferList_size l then Inr () else Inl (OutOfRange ''BufferList::remove_prefix''))"
    using blist.discard_succeeds_iff [OF assms, of n] buffer_loop_bad [of "buffers l" n]
    by (auto simp: is_ok_iff BufferList_remove_prefix_split BufferList_size_concat)
qed

text \<open>A list of two Buffers, used by the witnesses: \<open>[1, 2, 3]\<close> less its first byte, and \<open>[4, 5]\<close>.\<close>

definition sample_list :: BufferList where
  "sample_list = \<lparr>buffers =
     [\<lparr>storage = Some [1, 2, 3], starting_offset = 1\<rparr>, Buffer_of_string [4, 5]]\<rparr>"

lemma sample_list_facts [simp]:
  "BufferList_inv sample_list"
  "BufferList_concatenate sample_list = [2, 3, 4, 5]"
  "BufferList_size sample_list = 4"
  by (simp_all add: sample_list_def BufferList_inv_def Buffer_inv_def Buffer_of_string_def
      BufferList_concatenate_def BufferList_size_def Buffer_size_def Buffer_str_drop)

theorem BufferList_remove_prefix_spec_witness:
  "fst (BufferList_remove_prefix 3 sample_list) = Inr () \<and>
   BufferList_concatenate (snd (BufferList_remove_prefix 3 sample_list)) = [5] \<and>
   is_ok (fst (BufferList_remove_prefix 5 sample_list)) = False"
  using BufferList_remove_prefix_spec [of sample_list 3] BufferList_remove_prefix_spec [of sample_list 5]
  by simp

text \<open>
  C14: \<^verbatim>\<open>BufferViewList\<close> is a faithful view of a \<^verbatim>\<open>BufferList\<close>: taking the view and
  discarding commute, view by view (not only as one string), and the two operations
  succeed and fail together.
\<close>

theorem BufferViewList_simulates_BufferList:
  assumes "BufferList_inv l"
  shows "BufferViewList_of_BufferList (snd (BufferList_remove_prefix n l)) =
           snd (BufferViewList_remove_prefix n (BufferViewList_of_BufferList l)) \<and>
         is_ok (fst (BufferList_remove_prefix n l)) =
           is_ok (fst (BufferViewList_remove_prefix n (BufferViewList_of_BufferList l)))"
proof -
  from buffer_loop_simulates_views [of "buffers l" n] assms
  have "views (BufferViewList_of_BufferList (snd (BufferList_remove_prefix n l))) =
      views (snd (BufferViewList_remove_prefix n (BufferViewList_of_BufferList l)))"
    and "is_ok (fst (BufferList_remove_prefix n l)) =
      is_ok (fst (BufferViewList_remove_prefix n (BufferViewList_of_BufferList l)))"
    by (auto simp: BufferList_remove_prefix_split BufferViewList_remove_prefix_split
        views_of_BufferList BufferList_inv_def)
  then show ?thesis by simp
qed

theorem BufferViewList_simulates_BufferList_witness:
  "BufferViewList_of_BufferList (snd (BufferList_remove_prefix 1 sample_list)) =
     snd (BufferViewList_remove_prefix 1 (BufferViewList_of_BufferList sample_list))"
  using BufferViewList_simulates_BufferList [of sample_list 1] by simp

text \<open>
  Discarding from a \<^verbatim>\<open>Buffer\<close> piece by piece. If the pieces fit, every call of
  \<^verbatim>\<open>remove_prefix\<close> succeeds and what is left is the string less the sum of the pieces; if
  they do not, some call throws \<^verbatim>\<open>out_of_range\<close>.
\<close>

theorem Buffer_discard_series:
  assumes "Buffer_inv b"
  shows "if sum_list ns \<le> Buffer_size b
         then \<exists>b'. for_each Buffer_remove_prefix ns b = (Inr (), b') \<and> Buffer_inv b' \<and>
                Buffer_copy b' = drop (sum_list ns) (Buffer_copy b)
         else \<exists>b' msg. for_each Buffer_remove_prefix ns b = (Inl (OutOfRange msg), b') \<and> Buffer_inv b'"
  using buf.discards_fit [OF assms, of ns] buf.discards_overrun [OF assms, of ns]
  by (auto simp: Buffer_copy_def)

theorem Buffer_discard_series_witness:
  "\<exists>b'. for_each Buffer_remove_prefix [1, 2] (Buffer_of_string [7, 8, 9, 10]) = (Inr (), b') \<and>
     Buffer_inv b' \<and> Buffer_copy b' = [10]"
  using Buffer_discard_series [of "Buffer_of_string [7, 8, 9, 10]" "[1, 2]"]
  by (simp add: Buffer_size_def Buffer_copy_def)

text \<open>
  \<^verbatim>\<open>Buffer::remove_prefix\<close> drops its reference to the storage exactly when the whole
  string has been discarded, and a call that throws leaves the Buffer as it was.
\<close>

theorem Buffer_storage_release:
  assumes "Buffer_inv b" and "storage b \<noteq> None"
  shows "if n \<le> Buffer_size b
         then (storage (snd (Buffer_remove_prefix n b)) = None) = (n = Buffer_size b)
         else snd (Buffer_remove_prefix n b) = b"
  using assms
  by (auto simp: Buffer_remove_prefix_def Buffer_size_def Buffer_str_drop Buffer_inv_def Let_def
      split: if_splits)

theorem Buffer_storage_release_witness:
  "storage (snd (Buffer_remove_prefix 2 (Buffer_of_string [1, 2]))) = None \<and>
   storage (snd (Buffer_remove_prefix 1 (Buffer_of_string [1, 2]))) \<noteq> None"
  using Buffer_storage_release [of "Buffer_of_string [1, 2]" 2]
    Buffer_storage_release [of "Buffer_of_string [1, 2]" 1]
  by (simp add: Buffer_size_def) (simp add: Buffer_of_string_def)

text \<open>
  The \<^verbatim>\<open>iovec\<close> array a \<^verbatim>\<open>BufferViewList\<close> of a \<^verbatim>\<open>BufferList\<close> hands to the kernel
  describes exactly the concatenation of the list, in order, and its lengths add up to
  \<^verbatim>\<open>size()\<close>.
\<close>

theorem as_iovecs_describe_list:
  "iovec_bytes (BufferViewList_as_iovecs (BufferViewList_of_BufferList l)) = BufferList_concatenate l \<and>
   sum_list (map iov_len (BufferViewList_as_iovecs (BufferViewList_of_BufferList l))) = BufferList_size l"
  by (simp add: iovec_bytes_as_iovecs views_of_BufferList BufferList_concatenate_concat
      BufferList_size_concat as_iovecs_map iovec_bytes_def comp_def flip: sum_list_length_concat)

text \<open>
  Building and collapsing a \<^verbatim>\<open>BufferList\<close>. Appending concatenates the bytes and adds
  the sizes; the conversion to \<^verbatim>\<open>Buffer\<close> succeeds exactly for at most one piece and then
  keeps the bytes.
\<close>

theorem BufferList_append_and_collapse:
  "BufferList_concatenate (BufferList_append l m) = BufferList_concatenate l @ BufferList_concatenate m \<and>
   BufferList_size (BufferList_append l m) = BufferList_size l + BufferList_size m \<and>
   BufferList_concatenate (BufferList_of_string s) = s \<and>
   (is_ok (BufferList_to_Buffer l) = (length (buffers l) \<le> 1)) \<and>
   (case BufferList_to_Buffer l of Inl _ \<Rightarrow> True | Inr b \<Rightarrow> Buffer_copy b = BufferList_concatenate l)"
  by (auto simp: BufferList_concatenate_concat BufferList_size_concat BufferList_append_buffers
      BufferList_of_string_def BufferList_default_def BufferList_of_Buffer_def
      BufferList_to_Buffer_def Buffer_copy_def split: list.split)

end
