(* ===== verification/Parser.thy ===== *)
theory Parser
  imports Buffer
begin

text \<open>
  \<^verbatim>\<open>util/parser.hh\<close> and \<^verbatim>\<open>util/parser.cc\<close>: \<^verbatim>\<open>NetParser\<close> reads unsigned integers in
  network byte order from the front of a Buffer, \<^verbatim>\<open>NetUnparser\<close> appends them to a string.
  The templates \<^verbatim>\<open>_parse_int<T>\<close> and \<^verbatim>\<open>_unparse_int<T>\<close> are polymorphic in the word
  width; \<^verbatim>\<open>sizeof(T)\<close> is a division of that width by eight. Every member function of the
  parser is a computation on the parser object.

  The locale \<open>net_int\<close> is the contract between a reader and a writer of one integer type,
  interpreted for the 8-, 16- and 32-bit pairs of the code.
\<close>

subsection \<open>ParseResult\<close>

datatype ParseResult =
    NoError
  | BadChecksum
  | PacketTooShort
  | WrongIPVersion
  | HeaderTooShort
  | TruncatedPacket
  | Unsupported

fun ParseResult_index :: "ParseResult \<Rightarrow> nat" where
  "ParseResult_index NoError = 0"
| "ParseResult_index BadChecksum = 1"
| "ParseResult_index PacketTooShort = 2"
| "ParseResult_index WrongIPVersion = 3"
| "ParseResult_index HeaderTooShort = 4"
| "ParseResult_index TruncatedPacket = 5"
| "ParseResult_index Unsupported = 6"

definition as_string_names :: "string list" where
  "as_string_names =
     [''NoError'', ''BadChecksum'', ''PacketTooShort'', ''WrongIPVersion'',
      ''HeaderTooShort'', ''TruncatedPacket'']"

definition as_string :: "ParseResult \<Rightarrow> string result" where
  "as_string r =
     (if ParseResult_index r < length as_string_names
      then Inr (as_string_names ! ParseResult_index r)
      else Inl (UndefinedBehaviour ''as_string: _names read out of range''))"

subsection \<open>NetParser\<close>

record NetParser =
  p_buffer :: Buffer
  p_error :: ParseResult

definition NetParser_of_Buffer :: "Buffer \<Rightarrow> NetParser" where
  "NetParser_of_Buffer b = \<lparr>p_buffer = b, p_error = NoError\<rparr>"

definition NetParser_get_error :: "NetParser \<Rightarrow> ParseResult" where
  "NetParser_get_error p = p_error p"

definition NetParser_set_error :: "ParseResult \<Rightarrow> (NetParser, unit) prog" where
  "NetParser_set_error res = modify (\<lambda>p. p\<lparr>p_error := res\<rparr>)"

definition NetParser_error :: "NetParser \<Rightarrow> bool" where
  "NetParser_error p \<longleftrightarrow> NetParser_get_error p \<noteq> NoError"

text \<open>Running a member function of the Buffer inside the parser.\<close>

definition on_buffer :: "(Buffer, 'a) prog \<Rightarrow> (NetParser, 'a) prog" where
  "on_buffer m p = (let (r, b) = m (p_buffer p) in (r, p\<lparr>p_buffer := b\<rparr>))"

definition NetParser_check_size :: "nat \<Rightarrow> (NetParser, unit) prog" where
  "NetParser_check_size n =
     bnd (gets (\<lambda>p. Buffer_size (p_buffer p)))
       (\<lambda>sz. if n > sz then NetParser_set_error PacketTooShort else ret ())"

definition sizeof :: "'a::len word itself \<Rightarrow> nat" where
  "sizeof t = LENGTH('a) div 8"

text \<open>\<^verbatim>\<open>for (i = 0; i < len; i++) { ret <<= 8; ret += uint8_t(_buffer.at(i)); }\<close>\<close>

fun parse_int_loop :: "Buffer \<Rightarrow> nat \<Rightarrow> nat \<Rightarrow> 'a::len word \<Rightarrow> 'a word result" where
  "parse_int_loop b i 0 acc = Inr acc"
| "parse_int_loop b i (Suc k) acc =
     (case Buffer_at b i of
        Inl e \<Rightarrow> Inl e
      | Inr c \<Rightarrow> parse_int_loop b (Suc i) k (push_bit 8 acc + ucast c))"

definition NetParser_parse_int :: "(NetParser, 'a::len word) prog" where
  "NetParser_parse_int =
     (let len = sizeof TYPE('a word) in
      bnd (NetParser_check_size len) (\<lambda>_.
      bnd (gets NetParser_error) (\<lambda>err.
      if err then ret 0
      else
        bnd (gets p_buffer) (\<lambda>b.
        bnd (lift_result (parse_int_loop b 0 len 0)) (\<lambda>r.
        bnd (on_buffer (Buffer_remove_prefix len)) (\<lambda>_.
        ret r))))))"

definition NetParser_remove_prefix :: "nat \<Rightarrow> (NetParser, unit) prog" where
  "NetParser_remove_prefix n =
     bnd (NetParser_check_size n) (\<lambda>_.
     bnd (gets NetParser_error) (\<lambda>err.
     if err then ret () else on_buffer (Buffer_remove_prefix n)))"

definition NetParser_u32 :: "(NetParser, uint32) prog" where
  "NetParser_u32 = NetParser_parse_int"

definition NetParser_u16 :: "(NetParser, uint16) prog" where
  "NetParser_u16 = NetParser_parse_int"

definition NetParser_u8 :: "(NetParser, byte) prog" where
  "NetParser_u8 = NetParser_parse_int"

subsection \<open>NetUnparser\<close>

definition NetUnparser_unparse_int :: "bytes \<Rightarrow> 'a::len word \<Rightarrow> bytes" where
  "NetUnparser_unparse_int s val =
     (let len = sizeof TYPE('a word) in
      foldl (\<lambda>s i. s @ [ucast (drop_bit ((len - i - 1) * 8) val AND 0xff)]) s [0..<len])"

definition NetUnparser_u32 :: "bytes \<Rightarrow> uint32 \<Rightarrow> bytes" where
  "NetUnparser_u32 s val = NetUnparser_unparse_int s val"

definition NetUnparser_u16 :: "bytes \<Rightarrow> uint16 \<Rightarrow> bytes" where
  "NetUnparser_u16 s val = NetUnparser_unparse_int s val"

definition NetUnparser_u8 :: "bytes \<Rightarrow> byte \<Rightarrow> bytes" where
  "NetUnparser_u8 s val = NetUnparser_unparse_int s val"

subsection \<open>The documentation's example\<close>

text \<open>
  \<^verbatim>\<open>doctests/parser_example.cc\<close>, with its five constants as arguments: write them to a
  string, parse the string, and throw unless the values come back.
\<close>

definition parser_example_write :: "byte \<Rightarrow> uint32 \<Rightarrow> uint16 \<Rightarrow> byte \<Rightarrow> uint32 \<Rightarrow> bytes" where
  "parser_example_write val0 val1 val2 val3 val4 =
     (let buffer = [] @ [val0];
          buffer = NetUnparser_u32 buffer val1;
          buffer = NetUnparser_u16 buffer val2;
          buffer = NetUnparser_u8 buffer val3
      in NetUnparser_u32 buffer val4)"

definition parser_example_read :: "(NetParser, byte \<times> uint32 \<times> uint16 \<times> byte \<times> uint32) prog" where
  "parser_example_read =
     bnd NetParser_u8 (\<lambda>out0.
     bnd NetParser_u32 (\<lambda>out1.
     bnd NetParser_u16 (\<lambda>out2.
     bnd NetParser_u8 (\<lambda>out3.
     bnd NetParser_u32 (\<lambda>out4.
     ret (out0, out1, out2, out3, out4))))))"

definition parser_example :: "byte \<Rightarrow> uint32 \<Rightarrow> uint16 \<Rightarrow> byte \<Rightarrow> uint32 \<Rightarrow> (NetParser, unit) prog" where
  "parser_example val0 val1 val2 val3 val4 =
     bnd parser_example_read (\<lambda>(out0, out1, out2, out3, out4).
     if out0 \<noteq> val0 \<or> out1 \<noteq> val1 \<or> out2 \<noteq> val2 \<or> out3 \<noteq> val3 \<or> out4 \<noteq> val4
     then throw (RuntimeError ''bad parse'') else ret ())"

subsection \<open>Reference: numbers in network byte order\<close>

definition be_nat :: "bytes \<Rightarrow> nat" where
  "be_nat bs = foldl (\<lambda>r c. 256 * r + unat c) 0 bs"

definition be_word :: "bytes \<Rightarrow> 'a::len word" where
  "be_word bs = foldl (\<lambda>r c. push_bit 8 r + ucast c) 0 bs"

definition be_bytes :: "'a::len word \<Rightarrow> bytes" where
  "be_bytes v = map (\<lambda>i. ucast (drop_bit ((sizeof TYPE('a word) - i - 1) * 8) v AND 0xff))
     [0..<sizeof TYPE('a word)]"

lemma be_nat_snoc [simp]: "be_nat [] = 0" "be_nat (bs @ [c]) = 256 * be_nat bs + unat c"
  by (simp_all add: be_nat_def)

lemma be_nat_bound: "be_nat bs < 256 ^ length bs"
proof (induction bs rule: rev_induct)
  case Nil
  then show ?case by simp
next
  case (snoc c bs)
  have "unat c < 256" using unsigned_less [of c] by simp
  with snoc have "256 * be_nat bs + unat c < 256 * (be_nat bs + 1)" by simp
  also have "\<dots> \<le> 256 * 256 ^ length bs" using snoc by (intro mult_le_mono) auto
  finally show ?case by simp
qed

lemma be_word_of_nat: "be_word bs = of_nat (be_nat bs)"
proof (induction bs rule: rev_induct)
  case Nil
  then show ?case by (simp add: be_word_def)
next
  case (snoc c bs)
  have "be_word (bs @ [c]) = push_bit 8 (be_word bs) + (ucast c :: 'a word)"
    by (simp add: be_word_def)
  then show ?case
    using snoc by (simp add: push_bit_eq_mult mult.commute)
qed

lemma unat_be_word:
  assumes "8 * length bs \<le> LENGTH('a::len)"
  shows "unat (be_word bs :: 'a word) = be_nat bs"
proof -
  have "be_nat bs < 2 ^ (8 * length bs)"
    using be_nat_bound [of bs] by (simp add: power_mult)
  also have "\<dots> \<le> 2 ^ LENGTH('a)" using assms by simp
  finally show ?thesis by (simp add: be_word_of_nat unat_of_nat)
qed

lemma be_bytes_length [simp]: "length (be_bytes (v :: 'a::len word)) = sizeof TYPE('a word)"
  by (simp add: be_bytes_def)

lemma and_byte_mask: "x AND 0xff = take_bit 8 (x :: 'a::len word)"
  by (simp add: take_bit_eq_mask mask_eq_exp_minus_1)

lemma ucast_byte_take_bit: "ucast (ucast (x AND 0xff) :: byte) = take_bit 8 (x :: 'a::len word)"
  unfolding and_byte_mask by (rule bit_word_eqI) (auto simp: bit_simps)

text \<open>The loop of \<^verbatim>\<open>_parse_int\<close> over the bytes of \<^verbatim>\<open>_unparse_int\<close> rebuilds the value from the top.\<close>

lemma be_bytes_prefix:
  fixes v :: "'a::len word"
  assumes dvd: "8 dvd LENGTH('a)" and le: "k \<le> sizeof TYPE('a word)"
  shows "be_word (take k (be_bytes v)) = drop_bit ((sizeof TYPE('a word) - k) * 8) v"
  using le
proof (induction k)
  case 0
  from dvd have "sizeof TYPE('a word) * 8 = LENGTH('a)" by (simp add: sizeof_def)
  then show ?case by (simp add: be_word_def)
next
  case (Suc k)
  let ?n = "sizeof TYPE('a word)"
  let ?x = "drop_bit ((?n - Suc k) * 8) v"
  from Suc.prems have k: "k < ?n" by simp
  then have "(?n - k) * 8 = 8 + (?n - Suc k) * 8" by (simp add: diff_mult_distrib)
  with Suc k have IH: "be_word (take k (be_bytes v)) = drop_bit 8 ?x" by simp
  have "take (Suc k) (be_bytes v) = take k (be_bytes v) @ [ucast (?x AND 0xff)]"
    using k by (simp add: take_Suc_conv_app_nth be_bytes_def)
  then have "be_word (take (Suc k) (be_bytes v)) =
      push_bit 8 (be_word (take k (be_bytes v))) + take_bit 8 ?x"
    by (simp add: be_word_def ucast_byte_take_bit)
  then show ?case by (simp only: IH bits_ident)
qed

lemma be_word_be_bytes:
  "8 dvd LENGTH('a) \<Longrightarrow> be_word (be_bytes v) = (v :: 'a::len word)"
  using be_bytes_prefix [of "sizeof TYPE('a word)" v] by simp

text \<open>
  Every byte string of the right length is the encoding of its value: the encoding is
  injective between two finite sets of the same size.
\<close>

lemma be_bytes_surj:
  assumes dvd: "8 dvd LENGTH('a::len)" and len: "length bs = sizeof TYPE('a word)"
  shows "\<exists>v :: 'a word. be_bytes v = bs"
proof -
  let ?n = "sizeof TYPE('a word)"
  let ?B = "{bs :: bytes. set bs \<subseteq> UNIV \<and> length bs = ?n}"
  have inj: "inj (be_bytes :: 'a word \<Rightarrow> bytes)"
    by (rule inj_on_inverseI [of _ be_word]) (simp add: be_word_be_bytes dvd)
  have "card (range (be_bytes :: 'a word \<Rightarrow> bytes)) = 2 ^ LENGTH('a)"
    by (simp add: card_image [OF inj] card_word)
  also have "\<dots> = (2 ^ 8) ^ ?n"
    using dvd by (simp only: power_mult [symmetric] sizeof_def dvd_mult_div_cancel)
  also have "\<dots> = card (UNIV :: byte set) ^ ?n" by (simp add: card_word)
  also have "\<dots> = card ?B" by (rule card_lists_length_eq [symmetric]) simp
  finally have "range (be_bytes :: 'a word \<Rightarrow> bytes) = ?B"
    by (intro card_subset_eq finite_lists_length_eq) auto
  with len have "bs \<in> range (be_bytes :: 'a word \<Rightarrow> bytes)" by simp
  then show ?thesis by auto
qed

lemma be_bytes_be_word:
  assumes "8 dvd LENGTH('a::len)" and "length bs = sizeof TYPE('a word)"
  shows "be_bytes (be_word bs :: 'a word) = bs"
  using be_bytes_surj [OF assms] be_word_be_bytes [OF assms(1)] by metis

subsection \<open>What the member functions do\<close>

definition NetParser_inv :: "NetParser \<Rightarrow> bool" where
  "NetParser_inv p \<longleftrightarrow> Buffer_inv (p_buffer p)"

abbreviation rest_of :: "NetParser \<Rightarrow> bytes" where
  "rest_of p \<equiv> Buffer_str (p_buffer p)"

lemma parse_int_loop_eq:
  "i + k \<le> length (Buffer_str b) \<Longrightarrow>
     parse_int_loop b i k acc =
       Inr (foldl (\<lambda>r c. push_bit 8 r + ucast c) acc (take k (drop i (Buffer_str b))))"
proof (induction b i k acc rule: parse_int_loop.induct)
  case (1 b i acc)
  then show ?case by simp
next
  case (2 b i k acc)
  then have i: "i < length (Buffer_str b)" by simp
  then have "Buffer_at b i = Inr (Buffer_str b ! i)" by (simp add: Buffer_at_def)
  with 2 i show ?case by (simp add: take_Suc_conv_app_nth flip: Cons_nth_drop_Suc)
qed

lemma unparse_int_append:
  "NetUnparser_unparse_int s v = s @ be_bytes (v :: 'a::len word)"
proof -
  have "foldl (\<lambda>s i. s @ [f i]) s xs = s @ map f xs" for f :: "nat \<Rightarrow> byte" and xs
    by (induction xs arbitrary: s) auto
  then show ?thesis by (simp add: NetUnparser_unparse_int_def be_bytes_def Let_def)
qed

lemma check_size_eq:
  "NetParser_check_size n p =
     (Inr (), if n > Buffer_size (p_buffer p) then p\<lparr>p_error := PacketTooShort\<rparr> else p)"
  by (simp add: NetParser_check_size_def NetParser_set_error_def modify_def ret_def)

text \<open>Both readers stop at an error, old or new, and touch nothing but the error field.\<close>

definition stops :: "nat \<Rightarrow> NetParser \<Rightarrow> bool" where
  "stops n p \<longleftrightarrow> NetParser_error p \<or> length (rest_of p) < n"

definition stopped :: "nat \<Rightarrow> NetParser \<Rightarrow> NetParser" where
  "stopped n p = (if length (rest_of p) < n then p\<lparr>p_error := PacketTooShort\<rparr> else p)"

lemmas NetParser_error_simps = NetParser_error_def NetParser_get_error_def

lemma check_then_error:
  "bnd (NetParser_check_size n) (\<lambda>_. bnd (gets NetParser_error) (\<lambda>err. if err then m else k)) p =
     (if stops n p then m (stopped n p) else k p)"
  by (auto simp: bnd_Inr [OF check_size_eq] stops_def stopped_def Buffer_size_def NetParser_error_simps)

lemma parse_int_stops:
  "stops (sizeof TYPE('a::len word)) p \<Longrightarrow>
     NetParser_parse_int p = (Inr (0 :: 'a word), stopped (sizeof TYPE('a word)) p)"
  by (simp add: NetParser_parse_int_def Let_def check_then_error ret_def)

lemma parse_int_reads:
  fixes p :: NetParser
  defines "n \<equiv> sizeof TYPE('a::len word)"
  assumes inv: "NetParser_inv p" and go: "\<not> stops n p"
  shows "\<exists>p'. NetParser_parse_int p = (Inr (be_word (take n (rest_of p)) :: 'a word), p') \<and>
           rest_of p' = drop n (rest_of p) \<and> p_error p' = NoError \<and> NetParser_inv p'"
proof -
  from go have len: "n \<le> length (rest_of p)" and err: "p_error p = NoError"
    by (auto simp: stops_def NetParser_error_simps)
  from buf.discard_ok [of "p_buffer p" n] inv len obtain b' where
    b': "Buffer_remove_prefix n (p_buffer p) = (Inr (), b')"
      "Buffer_str b' = drop n (rest_of p)" "Buffer_inv b'"
    by (auto simp: NetParser_inv_def)
  from len have loop: "parse_int_loop (p_buffer p) 0 n 0 = Inr (be_word (take n (rest_of p)) :: 'a word)"
    by (simp add: parse_int_loop_eq be_word_def)
  from b' have "on_buffer (Buffer_remove_prefix n) p = (Inr (), p\<lparr>p_buffer := b'\<rparr>)"
    by (simp add: on_buffer_def)
  then have "NetParser_parse_int p =
      (Inr (be_word (take n (rest_of p)) :: 'a word), p\<lparr>p_buffer := b'\<rparr>)"
    using go by (simp add: NetParser_parse_int_def Let_def check_then_error loop bnd_Inr ret_def
        flip: n_def)
  with b' err show ?thesis by (simp add: NetParser_inv_def)
qed

lemma remove_prefix_stops:
  "stops n p \<Longrightarrow> NetParser_remove_prefix n p = (Inr (), stopped n p)"
  by (simp add: NetParser_remove_prefix_def check_then_error ret_def)

lemma remove_prefix_reads:
  assumes "NetParser_inv p" and go: "\<not> stops n p"
  shows "\<exists>p'. NetParser_remove_prefix n p = (Inr (), p') \<and>
           rest_of p' = drop n (rest_of p) \<and> p_error p' = NoError \<and> NetParser_inv p'"
proof -
  from go have len: "n \<le> length (rest_of p)" and err: "p_error p = NoError"
    by (auto simp: stops_def NetParser_error_simps)
  with buf.discard_ok [of "p_buffer p" n] assms(1) obtain b' where
    "Buffer_remove_prefix n (p_buffer p) = (Inr (), b')"
    "Buffer_str b' = drop n (rest_of p)" "Buffer_inv b'"
    by (auto simp: NetParser_inv_def)
  with go err show ?thesis
    by (simp add: NetParser_remove_prefix_def check_then_error on_buffer_def NetParser_inv_def)
qed

subsection \<open>The contract between a reader and a writer\<close>

locale net_int =
  fixes width :: nat
    and put :: "bytes \<Rightarrow> 'v::zero \<Rightarrow> bytes"
    and get :: "(NetParser, 'v) prog"
  assumes put_append: "put s v = s @ put [] v"
    and put_length: "length (put [] v) = width"
    and put_surj: "length bs = width \<Longrightarrow> \<exists>v. put [] v = bs"
    and get_put: "NetParser_inv p \<Longrightarrow> p_error p = NoError \<Longrightarrow> rest_of p = put [] v @ bs \<Longrightarrow>
      \<exists>p'. get p = (Inr v, p') \<and> rest_of p' = bs \<and> p_error p' = NoError \<and> NetParser_inv p'"
    and get_stops: "stops width p \<Longrightarrow> get p = (Inr 0, stopped width p)"
begin

lemma get_reads:
  assumes "NetParser_inv p" and "\<not> stops width p"
  shows "\<exists>v p'. get p = (Inr v, p') \<and> rest_of p = put [] v @ rest_of p' \<and>
           rest_of p' = drop width (rest_of p) \<and> p_error p' = NoError \<and> NetParser_inv p'"
proof -
  from assms(2) have "length (take width (rest_of p)) = width" and err: "p_error p = NoError"
    by (auto simp: stops_def NetParser_error_simps)
  then obtain v where v: "put [] v = take width (rest_of p)" using put_surj by blast
  then have "rest_of p = put [] v @ drop width (rest_of p)" by simp
  from get_put [OF assms(1) err this] v show ?thesis by (metis append_take_drop_id)
qed

lemma get_total:
  assumes "NetParser_inv p"
  shows "\<exists>v p'. get p = (Inr v, p') \<and> NetParser_inv p'"
proof (cases "stops width p")
  case True
  with assms show ?thesis by (simp add: get_stops stopped_def NetParser_inv_def)
next
  case False
  from get_reads [OF assms this] show ?thesis by blast
qed

text \<open>A whole array: what a loop of writes produces, a loop of reads gives back.\<close>

fun get_list :: "nat \<Rightarrow> (NetParser, 'v list) prog" where
  "get_list 0 = ret []"
| "get_list (Suc n) = bnd get (\<lambda>v. bnd (get_list n) (\<lambda>vs. ret (v # vs)))"

lemma puts_append: "foldl put s vs = s @ foldl put [] vs"
proof (induction vs rule: rev_induct)
  case (snoc v vs)
  have "foldl put s (vs @ [v]) = s @ put (foldl put [] vs) v"
    using snoc put_append [of "foldl put [] vs" v] put_append [of "s @ foldl put [] vs" v] by simp
  then show ?case by simp
qed simp

lemma get_list_puts:
  assumes "NetParser_inv p" and "p_error p = NoError" and "rest_of p = foldl put [] vs @ bs"
  shows "\<exists>p'. get_list (length vs) p = (Inr vs, p') \<and> rest_of p' = bs \<and>
           p_error p' = NoError \<and> NetParser_inv p'"
  using assms
proof (induction vs arbitrary: p)
  case Nil
  then show ?case by (simp add: ret_def)
next
  case (Cons v vs)
  then have "rest_of p = put [] v @ (foldl put [] vs @ bs)"
    using puts_append [of "put [] v" vs] by simp
  from get_put [OF Cons.prems(1,2) this] obtain p1 where
    p1: "get p = (Inr v, p1)" "rest_of p1 = foldl put [] vs @ bs" "p_error p1 = NoError" "NetParser_inv p1"
    by blast
  from Cons.IH [OF p1(4,3,2)] obtain p2 where
    "get_list (length vs) p1 = (Inr vs, p2)" "rest_of p2 = bs" "p_error p2 = NoError" "NetParser_inv p2"
    by blast
  with p1(1) show ?case by (simp add: bnd_Inr ret_def)
qed

end

lemma parse_int_net_int:
  assumes "8 dvd LENGTH('a::len)"
  shows "net_int (sizeof TYPE('a word)) NetUnparser_unparse_int (NetParser_parse_int :: (NetParser, 'a word) prog)"
proof
  fix s bs :: bytes and v :: "'a word" and p :: NetParser
  let ?n = "sizeof TYPE('a word)"
  show "NetUnparser_unparse_int s v = s @ NetUnparser_unparse_int [] v"
    and "length (NetUnparser_unparse_int [] v) = ?n"
    by (simp_all add: unparse_int_append)
  {
    assume "length bs = ?n"
    from be_bytes_surj [OF assms this] show "\<exists>v :: 'a word. NetUnparser_unparse_int [] v = bs"
      by (simp add: unparse_int_append)
  }
  {
    assume "stops ?n p"
    then show "NetParser_parse_int p = (Inr (0 :: 'a word), stopped ?n p)" by (rule parse_int_stops)
  }
  assume p: "NetParser_inv p" "p_error p = NoError" "rest_of p = NetUnparser_unparse_int [] v @ bs"
  then have "\<not> stops ?n p" by (simp add: stops_def NetParser_error_simps unparse_int_append)
  from parse_int_reads [OF p(1) this] p(3)
  show "\<exists>p'. NetParser_parse_int p = (Inr v, p') \<and> rest_of p' = bs \<and>
      p_error p' = NoError \<and> NetParser_inv p'"
    by (simp add: unparse_int_append be_word_be_bytes assms)
qed

lemma codec_funs:
  "NetUnparser_u8 = NetUnparser_unparse_int"
  "NetUnparser_u16 = NetUnparser_unparse_int"
  "NetUnparser_u32 = NetUnparser_unparse_int"
  by (simp_all add: fun_eq_iff NetUnparser_u8_def NetUnparser_u16_def NetUnparser_u32_def)

lemmas codec_defs = codec_funs NetParser_u8_def NetParser_u16_def NetParser_u32_def

interpretation net8: net_int 1 NetUnparser_u8 NetParser_u8
  using parse_int_net_int [where 'a = 8] by (simp add: sizeof_def codec_defs)

interpretation net16: net_int 2 NetUnparser_u16 NetParser_u16
  using parse_int_net_int [where 'a = 16] by (simp add: sizeof_def codec_defs)

interpretation net32: net_int 4 NetUnparser_u32 NetParser_u32
  using parse_int_net_int [where 'a = 32] by (simp add: sizeof_def codec_defs)

subsection \<open>Sequences of reads\<close>

text \<open>A client of the parser is a sequence of these calls.\<close>

datatype read_op = U8 | U16 | U32 | Skip nat

fun op_width :: "read_op \<Rightarrow> nat" where
  "op_width U8 = 1"
| "op_width U16 = 2"
| "op_width U32 = 4"
| "op_width (Skip n) = n"

fun run_op :: "read_op \<Rightarrow> (NetParser, unit) prog" where
  "run_op U8 = bnd NetParser_u8 (\<lambda>_. ret ())"
| "run_op U16 = bnd NetParser_u16 (\<lambda>_. ret ())"
| "run_op U32 = bnd NetParser_u32 (\<lambda>_. ret ())"
| "run_op (Skip n) = NetParser_remove_prefix n"

lemma run_op_stops: "stops (op_width oper) p \<Longrightarrow> run_op oper p = (Inr (), stopped (op_width oper) p)"
  by (cases oper) (simp_all add: net8.get_stops net16.get_stops net32.get_stops bnd_Inr ret_def
      remove_prefix_stops)

lemma run_op_reads:
  assumes "NetParser_inv p" and "\<not> stops (op_width oper) p"
  shows "\<exists>p'. run_op oper p = (Inr (), p') \<and> rest_of p' = drop (op_width oper) (rest_of p) \<and>
           p_error p' = NoError \<and> NetParser_inv p'"
proof (cases oper)
  case U8
  with assms net8.get_reads [of p] show ?thesis by (auto simp: bnd_Inr ret_def)
next
  case U16
  with assms net16.get_reads [of p] show ?thesis by (auto simp: bnd_Inr ret_def)
next
  case U32
  with assms net32.get_reads [of p] show ?thesis by (auto simp: bnd_Inr ret_def)
next
  case (Skip n)
  with assms remove_prefix_reads [of p n] show ?thesis by simp
qed

lemma stopped_error: "stops n p \<Longrightarrow> NetParser_error (stopped n p)"
  by (auto simp: stops_def stopped_def NetParser_error_simps)

lemma run_ops_after_error:
  assumes "NetParser_error p" and "NetParser_inv p"
  shows "\<exists>p'. for_each run_op ops p = (Inr (), p') \<and> p_buffer p' = p_buffer p \<and>
           p_error p' \<in> {p_error p, PacketTooShort} \<and> NetParser_inv p'"
  using assms
proof (induction ops arbitrary: p)
  case Nil
  then show ?case by (simp add: ret_def)
next
  case (Cons oper ops)
  let ?q = "stopped (op_width oper) p"
  from Cons.prems have st: "stops (op_width oper) p" by (simp add: stops_def)
  have q: "p_buffer ?q = p_buffer p" "p_error ?q \<in> {p_error p, PacketTooShort}" "NetParser_inv ?q"
    using Cons.prems by (auto simp: stopped_def NetParser_inv_def)
  from Cons.IH [OF stopped_error [OF st] q(3)] q show ?case
    by (auto simp: bnd_Inr run_op_stops st)
qed

lemma run_ops_fit:
  assumes "NetParser_inv p" and "p_error p = NoError"
    and "sum_list (map op_width ops) \<le> length (rest_of p)"
  shows "\<exists>p'. for_each run_op ops p = (Inr (), p') \<and> p_error p' = NoError \<and>
           rest_of p' = drop (sum_list (map op_width ops)) (rest_of p)"
  using assms
proof (induction ops arbitrary: p)
  case Nil
  then show ?case by (simp add: ret_def)
next
  case (Cons oper ops)
  then have "\<not> stops (op_width oper) p" by (simp add: stops_def NetParser_error_simps)
  from run_op_reads [OF Cons.prems(1) this] obtain q where
    q: "run_op oper p = (Inr (), q)" "rest_of q = drop (op_width oper) (rest_of p)"
      "p_error q = NoError" "NetParser_inv q" by blast
  with Cons.IH [OF q(4,3)] Cons.prems show ?case by (auto simp: bnd_Inr add.commute)
qed

lemma run_ops_overrun:
  assumes "NetParser_inv p" and "p_error p = NoError"
    and "length (rest_of p) < sum_list (map op_width ops)"
  shows "\<exists>p' k. for_each run_op ops p = (Inr (), p') \<and> p_error p' = PacketTooShort \<and>
           rest_of p' = drop k (rest_of p)"
  using assms
proof (induction ops arbitrary: p)
  case Nil
  then show ?case by simp
next
  case (Cons oper ops)
  show ?case
  proof (cases "stops (op_width oper) p")
    case True
    then have q: "p_error (stopped (op_width oper) p) = PacketTooShort"
      "p_buffer (stopped (op_width oper) p) = p_buffer p" "NetParser_inv (stopped (op_width oper) p)"
      using Cons.prems by (auto simp: stops_def stopped_def NetParser_error_simps NetParser_inv_def)
    from run_ops_after_error [OF stopped_error [OF True] q(3), of ops] q
    obtain p' where "for_each run_op ops (stopped (op_width oper) p) = (Inr (), p')"
      "p_buffer p' = p_buffer p" "p_error p' = PacketTooShort" by auto
    then show ?thesis
      by (auto simp: bnd_Inr run_op_stops True intro: exI [of _ 0])
  next
    case False
    from run_op_reads [OF Cons.prems(1) this] obtain q where
      q: "run_op oper p = (Inr (), q)" "rest_of q = drop (op_width oper) (rest_of p)"
        "p_error q = NoError" "NetParser_inv q" by blast
    with Cons.prems False have "length (rest_of q) < sum_list (map op_width ops)"
      by (auto simp: stops_def)
    from Cons.IH [OF q(4,3) this] q show ?thesis by (auto simp: bnd_Inr)
  qed
qed

subsection \<open>Properties\<close>

text \<open>
  C4: encode then decode. For every width that is a whole number of bytes (the template
  instances of the code are 8, 16 and 32), a parser whose input starts with the output of
  \<^verbatim>\<open>_unparse_int\<close> for \<open>v\<close> returns \<open>v\<close>, without an error, and leaves exactly what followed.
\<close>

theorem unparse_then_parse:
  fixes v :: "'a::len word"
  assumes "8 dvd LENGTH('a)" and "NetParser_inv p" and "p_error p = NoError"
    and "rest_of p = NetUnparser_unparse_int [] v @ bs"
  shows "\<exists>p'. NetParser_parse_int p = (Inr v, p') \<and> rest_of p' = bs \<and>
           p_error p' = NoError \<and> NetParser_inv p'"
  by (rule net_int.get_put [OF parse_int_net_int [OF assms(1)] assms(2-4)])

theorem unparse_then_parse_witness:
  "\<exists>p'. NetParser_parse_int
       (NetParser_of_Buffer (Buffer_of_string (NetUnparser_unparse_int [] (0xdeadbeef :: uint32) @ [7]))) =
     (Inr (0xdeadbeef :: uint32), p') \<and> rest_of p' = [7] \<and> p_error p' = NoError \<and> NetParser_inv p'"
  by (rule unparse_then_parse) (simp_all add: NetParser_of_Buffer_def NetParser_inv_def)

text \<open>
  Decode then encode. Whatever bytes a parser without an error reads as a 32-bit value,
  \<^verbatim>\<open>NetUnparser::u32\<close> writes back the same bytes; the value is the number those four bytes
  spell in network byte order.
\<close>

theorem u32_network_order:
  assumes "NetParser_inv p" and "p_error p = NoError" and "4 \<le> length (rest_of p)"
  shows "\<exists>v p'. NetParser_u32 p = (Inr v, p') \<and> NetParser_inv p' \<and>
           NetUnparser_u32 [] v = take 4 (rest_of p) \<and> rest_of p' = drop 4 (rest_of p) \<and>
           unat v = be_nat (take 4 (rest_of p))"
proof -
  from assms have go: "\<not> stops (sizeof TYPE(32 word)) p"
    by (simp add: stops_def NetParser_error_simps sizeof_def)
  from parse_int_reads [OF assms(1) go]
  obtain p' where p': "NetParser_u32 p = (Inr (be_word (take 4 (rest_of p))), p')"
    "rest_of p' = drop 4 (rest_of p)" "NetParser_inv p'"
    by (auto simp: NetParser_u32_def sizeof_def)
  with assms show ?thesis
    by (simp add: codec_funs unparse_int_append be_bytes_be_word unat_be_word sizeof_def)
qed

theorem u32_network_order_witness:
  "\<exists>v p'. NetParser_u32 (NetParser_of_Buffer (Buffer_of_string [0, 0, 1, 2, 9])) = (Inr v, p') \<and>
     NetUnparser_u32 [] v = [0, 0, 1, 2] \<and> rest_of p' = [9] \<and> unat v = 258"
  using u32_network_order [of "NetParser_of_Buffer (Buffer_of_string [0, 0, 1, 2, 9])"]
  by (auto simp: NetParser_of_Buffer_def NetParser_inv_def be_nat_def)

text \<open>
  C20: the outcome of any sequence of reads and skips. No call ever throws. If the input
  holds the bytes the calls ask for, there is no error and exactly those bytes are gone;
  otherwise the parser ends in the error \<^verbatim>\<open>PacketTooShort\<close> and what is left is a suffix of
  the input.
\<close>

theorem reads_outcome:
  assumes "NetParser_inv p" and "p_error p = NoError"
  shows "\<exists>p'. for_each run_op ops p = (Inr (), p') \<and>
           (if sum_list (map op_width ops) \<le> Buffer_size (p_buffer p)
            then p_error p' = NoError \<and> rest_of p' = drop (sum_list (map op_width ops)) (rest_of p)
            else p_error p' = PacketTooShort \<and> (\<exists>k. rest_of p' = drop k (rest_of p)))"
proof (cases "sum_list (map op_width ops) \<le> Buffer_size (p_buffer p)")
  case True
  with run_ops_fit [OF assms, of ops] show ?thesis by (auto simp: Buffer_size_def)
next
  case False
  with run_ops_overrun [OF assms, of ops] show ?thesis by (auto simp: Buffer_size_def)
qed

theorem reads_outcome_witness:
  "\<exists>p'. for_each run_op [U16, Skip 1, U32] (NetParser_of_Buffer (Buffer_of_string [1, 2, 3, 4, 5])) =
     (Inr (), p') \<and> p_error p' = PacketTooShort"
  using reads_outcome [of "NetParser_of_Buffer (Buffer_of_string [1, 2, 3, 4, 5])" "[U16, Skip 1, U32]"]
  by (auto simp: NetParser_of_Buffer_def NetParser_inv_def Buffer_size_def)

text \<open>
  Errors stick. From a parser in an error state no sequence of reads and skips throws,
  consumes a byte or clears the error; a 32-bit read returns 0.
\<close>

theorem error_is_sticky:
  assumes "NetParser_error p" and "NetParser_inv p"
  shows "\<exists>p'. for_each run_op ops p = (Inr (), p') \<and> p_buffer p' = p_buffer p \<and>
           NetParser_error p' \<and> fst (NetParser_u32 p') = Inr 0"
proof -
  from run_ops_after_error [OF assms, of ops] obtain p' where
    p': "for_each run_op ops p = (Inr (), p')" "p_buffer p' = p_buffer p"
      "p_error p' \<in> {p_error p, PacketTooShort}" by blast
  then have "NetParser_error p'" using assms by (auto simp: NetParser_error_simps)
  with p' net32.get_stops [of p'] show ?thesis by (simp add: stops_def)
qed

theorem error_is_sticky_witness:
  "\<exists>p'. for_each run_op [U8, Skip 2] \<lparr>p_buffer = Buffer_of_string [1, 2, 3], p_error = BadChecksum\<rparr> =
       (Inr (), p') \<and> p_buffer p' = Buffer_of_string [1, 2, 3] \<and> NetParser_error p'"
  using error_is_sticky [of "\<lparr>p_buffer = Buffer_of_string [1, 2, 3], p_error = BadChecksum\<rparr>" "[U8, Skip 2]"]
  by (auto simp: NetParser_error_simps NetParser_inv_def)

text \<open>
  The documentation's example never throws, for any five values: the message of mixed
  widths written by \<^verbatim>\<open>NetUnparser\<close> is read back value by value and used up.
\<close>

theorem parser_example_passes:
  "\<exists>p'. parser_example val0 val1 val2 val3 val4
       (NetParser_of_Buffer (Buffer_of_string (parser_example_write val0 val1 val2 val3 val4))) =
     (Inr (), p') \<and> p_error p' = NoError \<and> rest_of p' = []"
proof -
  let ?p0 = "NetParser_of_Buffer (Buffer_of_string (parser_example_write val0 val1 val2 val3 val4))"
  let ?b4 = "NetUnparser_u32 [] val4 @ []"
  let ?b3 = "NetUnparser_u8 [] val3 @ ?b4"
  let ?b2 = "NetUnparser_u16 [] val2 @ ?b3"
  let ?b1 = "NetUnparser_u32 [] val1 @ ?b2"
  have "NetUnparser_u8 [] val0 = [val0]"
    by (simp add: codec_funs unparse_int_append be_bytes_def sizeof_def and_byte_mask take_bit_word_eq_self)
  then have "rest_of ?p0 = NetUnparser_u8 [] val0 @ ?b1" "p_error ?p0 = NoError" "NetParser_inv ?p0"
    by (simp_all add: parser_example_write_def Let_def codec_funs unparse_int_append
        NetParser_of_Buffer_def NetParser_inv_def)
  then obtain p1 where p1: "NetParser_u8 ?p0 = (Inr val0, p1)" "rest_of p1 = ?b1" "p_error p1 = NoError" "NetParser_inv p1"
    using net8.get_put by blast
  then obtain p2 where p2: "NetParser_u32 p1 = (Inr val1, p2)" "rest_of p2 = ?b2" "p_error p2 = NoError" "NetParser_inv p2"
    using net32.get_put by blast
  then obtain p3 where p3: "NetParser_u16 p2 = (Inr val2, p3)" "rest_of p3 = ?b3" "p_error p3 = NoError" "NetParser_inv p3"
    using net16.get_put by blast
  then obtain p4 where p4: "NetParser_u8 p3 = (Inr val3, p4)" "rest_of p4 = ?b4" "p_error p4 = NoError" "NetParser_inv p4"
    using net8.get_put by blast
  then obtain p5 where "NetParser_u32 p4 = (Inr val4, p5)" "rest_of p5 = []" "p_error p5 = NoError"
    using net32.get_put by blast
  with p1(1) p2(1) p3(1) p4(1) show ?thesis
    by (simp add: parser_example_def parser_example_read_def bnd_Inr bnd_assoc ret_def)
qed

text \<open>
  C40: \<^verbatim>\<open>as_string\<close> is defined for every \<^verbatim>\<open>ParseResult\<close> but \<^verbatim>\<open>Unsupported\<close>, whose index lies
  past the end of the six-entry name table; the names it returns are distinct.
\<close>

theorem as_string_table:
  "is_ok (as_string r) = (r \<noteq> Unsupported) \<and>
   as_string Unsupported = Inl (UndefinedBehaviour ''as_string: _names read out of range'') \<and>
   inj as_string"
proof -
  have "as_string r = as_string r' \<longleftrightarrow> r = r'" for r r'
    by (cases r; cases r') (simp_all add: as_string_def as_string_names_def)
  then have "inj as_string" by (simp add: inj_def)
  moreover have "is_ok (as_string r) = (r \<noteq> Unsupported)"
    by (cases r) (simp_all add: as_string_def as_string_names_def)
  ultimately show ?thesis by (simp add: as_string_def as_string_names_def)
qed

end
