(* ===== verification/Checksum.thy ===== *)
theory Checksum
  imports Parser "HOL-Library.Multiset"
begin

text \<open>
  The class \<^verbatim>\<open>InternetChecksum\<close> of \<^verbatim>\<open>util/util.hh\<close> and \<^verbatim>\<open>util/util.cc\<close>. The running sum is a
  32-bit word that wraps; \<^verbatim>\<open>value()\<close> folds the carries until the sum fits in 16 bits and
  complements it. The reference is the one's complement sum of the 16-bit big-endian words
  of the data, written over the natural numbers.
\<close>

subsection \<open>InternetChecksum\<close>

record InternetChecksum =
  ck_sum :: uint32
  ck_parity :: bool

definition InternetChecksum_init :: "uint32 \<Rightarrow> InternetChecksum" where
  "InternetChecksum_init initial_sum = \<lparr>ck_sum = initial_sum, ck_parity = False\<rparr>"

definition InternetChecksum_add_byte :: "InternetChecksum \<Rightarrow> byte \<Rightarrow> InternetChecksum" where
  "InternetChecksum_add_byte c b =
     (let val = (ucast b :: uint16);
          val = (if \<not> ck_parity c then push_bit 8 val else val)
      in \<lparr>ck_sum = ck_sum c + ucast val, ck_parity = \<not> ck_parity c\<rparr>)"

definition InternetChecksum_add :: "bytes \<Rightarrow> InternetChecksum \<Rightarrow> InternetChecksum" where
  "InternetChecksum_add data c = foldl InternetChecksum_add_byte c data"

lemma fold_step_decreases:
  fixes r :: uint32
  assumes "r > 0xffff"
  shows "unat (drop_bit 16 r + (r AND 0xffff)) = unat r div 65536 + unat r mod 65536"
    and "unat r div 65536 + unat r mod 65536 < unat r"
proof -
  from assms have big: "unat r > 65535" by (simp add: word_less_nat_alt)
  then have q: "1 \<le> unat r div 65536" by linarith
  have "unat r = 65536 * (unat r div 65536) + unat r mod 65536" by simp
  with q show lt: "unat r div 65536 + unat r mod 65536 < unat r" by linarith
  have "r AND 0xffff = take_bit 16 r" by (simp add: take_bit_eq_mask mask_eq_exp_minus_1)
  then have "unat (r AND 0xffff) = take_bit 16 (unat r)" by (simp only: unsigned_take_bit_eq)
  then have "unat (r AND 0xffff) = unat r mod 65536" by (simp add: take_bit_eq_mod)
  moreover have "unat (drop_bit 16 r) = unat r div 65536"
    by (simp add: drop_bit_eq_div unat_div_distrib)
  ultimately show "unat (drop_bit 16 r + (r AND 0xffff)) = unat r div 65536 + unat r mod 65536"
    using lt unsigned_less [of r, where 'a = nat] by (simp add: unat_word_ariths)
qed

text \<open>\<^verbatim>\<open>while (ret > 0xffff) { ret = (ret >> 16) + (ret & 0xffff); }\<close>\<close>

function fold_carries :: "uint32 \<Rightarrow> uint32" where
  "fold_carries r = (if r > 0xffff then fold_carries (drop_bit 16 r + (r AND 0xffff)) else r)"
  by pat_completeness auto
termination
  by (relation "measure unat") (use fold_step_decreases in auto)

declare fold_carries.simps [simp del]

definition InternetChecksum_value :: "InternetChecksum \<Rightarrow> uint16" where
  "InternetChecksum_value c = ucast (NOT (fold_carries (ck_sum c)))"

subsection \<open>Reference: one's complement sums\<close>

fun be16_sum :: "bytes \<Rightarrow> nat" where
  "be16_sum [] = 0"
| "be16_sum [b] = 256 * unat b"
| "be16_sum (b # c # bs) = 256 * unat b + unat c + be16_sum bs"

definition oc_reduce :: "nat \<Rightarrow> nat" where
  "oc_reduce n = (if n = 0 then 0 else (n - 1) mod 65535 + 1)"

text \<open>The sum a checksum object in a given parity adds for some bytes.\<close>

fun weighted :: "bool \<Rightarrow> bytes \<Rightarrow> nat" where
  "weighted par [] = 0"
| "weighted par (b # bs) = (if par then unat b else 256 * unat b) + weighted (\<not> par) bs"

lemma weighted_be16_sum: "weighted False bs = be16_sum bs"
  by (induction bs rule: be16_sum.induct) auto

lemma weighted_append:
  "weighted par (xs @ ys) = weighted par xs + weighted (par \<noteq> odd (length xs)) ys"
proof (induction xs arbitrary: par)
  case (Cons x xs)
  then show ?case by (cases par) simp_all
qed simp

lemma byte_lt: "unat (b :: byte) < 256"
  using unsigned_less [of b] by simp

lemma be16_sum_bound: "be16_sum bs \<le> 65535 * ((length bs + 1) div 2)"
proof (induction bs rule: be16_sum.induct)
  case (2 b)
  then show ?case using byte_lt [of b] by simp
next
  case (3 b c bs)
  then show ?case using byte_lt [of b] byte_lt [of c] by simp
qed simp

subsection \<open>The object computes the reference\<close>

lemma add_byte_sum:
  "ck_sum (InternetChecksum_add_byte c b) =
     ck_sum c + of_nat (if ck_parity c then unat b else 256 * unat b)"
proof -
  have "ucast (push_bit 8 (ucast b :: uint16)) = push_bit 8 (ucast b :: uint32)"
    by (rule bit_word_eqI) (use bit_imp_le_length [of b] in \<open>fastforce simp: bit_simps\<close>)
  then have "ucast (push_bit 8 (ucast b :: uint16)) = (of_nat (256 * unat b) :: uint32)"
    by (simp add: push_bit_eq_mult)
  moreover have "ucast (ucast b :: uint16) = (ucast b :: uint32)"
    by (rule bit_word_eqI) (use bit_imp_le_length [of b] in \<open>fastforce simp: bit_simps\<close>)
  ultimately show ?thesis by (simp add: InternetChecksum_add_byte_def Let_def)
qed

lemma add_sum:
  "ck_sum (InternetChecksum_add data c) = ck_sum c + of_nat (weighted (ck_parity c) data)"
proof (induction data arbitrary: c)
  case Nil
  then show ?case by (simp add: InternetChecksum_add_def)
next
  case (Cons b data)
  have "ck_parity (InternetChecksum_add_byte c b) = (\<not> ck_parity c)"
    by (simp add: InternetChecksum_add_byte_def Let_def)
  with Cons [of "InternetChecksum_add_byte c b"] show ?case
    by (simp add: InternetChecksum_add_def add_byte_sum add.assoc)
qed

lemma add_append: "InternetChecksum_add (xs @ ys) c = InternetChecksum_add ys (InternetChecksum_add xs c)"
  by (simp add: InternetChecksum_add_def)

lemma add_chunks: "foldl (\<lambda>c d. InternetChecksum_add d c) c ds = InternetChecksum_add (concat ds) c"
  by (induction ds arbitrary: c) (simp_all add: add_append, simp add: InternetChecksum_add_def)

lemma oc_reduce_step: "n > 65535 \<Longrightarrow> oc_reduce (n div 65536 + n mod 65536) = oc_reduce n"
proof -
  assume big: "n > 65535"
  then have q: "1 \<le> n div 65536" by linarith
  have "n = 65536 * (n div 65536) + n mod 65536" by simp
  then have "n - 1 = (n div 65536 + n mod 65536 - 1) + (n div 65536) * 65535" using q by linarith
  then have "(n - 1) mod 65535 = (n div 65536 + n mod 65536 - 1) mod 65535"
    by (metis mod_mult_self1)
  then show ?thesis using big q by (simp add: oc_reduce_def)
qed

lemma unat_fold_carries: "unat (fold_carries r) = oc_reduce (unat r)"
proof (induction r rule: fold_carries.induct)
  case (1 r)
  show ?case
  proof (cases "r > 0xffff")
    case True
    then have "unat r > 65535" by (simp add: word_less_nat_alt)
    with 1 True show ?thesis
      by (simp add: fold_carries.simps [of r] fold_step_decreases oc_reduce_step)
  next
    case False
    then have "unat r \<le> 65535" by (simp add: word_less_nat_alt)
    with False show ?thesis by (simp add: fold_carries.simps [of r] oc_reduce_def)
  qed
qed

lemma oc_reduce_le: "oc_reduce n \<le> 65535"
  by (simp add: oc_reduce_def Suc_le_eq)

lemma unat_max_uint16: "unat (- 1 :: uint16) = 65535"
  using unsigned_minus_1_eq_mask [where 'a = nat and 'b = 16] by (simp add: mask_eq_exp_minus_1)

lemma unat_value: "unat (InternetChecksum_value c) = 65535 - oc_reduce (unat (ck_sum c))"
proof -
  let ?r = "fold_carries (ck_sum c)"
  have le: "unat ?r \<le> 65535" by (simp add: unat_fold_carries oc_reduce_le)
  have "ucast (NOT ?r) = NOT (ucast ?r :: uint16)"
    by (rule bit_word_eqI) (auto simp: bit_simps)
  also have "\<dots> = - 1 - ucast ?r" by (simp add: not_eq_complement)
  finally have "unat (ucast (NOT ?r) :: uint16) = unat (- 1 :: uint16) - unat (ucast ?r :: uint16)"
    by (simp only: unat_sub word_n1_ge)
  moreover have "unat (ucast ?r :: uint16) = unat ?r"
    using le by (simp add: unsigned_ucast_eq take_bit_nat_eq_self)
  ultimately have "unat (ucast (NOT ?r) :: uint16) = 65535 - unat ?r"
    by (simp only: unat_max_uint16)
  then show ?thesis by (simp add: InternetChecksum_value_def unat_fold_carries)
qed

text \<open>With no wrap-around of the 32-bit sum, the value is the complement of the reduced sum.\<close>

lemma value_of_sum:
  assumes "unat s + weighted False data < 2 ^ 32"
  shows "unat (InternetChecksum_value (InternetChecksum_add data (InternetChecksum_init s))) =
           65535 - oc_reduce (unat s + be16_sum data)"
proof -
  have "unat (s + of_nat (weighted False data)) = unat s + weighted False data"
    using assms by (simp add: unat_word_ariths unat_of_nat)
  then show ?thesis
    by (simp add: unat_value add_sum InternetChecksum_init_def weighted_be16_sum)
qed

lemma be16_sum_small: "length data \<le> 131072 \<Longrightarrow> be16_sum data < 2 ^ 32"
proof -
  assume "length data \<le> 131072"
  then have "(length data + 1) div 2 \<le> 65536" by linarith
  with be16_sum_bound [of data] show ?thesis by simp
qed

lemma oc_reduce_complement: "oc_reduce (n + (65535 - oc_reduce n)) = 65535"
proof (cases "n = 0")
  case True
  then show ?thesis by (simp add: oc_reduce_def)
next
  case False
  define q r where "q = (n - 1) div 65535" and "r = (n - 1) mod 65535"
  have "n - 1 = 65535 * q + r" and "r < 65535" by (simp_all add: q_def r_def)
  moreover from False have "oc_reduce n = r + 1" by (simp add: oc_reduce_def r_def)
  ultimately have "n + (65535 - oc_reduce n) - 1 = 65534 + 65535 * q" using False by linarith
  then show ?thesis using False by (simp add: oc_reduce_def)
qed

text \<open>Equal reductions mean a difference that is a multiple of 65535.\<close>

lemma oc_reduce_eqD:
  assumes "oc_reduce m = oc_reduce (m + d)" and "d > 0"
  shows "d \<ge> 65535"
proof -
  from assms have "m \<noteq> 0" by (simp add: oc_reduce_def split: if_splits)
  with assms have "(m - 1) mod 65535 = (m - 1 + d) mod 65535"
    by (simp add: oc_reduce_def)
  then have "65535 dvd d" by (metis mod_eq_dvd_iff_nat diff_add_inverse le_add1)
  with assms(2) show ?thesis by (simp add: dvd_imp_le)
qed

lemma weighted_update:
  assumes "i < length data"
  shows "weighted par (data[i := b]) + (if par \<noteq> odd i then unat (data ! i) else 256 * unat (data ! i)) =
           weighted par data + (if par \<noteq> odd i then unat b else 256 * unat b)"
  using assms
proof (induction data arbitrary: par i)
  case (Cons x data)
  show ?case
  proof (cases i)
    case (Suc j)
    with Cons.prems Cons.IH [of j "\<not> par"] show ?thesis by (cases par) (auto split: if_splits)
  qed simp
qed simp

lemma weighted_concat_even:
  "list_all (\<lambda>d. even (length d)) ds \<Longrightarrow>
     weighted False (concat ds) = sum_list (map (weighted False) ds)"
  by (induction ds) (auto simp: weighted_append)

lemma be16_sum_field:
  assumes "even (length pre)"
  shows "be16_sum (pre @ NetUnparser_u16 [] v @ post) = be16_sum (pre @ [0, 0] @ post) + unat v"
proof -
  have "be_nat (be_bytes v) = unat v"
    using unat_be_word [of "be_bytes v", where 'a = 16] be_word_be_bytes [of v] by (simp add: sizeof_def)
  moreover obtain h l where hl: "be_bytes v = [h, l]"
    by (simp add: be_bytes_def sizeof_def upt_rec)
  ultimately have "256 * unat h + unat l = unat v" by (simp add: be_nat_def)
  with assms hl show ?thesis
    by (simp add: codec_funs unparse_int_append weighted_append flip: weighted_be16_sum)
qed

subsection \<open>Properties\<close>

text \<open>
  C5: \<^verbatim>\<open>InternetChecksum\<close> computes the Internet checksum. However the data is cut into
  calls of \<^verbatim>\<open>add\<close> (odd cuts included: the parity bit carries over), \<^verbatim>\<open>value()\<close> is the
  complement of the one's complement sum of the initial sum and the big-endian 16-bit words
  of the whole data, the last one padded with a zero byte; as long as that sum is below
  \<open>2 ^ 32\<close>, which 131072 bytes cannot exceed.
\<close>

theorem checksum_of_chunks:
  assumes "unat s + be16_sum (concat ds) < 2 ^ 32"
  shows "unat (InternetChecksum_value
           (foldl (\<lambda>c d. InternetChecksum_add d c) (InternetChecksum_init s) ds)) =
         65535 - oc_reduce (unat s + be16_sum (concat ds))"
  using value_of_sum [of s "concat ds"] assms by (simp add: add_chunks weighted_be16_sum)

theorem checksum_of_chunks_witness:
  "unat (InternetChecksum_value
     (foldl (\<lambda>c d. InternetChecksum_add d c) (InternetChecksum_init 0) [[1, 2, 3], [4, 0xff]])) = 64760"
  using checksum_of_chunks [of 0 "[[1, 2, 3], [4, 0xff]]"] by (simp add: oc_reduce_def)

text \<open>
  C22: a packet that carries its checksum verifies. Compute the checksum of a packet whose
  16-bit checksum field (at an even offset) is zero, write it there in network byte order,
  and the checksum of the packet is 0; for packets of up to 131070 bytes.
\<close>

theorem checksum_verifies:
  assumes "even (length pre)" and "length pre + length post \<le> 131068"
  shows "InternetChecksum_value (InternetChecksum_add
           (pre @ NetUnparser_u16 []
              (InternetChecksum_value (InternetChecksum_add (pre @ [0, 0] @ post) (InternetChecksum_init 0)))
            @ post) (InternetChecksum_init 0)) = 0"
proof -
  let ?zero = "pre @ [0, 0] @ post"
  let ?c = "InternetChecksum_value (InternetChecksum_add ?zero (InternetChecksum_init 0))"
  let ?full = "pre @ NetUnparser_u16 [] ?c @ post"
  let ?n = "be16_sum ?zero"
  have "(length ?zero + 1) div 2 \<le> 65535" using assms(2) by simp
  with be16_sum_bound [of ?zero] have n: "?n \<le> 65535 * 65535" by (meson le_trans mult_le_mono2)
  then have c: "unat ?c = 65535 - oc_reduce ?n"
    using value_of_sum [of 0 ?zero] by (simp add: weighted_be16_sum)
  have full: "be16_sum ?full = ?n + (65535 - oc_reduce ?n)"
    using be16_sum_field [OF assms(1), of ?c post] c by simp
  then have "be16_sum ?full < 2 ^ 32" using n by simp
  then have "unat (InternetChecksum_value (InternetChecksum_add ?full (InternetChecksum_init 0))) =
      65535 - oc_reduce (be16_sum ?full)"
    using value_of_sum [of 0 ?full] by (simp add: weighted_be16_sum)
  also have "\<dots> = 0" by (simp only: full oc_reduce_complement)
  finally show ?thesis by (simp add: unat_eq_zero)
qed

theorem checksum_verifies_witness:
  "InternetChecksum_value (InternetChecksum_add
     ([0x45, 0] @ NetUnparser_u16 []
        (InternetChecksum_value (InternetChecksum_add ([0x45, 0] @ [0, 0] @ [1, 2, 3]) (InternetChecksum_init 0)))
      @ [1, 2, 3]) (InternetChecksum_init 0)) = 0"
  by (rule checksum_verifies) simp_all

text \<open>
  C23: changing any one byte of the data changes the checksum, for data of up to 131072
  bytes: a single corrupted byte is always detected.
\<close>

theorem checksum_detects_byte:
  assumes "i < length data" and "b \<noteq> data ! i" and "length data \<le> 131072"
  shows "InternetChecksum_value (InternetChecksum_add (data[i := b]) (InternetChecksum_init 0)) \<noteq>
         InternetChecksum_value (InternetChecksum_add data (InternetChecksum_init 0))"
proof
  let ?old = "be16_sum data" and ?new = "be16_sum (data[i := b])"
  let ?w = "if odd i then 1 else 256 :: nat"
  assume "InternetChecksum_value (InternetChecksum_add (data[i := b]) (InternetChecksum_init 0)) =
    InternetChecksum_value (InternetChecksum_add data (InternetChecksum_init 0))"
  then have "oc_reduce ?new = oc_reduce ?old"
    using value_of_sum [of 0 data] value_of_sum [of 0 "data[i := b]"] assms
      be16_sum_small [of data] be16_sum_small [of "data[i := b]"] oc_reduce_le [of ?old] oc_reduce_le [of ?new]
    by (simp add: weighted_be16_sum)
  moreover have "?new + ?w * unat (data ! i) = ?old + ?w * unat b"
    using weighted_update [OF assms(1), of False b] by (cases "odd i") (simp_all add: weighted_be16_sum)
  moreover have "unat b \<noteq> unat (data ! i)" using assms(2) by (simp add: word_unat_eq_iff)
  ultimately show False
    using oc_reduce_eqD [of ?old "?new - ?old"] oc_reduce_eqD [of ?new "?old - ?new"]
      byte_lt [of b] byte_lt [of "data ! i"]
    by (cases "?old \<le> ?new"; cases "odd i") auto
qed

theorem checksum_detects_byte_witness:
  "InternetChecksum_value (InternetChecksum_add ([1, 2, 3][1 := 7]) (InternetChecksum_init 0)) \<noteq>
   InternetChecksum_value (InternetChecksum_add [1, 2, 3] (InternetChecksum_init 0))"
  by (rule checksum_detects_byte) simp_all

text \<open>
  The checksum does not depend on the order of blocks of even length, whatever the
  initial sum and even when the 32-bit sum wraps.
\<close>

theorem checksum_block_order:
  assumes "mset ds = mset ds'" and "list_all (\<lambda>d. even (length d)) ds"
  shows "InternetChecksum_value (InternetChecksum_add (concat ds) (InternetChecksum_init s)) =
         InternetChecksum_value (InternetChecksum_add (concat ds') (InternetChecksum_init s))"
proof -
  from assms have "list_all (\<lambda>d. even (length d)) ds'"
    by (metis list.pred_set set_mset_mset)
  moreover from assms(1) have "sum_list (map (weighted False) ds) = sum_list (map (weighted False) ds')"
    by (metis mset_map sum_mset_sum_list)
  ultimately have "weighted False (concat ds) = weighted False (concat ds')"
    using assms(2) by (simp add: weighted_concat_even)
  then show ?thesis by (simp add: InternetChecksum_value_def add_sum InternetChecksum_init_def)
qed

theorem checksum_block_order_witness:
  "InternetChecksum_value (InternetChecksum_add (concat [[1, 2], [3, 4, 5, 6]]) (InternetChecksum_init 9)) =
   InternetChecksum_value (InternetChecksum_add (concat [[3, 4, 5, 6], [1, 2]]) (InternetChecksum_init 9))"
  by (rule checksum_block_order) simp_all

end
