(* ===== verification/Buffer_Store.thy ===== *)
theory Buffer_Store
  imports Buffer
begin

text \<open>
  The storage behind a \<^verbatim>\<open>Buffer\<close>. In the code a Buffer holds a \<^verbatim>\<open>shared_ptr<string>\<close>: copies of a Buffer
  share one string, each with an offset of its own, and the string is freed with its last
  reference. This theory has the class over an explicit store of strings with use counts, and shows
  that it refines the Buffer of theory \<open>Buffer\<close>, which holds its string by value. Its state is a list of
  Buffer variables and the store.
\<close>

subsection \<open>Shared strings\<close>

record shared_string =
  ss_string :: bytes
  ss_uses :: nat

record store =
  cells :: "nat \<Rightarrow> shared_string option"
  next_cell :: nat

text \<open>\<^verbatim>\<open>make_shared<string>\<close>, the copy and the release of a \<^verbatim>\<open>shared_ptr\<close>.\<close>

definition make_shared :: "bytes \<Rightarrow> store \<Rightarrow> nat \<times> store" where
  "make_shared str st =
     (next_cell st, st\<lparr>cells := (cells st)(next_cell st \<mapsto> \<lparr>ss_string = str, ss_uses = 1\<rparr>), next_cell := Suc (next_cell st)\<rparr>)"

definition acquire :: "nat option \<Rightarrow> store \<Rightarrow> store" where
  "acquire p st =
     (case p of
        None \<Rightarrow> st
      | Some a \<Rightarrow> st\<lparr>cells := (cells st)(a := map_option (\<lambda>c. c\<lparr>ss_uses := ss_uses c + 1\<rparr>) (cells st a))\<rparr>)"

definition release_cell :: "shared_string \<Rightarrow> shared_string option" where
  "release_cell c = (if ss_uses c > 1 then Some (c\<lparr>ss_uses := ss_uses c - 1\<rparr>) else None)"

definition release_shared :: "nat option \<Rightarrow> store \<Rightarrow> store" where
  "release_shared p st =
     (case p of
        None \<Rightarrow> st
      | Some a \<Rightarrow> st\<lparr>cells := (cells st)(a := Option.bind (cells st a) release_cell)\<rparr>)"

subsection \<open>The class\<close>

record SharedBuffer =
  sb_storage :: "nat option"
  sb_offset :: nat

definition SharedBuffer_default :: SharedBuffer where
  "SharedBuffer_default = \<lparr>sb_storage = None, sb_offset = 0\<rparr>"

definition SharedBuffer_of_string :: "bytes \<Rightarrow> store \<Rightarrow> SharedBuffer \<times> store" where
  "SharedBuffer_of_string str st = (let (a, st') = make_shared str st in (\<lparr>sb_storage = Some a, sb_offset = 0\<rparr>, st'))"

definition SharedBuffer_str :: "store \<Rightarrow> SharedBuffer \<Rightarrow> bytes result" where
  "SharedBuffer_str st b =
     (case sb_storage b of
        None \<Rightarrow> Inr []
      | Some a \<Rightarrow>
          (case cells st a of
             None \<Rightarrow> Inl (UndefinedBehaviour ''Buffer: dangling storage'')
           | Some c \<Rightarrow> Inr (take (length (ss_string c) - sb_offset b) (drop (sb_offset b) (ss_string c)))))"

definition SharedBuffer_remove_prefix :: "nat \<Rightarrow> SharedBuffer \<Rightarrow> store \<Rightarrow> unit result \<times> SharedBuffer \<times> store" where
  "SharedBuffer_remove_prefix n b st =
     (case SharedBuffer_str st b of
        Inl e \<Rightarrow> (Inl e, b, st)
      | Inr str \<Rightarrow>
          if n > length str then (Inl (OutOfRange ''Buffer::remove_prefix''), b, st)
          else
            let b1 = b\<lparr>sb_offset := sb_offset b + n\<rparr> in
            case sb_storage b1 of
              None \<Rightarrow> (Inr (), b1, st)
            | Some a \<Rightarrow>
                if map_option (length \<circ> ss_string) (cells st a) = Some (sb_offset b1)
                then (Inr (), b1\<lparr>sb_storage := None\<rparr>, release_shared (Some a) st)
                else (Inr (), b1, st))"

subsection \<open>Programs over Buffer variables\<close>

text \<open>
  Assigning a new Buffer made from a string, a default Buffer, a copy of a variable, or a moved variable (which
  keeps its offset and loses its storage), and discarding a prefix. The implicit assignment operators copy or
  move the two members; the \<^verbatim>\<open>shared_ptr\<close> that is overwritten is released.
\<close>

datatype buffer_op = Make nat bytes | Clear nat | Assign nat nat | Move nat nat | Discard nat nat

record buffer_state =
  vars :: "SharedBuffer list"
  heap :: store

fun shared_step :: "buffer_op \<Rightarrow> (buffer_state, unit) prog" where
  "shared_step (Make x str) s =
     (let (b, st) = SharedBuffer_of_string str (heap s) in
      (Inr (), \<lparr>vars = (vars s)[x := b], heap = release_shared (sb_storage (vars s ! x)) st\<rparr>))"
| "shared_step (Clear x) s =
     (Inr (), \<lparr>vars = (vars s)[x := SharedBuffer_default], heap = release_shared (sb_storage (vars s ! x)) (heap s)\<rparr>)"
| "shared_step (Assign x y) s =
     (Inr (), \<lparr>vars = (vars s)[x := vars s ! y],
        heap = release_shared (sb_storage (vars s ! x)) (acquire (sb_storage (vars s ! y)) (heap s))\<rparr>)"
| "shared_step (Move x y) s =
     (if x = y then (Inr (), s)
      else (Inr (), \<lparr>vars = (vars s)[x := vars s ! y, y := (vars s ! y)\<lparr>sb_storage := None\<rparr>],
              heap = release_shared (sb_storage (vars s ! x)) (heap s)\<rparr>))"
| "shared_step (Discard x n) s =
     (let (r, b, st) = SharedBuffer_remove_prefix n (vars s ! x) (heap s) in (r, \<lparr>vars = (vars s)[x := b], heap = st\<rparr>))"

text \<open>The same program over Buffers that hold their string by value.\<close>

fun value_step :: "buffer_op \<Rightarrow> (Buffer list, unit) prog" where
  "value_step (Make x str) bs = (Inr (), bs[x := Buffer_of_string str])"
| "value_step (Clear x) bs = (Inr (), bs[x := Buffer_default])"
| "value_step (Assign x y) bs = (Inr (), bs[x := bs ! y])"
| "value_step (Move x y) bs =
     (if x = y then (Inr (), bs) else (Inr (), bs[x := bs ! y, y := (bs ! y)\<lparr>storage := None\<rparr>]))"
| "value_step (Discard x n) bs = (let (r, b) = Buffer_remove_prefix n (bs ! x) in (r, bs[x := b]))"

fun op_vars :: "buffer_op \<Rightarrow> nat set" where
  "op_vars (Make x str) = {x}"
| "op_vars (Clear x) = {x}"
| "op_vars (Assign x y) = {x, y}"
| "op_vars (Move x y) = {x, y}"
| "op_vars (Discard x n) = {x}"

text \<open>The results of a program, each operation's, and its final state.\<close>

fun run_all :: "('op \<Rightarrow> ('s, unit) prog) \<Rightarrow> 'op list \<Rightarrow> 's \<Rightarrow> unit result list \<times> 's" where
  "run_all step [] s = ([], s)"
| "run_all step (op # ops) s = (let (r, t) = step op s; (rs, u) = run_all step ops t in (r # rs, u))"

definition init_buffers :: "nat \<Rightarrow> buffer_state" where
  "init_buffers n = \<lparr>vars = replicate n SharedBuffer_default, heap = \<lparr>cells = \<lambda>_. None, next_cell = 0\<rparr>\<rparr>"

subsection \<open>References and use counts\<close>

definition refs :: "SharedBuffer list \<Rightarrow> nat \<Rightarrow> nat" where
  "refs bs a = length (filter (\<lambda>b. sb_storage b = Some a) bs)"

text \<open>A string is in the store exactly while it is referred to, and its count is the number \<open>f\<close> of references.\<close>

fun cell_counts :: "nat \<Rightarrow> shared_string option \<Rightarrow> bool" where
  "cell_counts n None \<longleftrightarrow> n = 0"
| "cell_counts n (Some c) \<longleftrightarrow> 0 < n \<and> ss_uses c = n"

definition counts_are :: "(nat \<Rightarrow> nat) \<Rightarrow> store \<Rightarrow> bool" where
  "counts_are f st \<longleftrightarrow> (\<forall>a. cell_counts (f a) (cells st a)) \<and> (\<forall>a. next_cell st \<le> a \<longrightarrow> cells st a = None)"

lemma counts_areD: "counts_are f st \<Longrightarrow> cell_counts (f a) (cells st a)"
  by (simp add: counts_are_def)

definition one_more :: "nat option \<Rightarrow> (nat \<Rightarrow> nat) \<Rightarrow> nat \<Rightarrow> nat" where
  "one_more p f a = f a + (if p = Some a then 1 else 0)"

definition one_less :: "nat option \<Rightarrow> (nat \<Rightarrow> nat) \<Rightarrow> nat \<Rightarrow> nat" where
  "one_less p f a = f a - (if p = Some a then 1 else 0)"

lemma one_None [simp]: "one_more None f = f" "one_less None f = f"
  by (simp_all add: one_more_def one_less_def fun_eq_iff)

text \<open>Strings are never written, and their places are not used again.\<close>

definition strings_kept :: "store \<Rightarrow> store \<Rightarrow> bool" where
  "strings_kept st st' \<longleftrightarrow> next_cell st \<le> next_cell st' \<and>
     (\<forall>a c'. a < next_cell st \<longrightarrow> cells st' a = Some c' \<longrightarrow> (\<exists>c. cells st a = Some c \<and> ss_string c = ss_string c'))"

lemma strings_kept_refl: "strings_kept st st"
  by (simp add: strings_kept_def)

lemma strings_kept_cell:
  "strings_kept st st' \<Longrightarrow> a < next_cell st \<Longrightarrow> cells st' a = Some c' \<Longrightarrow> \<exists>c. cells st a = Some c \<and> ss_string c = ss_string c'"
  by (simp add: strings_kept_def)

lemma strings_kept_trans:
  assumes "strings_kept st st'" and "strings_kept st' st''"
  shows "strings_kept st st''"
proof -
  have le: "next_cell st \<le> next_cell st'" "next_cell st' \<le> next_cell st''" using assms by (simp_all add: strings_kept_def)
  have "\<exists>c. cells st a = Some c \<and> ss_string c = ss_string c''" if a: "a < next_cell st" and c: "cells st'' a = Some c''" for a c''
  proof -
    have "a < next_cell st'" using a le(1) by simp
    then obtain c' where "cells st' a = Some c'" "ss_string c' = ss_string c''"
      using strings_kept_cell [OF assms(2) _ c] by blast
    with strings_kept_cell [OF assms(1) a] show ?thesis by metis
  qed
  with le show ?thesis by (simp add: strings_kept_def)
qed

lemma counts_are_acquire:
  assumes "counts_are f st" and "\<And>a. p = Some a \<Longrightarrow> 0 < f a"
  shows "counts_are (one_more p f) (acquire p st)" and "strings_kept st (acquire p st)"
proof -
  have "cell_counts (one_more p f a) (cells (acquire p st) a)" for a
    using counts_areD [OF assms(1), of a] assms(2) [of a]
    by (cases p; cases "cells st a") (auto simp: acquire_def one_more_def)
  with assms(1) show "counts_are (one_more p f) (acquire p st)"
    by (auto simp: counts_are_def acquire_def split: option.split)
  show "strings_kept st (acquire p st)"
    by (auto simp: strings_kept_def acquire_def split: option.splits if_splits)
qed

lemma counts_are_release:
  assumes "counts_are f st"
  shows "counts_are (one_less p f) (release_shared p st)" and "strings_kept st (release_shared p st)"
proof -
  have "cell_counts (one_less p f a) (cells (release_shared p st) a)" for a
    using counts_areD [OF assms, of a]
    by (cases p; cases "cells st a") (auto simp: release_shared_def release_cell_def one_less_def)
  with assms show "counts_are (one_less p f) (release_shared p st)"
    by (auto simp: counts_are_def release_shared_def split: option.split)
  show "strings_kept st (release_shared p st)"
    by (auto simp: strings_kept_def release_shared_def release_cell_def bind_eq_Some_conv split: option.splits if_splits)
qed

lemma counts_are_make:
  assumes "counts_are f st" and "make_shared str st = (a, st')"
  shows "counts_are (one_more (Some a) f) st'" and "strings_kept st st'" and "cells st' a = Some \<lparr>ss_string = str, ss_uses = 1\<rparr>"
    and "0 < one_more (Some a) f a"
proof -
  have a: "a = next_cell st" "st' = st\<lparr>cells := (cells st)(a \<mapsto> \<lparr>ss_string = str, ss_uses = 1\<rparr>), next_cell := Suc a\<rparr>"
    using assms(2) by (auto simp: make_shared_def)
  have "cells st a = None" using assms(1) a(1) by (simp add: counts_are_def)
  then have "f a = 0" using counts_areD [OF assms(1), of a] by simp
  then have "cell_counts (one_more (Some a) f b) (cells st' b)" for b
    using counts_areD [OF assms(1), of b] by (simp add: one_more_def a(2))
  with assms(1) show "counts_are (one_more (Some a) f) st'"
    by (auto simp: counts_are_def a)
  show "strings_kept st st'" "cells st' a = Some \<lparr>ss_string = str, ss_uses = 1\<rparr>" "0 < one_more (Some a) f a"
    by (auto simp: strings_kept_def one_more_def a)
qed

lemma refs_update:
  assumes "x < length bs"
  shows "refs (bs[x := b]) = one_less (sb_storage (bs ! x)) (one_more (sb_storage b) (refs bs))"
proof
  fix a
  have "refs (bs[x := b]) a + (if sb_storage (bs ! x) = Some a then 1 else 0) = refs bs a + (if sb_storage b = Some a then 1 else 0)"
    unfolding refs_def by (subst (3) id_take_nth_drop [OF assms], subst upd_conv_take_nth_drop [OF assms]) simp
  then show "refs (bs[x := b]) a = one_less (sb_storage (bs ! x)) (one_more (sb_storage b) (refs bs)) a"
    by (simp add: one_less_def one_more_def split: if_splits)
qed

lemma refs_pos: "b \<in> set bs \<Longrightarrow> sb_storage b = Some a \<Longrightarrow> 0 < refs bs a"
  by (auto simp: refs_def filter_empty_conv)

subsection \<open>Refinement\<close>

definition value_of :: "store \<Rightarrow> SharedBuffer \<Rightarrow> Buffer" where
  "value_of st b =
     \<lparr>storage = Option.bind (sb_storage b) (\<lambda>a. map_option ss_string (cells st a)), starting_offset = sb_offset b\<rparr>"

lemma counted_cell:
  assumes "counts_are (refs bs) st" and "b \<in> set bs" and "sb_storage b = Some a"
  obtains c where "cells st a = Some c" "a < next_cell st"
proof -
  have "cells st a \<noteq> None"
    using counts_areD [OF assms(1), of a] refs_pos [OF assms(2,3)] by (cases "cells st a") auto
  moreover from this have "a < next_cell st" using assms(1) unfolding counts_are_def by (metis not_le)
  ultimately show thesis using that by blast
qed

lemma value_of_kept:
  assumes "counts_are (refs bs) st" and "b \<in> set bs" and "strings_kept st st'"
    and "\<And>a. sb_storage b = Some a \<Longrightarrow> cells st' a \<noteq> None"
  shows "value_of st' b = value_of st b"
proof (cases "sb_storage b")
  case (Some a)
  obtain c where c: "cells st a = Some c" "a < next_cell st" using assms(1,2) Some by (rule counted_cell)
  obtain c' where "cells st' a = Some c'" using assms(4) Some by blast
  with c Some assms(3) show ?thesis by (auto simp: value_of_def strings_kept_def)
qed (simp add: value_of_def)

text \<open>A variable overwritten: the others keep their values, provided the counts are right again.\<close>

lemma values_update:
  assumes "counts_are (refs bs) st" and "x < length bs" and "counts_are (refs (bs[x := b])) st'" and "strings_kept st st'"
  shows "map (value_of st') (bs[x := b]) = (map (value_of st) bs)[x := value_of st' b]"
proof (rule nth_equalityI, simp, simp only: length_map length_list_update)
  fix i assume i: "i < length bs"
  show "map (value_of st') (bs[x := b]) ! i = (map (value_of st) bs)[x := value_of st' b] ! i"
  proof (cases "i = x")
    case False
    have old: "bs ! i \<in> set bs" using i by simp
    have new: "bs ! i \<in> set (bs[x := b])" using i False by (metis length_list_update nth_list_update_neq nth_mem)
    have "value_of st' (bs ! i) = value_of st (bs ! i)"
      using value_of_kept [OF assms(1) old assms(4)] counted_cell [OF assms(3) new] by (metis option.distinct(1))
    with i False show ?thesis by simp
  qed (use i assms(2) in simp)
qed

lemma SharedBuffer_str_value:
  assumes "counts_are (refs bs) st" and "b \<in> set bs"
  shows "SharedBuffer_str st b = Inr (Buffer_str (value_of st b))"
proof (cases "sb_storage b")
  case (Some a)
  obtain c where "cells st a = Some c" using assms Some by (rule counted_cell)
  with Some show ?thesis by (simp add: SharedBuffer_str_def Buffer_str_def value_of_def)
qed (simp add: SharedBuffer_str_def Buffer_str_def value_of_def)

lemma remove_prefix_value:
  assumes c: "counts_are (refs bs) st" and x: "x < length bs" and run: "SharedBuffer_remove_prefix n (bs ! x) st = (r, b, st')"
  shows "Buffer_remove_prefix n (value_of st (bs ! x)) = (r, value_of st' b)"
    and "counts_are (refs (bs[x := b])) st'" and "strings_kept st st'"
proof -
  let ?b = "bs ! x" and ?str = "Buffer_str (value_of st (bs ! x))"
  have mem: "?b \<in> set bs" using x by simp
  note str = SharedBuffer_str_value [OF c mem]
  have same: "refs (bs[x := b']) = refs bs" if "sb_storage b' = sb_storage ?b" for b'
    unfolding refs_update [OF x] using that by (auto simp: one_less_def one_more_def fun_eq_iff)
  have gone: "refs (bs[x := b']) = one_less (sb_storage ?b) (refs bs)" if "sb_storage b' = None" for b'
    unfolding refs_update [OF x] using that by (simp add: one_more_def)
  show "Buffer_remove_prefix n (value_of st (bs ! x)) = (r, value_of st' b)"
    "counts_are (refs (bs[x := b])) st'" "strings_kept st st'"
  proof (atomize (full), cases "n > length ?str")
    case True
    then have "r = Inl (OutOfRange ''Buffer::remove_prefix'')" "b = ?b" "st' = st"
      using run by (simp_all add: SharedBuffer_remove_prefix_def str)
    with True c same [of ?b] show "Buffer_remove_prefix n (value_of st ?b) = (r, value_of st' b) \<and>
        counts_are (refs (bs[x := b])) st' \<and> strings_kept st st'"
      by (simp add: Buffer_remove_prefix_def strings_kept_refl)
  next
    case False
    let ?b1 = "?b\<lparr>sb_offset := sb_offset ?b + n\<rparr>"
    show "Buffer_remove_prefix n (value_of st ?b) = (r, value_of st' b) \<and>
        counts_are (refs (bs[x := b])) st' \<and> strings_kept st st'"
    proof (cases "sb_storage ?b")
      case None
      then have "r = Inr ()" "b = ?b1" "st' = st" using run False by (simp_all add: SharedBuffer_remove_prefix_def str)
      with False None c same [of ?b1] show ?thesis
        by (simp add: Buffer_remove_prefix_def value_of_def strings_kept_refl)
    next
      case (Some a)
      obtain d where d: "cells st a = Some d" using c mem Some by (rule counted_cell)
      show ?thesis
      proof (cases "length (ss_string d) = sb_offset ?b + n")
        case True
        then have "r = Inr ()" "b = ?b1\<lparr>sb_storage := None\<rparr>" "st' = release_shared (Some a) st"
          using run False Some d by (simp_all add: SharedBuffer_remove_prefix_def str)
        with True False Some d counts_are_release [OF c, of "Some a"] gone [of b] show ?thesis
          by (simp add: Buffer_remove_prefix_def value_of_def)
      next
        case False': False
        then have "r = Inr ()" "b = ?b1" "st' = st"
          using run False Some d by (simp_all add: SharedBuffer_remove_prefix_def str)
        with False' False Some d c same [of ?b1] show ?thesis
          by (simp add: Buffer_remove_prefix_def value_of_def strings_kept_refl)
      qed
    qed
  qed
qed

definition shared_ok :: "buffer_state \<Rightarrow> bool" where
  "shared_ok s \<longleftrightarrow> counts_are (refs (vars s)) (heap s)"

text \<open>Overwriting a variable with a Buffer whose reference is already counted.\<close>

lemma overwrite:
  assumes c: "counts_are (refs bs) st" and x: "x < length bs"
    and c': "counts_are (one_more (sb_storage b) (refs bs)) st1" and k: "strings_kept st st1"
  shows "counts_are (refs (bs[x := b])) (release_shared (sb_storage (bs ! x)) st1)"
    and "strings_kept st (release_shared (sb_storage (bs ! x)) st1)"
    and "map (value_of (release_shared (sb_storage (bs ! x)) st1)) (bs[x := b]) =
      (map (value_of st) bs)[x := value_of (release_shared (sb_storage (bs ! x)) st1) b]"
proof -
  note rel = counts_are_release [OF c', of "sb_storage (bs ! x)"]
  show cn: "counts_are (refs (bs[x := b])) (release_shared (sb_storage (bs ! x)) st1)"
    unfolding refs_update [OF x] by (rule rel(1))
  show kn: "strings_kept st (release_shared (sb_storage (bs ! x)) st1)" using k rel(2) by (rule strings_kept_trans)
  show "map (value_of (release_shared (sb_storage (bs ! x)) st1)) (bs[x := b]) =
      (map (value_of st) bs)[x := value_of (release_shared (sb_storage (bs ! x)) st1) b]"
    by (rule values_update [OF c x cn kn])
qed

lemma counted_value:
  assumes c: "counts_are (refs bs) st" and "y < length bs" and "strings_kept st st'"
    and c': "counts_are (refs bs') st'" and "bs ! y \<in> set bs'"
  shows "value_of st' (bs ! y) = value_of st (bs ! y)"
proof (rule value_of_kept [OF c])
  show "cells st' a \<noteq> None" if "sb_storage (bs ! y) = Some a" for a
    using c' assms(5) that by (rule counted_cell) simp
qed (use assms in simp_all)

text \<open>Every operation, on both sides.\<close>

definition refines :: "buffer_op \<Rightarrow> buffer_state \<Rightarrow> buffer_state \<Rightarrow> unit result \<Rightarrow> bool" where
  "refines op s t r \<longleftrightarrow> shared_ok t \<and> strings_kept (heap s) (heap t) \<and> length (vars t) = length (vars s) \<and>
     value_step op (map (value_of (heap s)) (vars s)) = (r, map (value_of (heap t)) (vars t))"

lemma refines_Make:
  assumes "shared_ok s" and x: "x < length (vars s)" and "shared_step (Make x str) s = (r, t)"
  shows "refines (Make x str) s t r"
proof -
  obtain a st where m: "make_shared str (heap s) = (a, st)" by (cases "make_shared str (heap s)")
  let ?b = "\<lparr>sb_storage = Some a, sb_offset = 0\<rparr>" and ?st = "release_shared (sb_storage (vars s ! x)) st"
  have c: "counts_are (refs (vars s)) (heap s)" using assms(1) by (simp add: shared_ok_def)
  note mk = counts_are_make [OF c m]
  have rt: "r = Inr ()" "t = \<lparr>vars = (vars s)[x := ?b], heap = ?st\<rparr>"
    using assms(3) m by (auto simp: SharedBuffer_of_string_def)
  have "counts_are (one_more (sb_storage ?b) (refs (vars s))) st" using mk(1) by simp
  note ow = overwrite [OF c x this mk(2)]
  have "?b \<in> set ((vars s)[x := ?b])" using x by (rule set_update_memI)
  with ow(1) obtain d where d: "cells ?st a = Some d" by (rule counted_cell) simp
  have "a < next_cell st" using m by (auto simp: make_shared_def)
  with d counts_are_release(2) [OF mk(1), of "sb_storage (vars s ! x)"] mk(3) have "ss_string d = str"
    by (auto simp: strings_kept_def)
  with d have "value_of ?st ?b = Buffer_of_string str" by (simp add: value_of_def Buffer_of_string_def)
  with ow rt show ?thesis by (simp add: refines_def shared_ok_def)
qed

lemma refines_Clear:
  assumes "shared_ok s" and x: "x < length (vars s)" and "shared_step (Clear x) s = (r, t)"
  shows "refines (Clear x) s t r"
proof -
  have c: "counts_are (refs (vars s)) (heap s)" using assms(1) by (simp add: shared_ok_def)
  have "counts_are (one_more (sb_storage SharedBuffer_default) (refs (vars s))) (heap s)"
    using c by (simp add: SharedBuffer_default_def)
  note ow = overwrite [OF c x this strings_kept_refl]
  have "value_of st SharedBuffer_default = Buffer_default" for st
    by (simp add: value_of_def SharedBuffer_default_def Buffer_default_def)
  with ow assms(3) show ?thesis by (auto simp: refines_def shared_ok_def)
qed

lemma refines_Assign:
  assumes "shared_ok s" and x: "x < length (vars s)" and y: "y < length (vars s)" and "shared_step (Assign x y) s = (r, t)"
  shows "refines (Assign x y) s t r"
proof -
  let ?b = "vars s ! y"
  have c: "counts_are (refs (vars s)) (heap s)" using assms(1) by (simp add: shared_ok_def)
  have "0 < refs (vars s) a" if "sb_storage ?b = Some a" for a using y that by (intro refs_pos) simp_all
  note ac = counts_are_acquire [OF c this]
  note ow = overwrite [OF c x ac]
  have "?b \<in> set ((vars s)[x := ?b])" using x by (rule set_update_memI)
  note val = counted_value [OF c y ow(2,1) this]
  from ow val y assms(4) show ?thesis by (auto simp: refines_def shared_ok_def)
qed

lemma refines_Move:
  assumes "shared_ok s" and x: "x < length (vars s)" and y: "y < length (vars s)" and step: "shared_step (Move x y) s = (r, t)"
  shows "refines (Move x y) s t r"
proof (cases "x = y")
  case True
  with assms show ?thesis by (auto simp: refines_def strings_kept_refl)
next
  case False
  let ?bs = "vars s" and ?b = "vars s ! y" and ?b' = "(vars s ! y)\<lparr>sb_storage := None\<rparr>"
  let ?new = "(vars s)[x := vars s ! y, y := (vars s ! y)\<lparr>sb_storage := None\<rparr>]" and ?st = "release_shared (sb_storage (vars s ! x)) (heap s)"
  have c: "counts_are (refs ?bs) (heap s)" using assms(1) by (simp add: shared_ok_def)
  have "refs ?new = one_less (sb_storage ?b) (one_less (sb_storage (?bs ! x)) (one_more (sb_storage ?b) (refs ?bs)))"
    using x y False refs_update [of y "?bs[x := ?b]" ?b'] refs_update [OF x, of ?b] by simp
  then have "refs ?new = one_less (sb_storage (?bs ! x)) (refs ?bs)"
    by (auto simp: one_less_def one_more_def fun_eq_iff)
  with counts_are_release [OF c, of "sb_storage (?bs ! x)"] have
    cn: "counts_are (refs ?new) ?st" and k: "strings_kept (heap s) ?st" by simp_all
  have val: "value_of ?st (?bs ! i) = value_of (heap s) (?bs ! i)" if "i < length ?bs" "?bs ! i \<in> set ?new" for i
    using c that(1) k cn that(2) by (rule counted_value)
  have "map (value_of ?st) ?new = (map (value_of (heap s)) ?bs)[x := map (value_of (heap s)) ?bs ! y,
      y := (map (value_of (heap s)) ?bs ! y)\<lparr>storage := None\<rparr>]"
  proof (rule nth_equalityI, simp, simp only: length_map length_list_update)
    fix i assume i: "i < length ?bs"
    have "value_of ?st (?bs ! i) = value_of (heap s) (?bs ! i)" if "i \<noteq> x" "i \<noteq> y"
      using i that by (intro val) (simp_all add: in_set_conv_nth, metis length_list_update nth_list_update_neq)
    moreover have "value_of ?st ?b = value_of (heap s) ?b"
      using x y False by (intro val) (simp_all add: in_set_conv_nth, metis length_list_update nth_list_update_eq nth_list_update_neq)
    moreover have "value_of ?st ?b' = (value_of (heap s) ?b)\<lparr>storage := None\<rparr>" by (simp add: value_of_def)
    ultimately show "map (value_of ?st) ?new ! i = (map (value_of (heap s)) ?bs)[x := map (value_of (heap s)) ?bs ! y,
        y := (map (value_of (heap s)) ?bs ! y)\<lparr>storage := None\<rparr>] ! i"
      using i x y False by (auto simp: nth_list_update)
  qed
  with cn k False step show ?thesis by (auto simp: refines_def shared_ok_def)
qed

lemma refines_Discard:
  assumes "shared_ok s" and x: "x < length (vars s)" and "shared_step (Discard x n) s = (r, t)"
  shows "refines (Discard x n) s t r"
proof -
  have c: "counts_are (refs (vars s)) (heap s)" using assms(1) by (simp add: shared_ok_def)
  obtain b st where run: "SharedBuffer_remove_prefix n (vars s ! x) (heap s) = (r, b, st)" "t = \<lparr>vars = (vars s)[x := b], heap = st\<rparr>"
    using assms(3) by (auto split: prod.splits)
  note rp = remove_prefix_value [OF c x run(1)]
  from values_update [OF c x rp(2,3)] rp x run(2) show ?thesis by (simp add: refines_def shared_ok_def)
qed

lemma step_refines:
  assumes "shared_ok s" and "op_vars op \<subseteq> {..<length (vars s)}" and "shared_step op s = (r, t)"
  shows "refines op s t r"
  using assms by (cases op) (auto intro: refines_Make refines_Clear refines_Assign refines_Move refines_Discard simp del: shared_step.simps)

lemma run_refines:
  assumes "shared_ok s" and "\<And>op. op \<in> set ops \<Longrightarrow> op_vars op \<subseteq> {..<length (vars s)}"
    and "run_all shared_step ops s = (rs, t)"
  shows "shared_ok t \<and> strings_kept (heap s) (heap t) \<and> length (vars t) = length (vars s) \<and>
    run_all value_step ops (map (value_of (heap s)) (vars s)) = (rs, map (value_of (heap t)) (vars t))"
  using assms
proof (induction ops arbitrary: s rs)
  case Nil
  then show ?case by (simp add: strings_kept_refl)
next
  case (Cons op ops)
  obtain r s1 where r: "shared_step op s = (r, s1)" by (cases "shared_step op s")
  obtain rs1 where rs1: "run_all shared_step ops s1 = (rs1, t)" "rs = r # rs1"
    using Cons.prems(3) r by (auto split: prod.splits)
  have "refines op s s1 r" using Cons.prems(1,2) r by (intro step_refines) simp_all
  then have s1: "shared_ok s1" "strings_kept (heap s) (heap s1)" "length (vars s1) = length (vars s)"
    "value_step op (map (value_of (heap s)) (vars s)) = (r, map (value_of (heap s1)) (vars s1))"
    by (simp_all add: refines_def)
  have "op_vars op' \<subseteq> {..<length (vars s1)}" if "op' \<in> set ops" for op' using Cons.prems(2) [of op'] that s1(3) by simp
  from Cons.IH [OF s1(1) this rs1(1)] s1 rs1(2) show ?case by (auto intro: strings_kept_trans)
qed

lemma init_ok: "shared_ok (init_buffers n)" "map (value_of (heap (init_buffers n))) (vars (init_buffers n)) = replicate n Buffer_default"
  by (simp_all add: shared_ok_def init_buffers_def counts_are_def refs_def SharedBuffer_default_def value_of_def Buffer_default_def)

lemma value_step_result: "fst (value_step op bs) \<in> {Inr (), Inl (OutOfRange ''Buffer::remove_prefix'')}"
  by (cases op) (auto simp: Buffer_remove_prefix_def Let_def split: option.split)

lemma run_all_results:
  assumes "\<And>op s. fst (step op s) \<in> R"
  shows "set (fst (run_all step ops s)) \<subseteq> R"
  using assms by (induction ops arbitrary: s) (auto simp: split_beta Let_def)

subsection \<open>Property\<close>

text \<open>
  C15: Buffers that share their storage behave as if each had a string of its own. For every program
  that makes, copies, moves, clears and discards from Buffer variables, the outcome of every operation and
  the value of every variable are those of the Buffers by value; no variable ever refers to
  storage that has been freed; and a string is in memory exactly as long as some Buffer still refers to it, that is,
  until it has been discarded in all copies, as the class promises.
\<close>

theorem shared_buffers_refine:
  assumes "\<And>op. op \<in> set ops \<Longrightarrow> op_vars op \<subseteq> {..<n}" and "run_all shared_step ops (init_buffers n) = (rs, s)"
  shows "run_all value_step ops (replicate n Buffer_default) = (rs, map (value_of (heap s)) (vars s)) \<and>
    set rs \<subseteq> {Inr (), Inl (OutOfRange ''Buffer::remove_prefix'')} \<and>
    (\<forall>b \<in> set (vars s). SharedBuffer_str (heap s) b = Inr (Buffer_str (value_of (heap s) b))) \<and>
    (\<forall>a. cells (heap s) a \<noteq> None \<longleftrightarrow> (\<exists>b \<in> set (vars s). sb_storage b = Some a))"
proof -
  have "length (vars (init_buffers n)) = n" by (simp add: init_buffers_def)
  with assms(1) have "op_vars op \<subseteq> {..<length (vars (init_buffers n))}" if "op \<in> set ops" for op using that by simp
  note run = run_refines [OF init_ok(1) this assms(2), unfolded init_ok(2)]
  then have vals: "run_all value_step ops (replicate n Buffer_default) = (rs, map (value_of (heap s)) (vars s))"
    and c: "counts_are (refs (vars s)) (heap s)" by (simp_all add: shared_ok_def)
  have "set rs \<subseteq> {Inr (), Inl (OutOfRange ''Buffer::remove_prefix'')}"
    using run_all_results [of value_step, OF value_step_result, where ops = ops and s = "replicate n Buffer_default"] vals by simp
  moreover have "cells (heap s) a \<noteq> None \<longleftrightarrow> (\<exists>b \<in> set (vars s). sb_storage b = Some a)" for a
  proof
    assume "cells (heap s) a \<noteq> None"
    then have "refs (vars s) a \<noteq> 0" using counts_areD [OF c, of a] by auto
    then show "\<exists>b \<in> set (vars s). sb_storage b = Some a" by (auto simp: refs_def filter_empty_conv)
  next
    assume "\<exists>b \<in> set (vars s). sb_storage b = Some a"
    then show "cells (heap s) a \<noteq> None" using counted_cell [OF c] by (metis option.distinct(1))
  qed
  ultimately show ?thesis using vals SharedBuffer_str_value [OF c] by blast
qed

theorem shared_buffers_refine_witness:
  "let ops = [Make 0 [1, 2, 3], Assign 1 0, Discard 0 2, Discard 0 5, Discard 1 3, Move 1 0, Discard 1 1];
       (rs, s) = run_all shared_step ops (init_buffers 2) in
   rs ! 3 = Inl (OutOfRange ''Buffer::remove_prefix'') \<and> cells (heap s) 0 = None \<and>
   run_all value_step ops (replicate 2 Buffer_default) = (rs, map (value_of (heap s)) (vars s))"
proof -
  let ?ops = "[Make 0 [1, 2, 3], Assign 1 0, Discard 0 2, Discard 0 5, Discard 1 3, Move 1 0, Discard 1 1]"
  obtain rs s where run: "run_all shared_step ?ops (init_buffers 2) = (rs, s)" by (cases "run_all shared_step ?ops (init_buffers 2)")
  have "op_vars op \<subseteq> {..<2}" if "op \<in> set ?ops" for op using that by auto
  note th = shared_buffers_refine [OF this run]
  have ev: "rs ! 3 = Inl (OutOfRange ''Buffer::remove_prefix'')" "map sb_storage (vars s) = [None, None]"
    using run
    by (auto simp: init_buffers_def SharedBuffer_default_def SharedBuffer_of_string_def make_shared_def acquire_def release_shared_def
        release_cell_def SharedBuffer_remove_prefix_def SharedBuffer_str_def Let_def numeral_2_eq_2)
  then have "sb_storage b \<noteq> Some 0" if "b \<in> set (vars s)" for b
    using that by (metis (mono_tags) empty_iff image_eqI insert_iff list.set(1,2) list.set_map option.distinct(1))
  with th have "cells (heap s) 0 = None" by blast
  with th ev(1) run show ?thesis by simp
qed

end
