(* ===== verification/Posix.thy ===== *)
theory Posix
  imports Buffer
begin

text \<open>
  The boundary to the kernel. The system calls are not code of the repository: they are the
  fields of a record \<open>posix\<close>, a parameter of every definition that makes a system call, and
  act on a world of arbitrary type. A call returns its C return value and the \<^verbatim>\<open>errno\<close> it
  leaves; a call that fills a caller's array takes the array and returns it as the kernel
  left it. \<^verbatim>\<open>SystemCall\<close> of \<^verbatim>\<open>util/util.cc\<close>, the error check around every call, and
  the exception classes of \<^verbatim>\<open>util/util.hh\<close> are modelled here.
\<close>

record sysret =
  sr_val :: int
  sr_errno :: int

record pollfd =
  pfd_fd :: int
  pfd_events :: uint16
  pfd_revents :: uint16

datatype fcntl_cmd = F_GETFL | F_SETFL int

record 'w posix =
  sys_close :: "int \<Rightarrow> 'w \<Rightarrow> sysret \<times> 'w"
  sys_read :: "int \<Rightarrow> bytes \<Rightarrow> 'w \<Rightarrow> (sysret \<times> bytes) \<times> 'w"
  sys_writev :: "int \<Rightarrow> iovec list \<Rightarrow> 'w \<Rightarrow> sysret \<times> 'w"
  sys_fcntl :: "int \<Rightarrow> fcntl_cmd \<Rightarrow> 'w \<Rightarrow> sysret \<times> 'w"
  sys_poll :: "pollfd list \<Rightarrow> int \<Rightarrow> 'w \<Rightarrow> (sysret \<times> pollfd list) \<times> 'w"
  sys_strerror :: "int \<Rightarrow> string"

text \<open>\<^verbatim>\<open>SystemCall(attempt, return_value, errno_mask)\<close>, with the value of \<^verbatim>\<open>errno\<close> as an argument.\<close>

definition SystemCall :: "string \<Rightarrow> int \<Rightarrow> int \<Rightarrow> int \<Rightarrow> int result" where
  "SystemCall attempt return_value errno errno_mask =
     (if return_value \<ge> 0 \<or> errno = errno_mask then Inr return_value
      else Inl (UnixError attempt errno))"

text \<open>
  The text of a \<^verbatim>\<open>tagged_error\<close> (and of its subclass \<^verbatim>\<open>unix_error\<close>), and \<^verbatim>\<open>what()\<close> of
  every exception of the model.
\<close>

definition tagged_error_what :: "string \<Rightarrow> string \<Rightarrow> string" where
  "tagged_error_what attempt message = attempt @ '': '' @ message"

definition exn_what :: "(int \<Rightarrow> string) \<Rightarrow> exn \<Rightarrow> string" where
  "exn_what strerror e =
     (case e of
        UnixError attempt err \<Rightarrow> tagged_error_what attempt (strerror err)
      | TaggedError message attempt _ \<Rightarrow> tagged_error_what attempt message
      | OutOfRange m \<Rightarrow> m
      | LengthError m \<Rightarrow> m
      | InvalidArgument m \<Rightarrow> m
      | RuntimeError m \<Rightarrow> m
      | UndefinedBehaviour m \<Rightarrow> m)"

lemma SystemCall_ok: "0 \<le> v \<Longrightarrow> SystemCall a v e m = Inr v"
  by (simp add: SystemCall_def)

lemma SystemCall_Inr: "SystemCall a v e m = Inr v' \<longleftrightarrow> v' = v \<and> (0 \<le> v \<or> e = m)"
  by (auto simp: SystemCall_def)

lemma SystemCall_Inl: "SystemCall a v e m = Inl x \<longleftrightarrow> x = UnixError a e \<and> v < 0 \<and> e \<noteq> m"
  by (auto simp: SystemCall_def)

end
