(* ===== verification/File_Descriptor.thy ===== *)
theory File_Descriptor
  imports Posix
begin

text \<open>
  \<^verbatim>\<open>util/file_descriptor.hh\<close> and \<^verbatim>\<open>util/file_descriptor.cc\<close>. A \<^verbatim>\<open>FileDescriptor\<close> is a
  \<^verbatim>\<open>shared_ptr\<close> to an \<^verbatim>\<open>FDWrapper\<close>. The wrappers live in a store of the process state,
  addressed by a handle, with the use count of their \<^verbatim>\<open>shared_ptr\<close>s: duplicating a
  FileDescriptor is one more use of the same wrapper, destroying one is one use less, and
  the wrapper's destructor runs when the count reaches zero. A member function is a
  computation on the process state; a use of a handle with no wrapper behind it is
  undefined behaviour.
\<close>

subsection \<open>State\<close>

type_synonym handle = nat

record FDWrapper =
  w_fd :: int
  w_eof :: bool
  w_closed :: bool
  w_read_count :: uint32
  w_write_count :: uint32

record 'w process =
  wrappers :: "handle \<Rightarrow> FDWrapper option"
  use_count :: "handle \<Rightarrow> nat"
  next_handle :: handle
  cerr :: string
  world :: 'w

definition init_process :: "'w \<Rightarrow> 'w process" where
  "init_process w = \<lparr>wrappers = (\<lambda>_. None), use_count = (\<lambda>_. 0), next_handle = 0, cerr = [], world = w\<rparr>"

definition syscall :: "('w \<Rightarrow> 'r \<times> 'w) \<Rightarrow> ('w process, 'r) prog" where
  "syscall f s = (let (r, w) = f (world s) in (Inr r, s\<lparr>world := w\<rparr>))"

definition get_wrapper :: "handle \<Rightarrow> ('w process, FDWrapper) prog" where
  "get_wrapper h s =
     (case wrappers s h of
        None \<Rightarrow> (Inl (UndefinedBehaviour ''FileDescriptor: null shared_ptr''), s)
      | Some w \<Rightarrow> (Inr w, s))"

definition put_wrapper :: "handle \<Rightarrow> FDWrapper \<Rightarrow> ('w process, unit) prog" where
  "put_wrapper h w = modify (\<lambda>s. s\<lparr>wrappers := (wrappers s)(h := Some w)\<rparr>)"

definition modify_wrapper :: "handle \<Rightarrow> (FDWrapper \<Rightarrow> FDWrapper) \<Rightarrow> ('w process, unit) prog" where
  "modify_wrapper h f = bnd (get_wrapper h) (\<lambda>w. put_wrapper h (f w))"

subsection \<open>FDWrapper\<close>

definition FDWrapper_init :: "int \<Rightarrow> FDWrapper result" where
  "FDWrapper_init fd =
     (if fd < 0 then Inl (RuntimeError (''invalid fd number:'' @ string_of_int fd))
      else Inr \<lparr>w_fd = fd, w_eof = False, w_closed = False, w_read_count = 0, w_write_count = 0\<rparr>)"

definition FDWrapper_close :: "('w, 'z) posix_scheme \<Rightarrow> handle \<Rightarrow> ('w process, unit) prog" where
  "FDWrapper_close P h =
     bnd (get_wrapper h) (\<lambda>w.
     bnd (syscall (sys_close P (w_fd w))) (\<lambda>r.
     bnd (lift_result (SystemCall ''close'' (sr_val r) (sr_errno r) 0)) (\<lambda>_.
     modify_wrapper h (\<lambda>w. w\<lparr>w_eof := True, w_closed := True\<rparr>))))"

definition FDWrapper_destructor :: "('w, 'z) posix_scheme \<Rightarrow> handle \<Rightarrow> ('w process, unit) prog" where
  "FDWrapper_destructor P h =
     try_catch
       (bnd (get_wrapper h) (\<lambda>w. if w_closed w then ret () else FDWrapper_close P h))
       (\<lambda>e. modify (\<lambda>s. s\<lparr>cerr := cerr s @ ''Exception destructing FDWrapper: '' @
                          exn_what (sys_strerror P) e @ ''\<newline>''\<rparr>))"

subsection \<open>FileDescriptor\<close>

definition FileDescriptor_new :: "int \<Rightarrow> ('w process, handle) prog" where
  "FileDescriptor_new fd =
     bnd (lift_result (FDWrapper_init fd)) (\<lambda>w.
     bnd (gets next_handle) (\<lambda>h.
     bnd (modify (\<lambda>s. s\<lparr>wrappers := (wrappers s)(h := Some w),
                        use_count := (use_count s)(h := 1),
                        next_handle := Suc h\<rparr>)) (\<lambda>_.
     ret h)))"

definition FileDescriptor_duplicate :: "handle \<Rightarrow> ('w process, handle) prog" where
  "FileDescriptor_duplicate h =
     bnd (get_wrapper h) (\<lambda>_.
     bnd (modify (\<lambda>s. s\<lparr>use_count := (use_count s)(h := Suc (use_count s h))\<rparr>)) (\<lambda>_.
     ret h))"

text \<open>\<^verbatim>\<open>~FileDescriptor() = default\<close>: the \<^verbatim>\<open>shared_ptr\<close> gives up its use of the wrapper.\<close>

definition FileDescriptor_destructor :: "('w, 'z) posix_scheme \<Rightarrow> handle \<Rightarrow> ('w process, unit) prog" where
  "FileDescriptor_destructor P h =
     bnd (get_wrapper h) (\<lambda>_.
     bnd (gets (\<lambda>s. use_count s h)) (\<lambda>n.
     if n > 1 then modify (\<lambda>s. s\<lparr>use_count := (use_count s)(h := n - 1)\<rparr>)
     else
       bnd (FDWrapper_destructor P h) (\<lambda>_.
       modify (\<lambda>s. s\<lparr>use_count := (use_count s)(h := 0), wrappers := (wrappers s)(h := None)\<rparr>))))"

definition FileDescriptor_register_read :: "handle \<Rightarrow> ('w process, unit) prog" where
  "FileDescriptor_register_read h = modify_wrapper h (\<lambda>w. w\<lparr>w_read_count := w_read_count w + 1\<rparr>)"

definition FileDescriptor_register_write :: "handle \<Rightarrow> ('w process, unit) prog" where
  "FileDescriptor_register_write h = modify_wrapper h (\<lambda>w. w\<lparr>w_write_count := w_write_count w + 1\<rparr>)"

definition FileDescriptor_fd_num :: "handle \<Rightarrow> ('w process, int) prog" where
  "FileDescriptor_fd_num h = bnd (get_wrapper h) (\<lambda>w. ret (w_fd w))"

definition FileDescriptor_eof :: "handle \<Rightarrow> ('w process, bool) prog" where
  "FileDescriptor_eof h = bnd (get_wrapper h) (\<lambda>w. ret (w_eof w))"

definition FileDescriptor_closed :: "handle \<Rightarrow> ('w process, bool) prog" where
  "FileDescriptor_closed h = bnd (get_wrapper h) (\<lambda>w. ret (w_closed w))"

definition FileDescriptor_read_count :: "handle \<Rightarrow> ('w process, uint32) prog" where
  "FileDescriptor_read_count h = bnd (get_wrapper h) (\<lambda>w. ret (w_read_count w))"

definition FileDescriptor_write_count :: "handle \<Rightarrow> ('w process, uint32) prog" where
  "FileDescriptor_write_count h = bnd (get_wrapper h) (\<lambda>w. ret (w_write_count w))"

definition FileDescriptor_close :: "('w, 'z) posix_scheme \<Rightarrow> handle \<Rightarrow> ('w process, unit) prog" where
  "FileDescriptor_close P h = FDWrapper_close P h"

definition BUFFER_SIZE :: nat where
  "BUFFER_SIZE = 1024 * 1024"

text \<open>
  \<^verbatim>\<open>read(str, limit)\<close>. The string is a variable of the caller, which also an exception leaves resized. \<^verbatim>\<open>SystemCall\<close>
  takes the \<^verbatim>\<open>ssize_t\<close> of the call as an \<^verbatim>\<open>int\<close>.
\<close>

definition FileDescriptor_read_into ::
  "('w, 'z) posix_scheme \<Rightarrow> handle \<Rightarrow> nat \<Rightarrow> ('w process \<times> bytes, unit) prog" where
  "FileDescriptor_read_into P h limit =
     (let size_to_read = min BUFFER_SIZE limit in
      bnd (resize_var size_to_read) (\<lambda>_.
      bnd (with_var (FileDescriptor_fd_num h)) (\<lambda>fd.
      bnd (gets snd) (\<lambda>str.
      bnd (with_var (syscall (sys_read P fd str))) (\<lambda>(r, str).
      bnd (put_var str) (\<lambda>_.
      bnd (lift_result (SystemCall ''read'' (narrow_int (sr_val r)) (sr_errno r) 0)) (\<lambda>bytes_read.
      bnd (with_var (if limit > 0 \<and> bytes_read = 0 then modify_wrapper h (\<lambda>w. w\<lparr>w_eof := True\<rparr>) else ret ())) (\<lambda>_.
      if bytes_read > int size_to_read then throw (RuntimeError ''read() read more than requested'')
      else
        bnd (resize_var (size_of_ssize bytes_read)) (\<lambda>_.
        with_var (FileDescriptor_register_read h))))))))))"

definition FileDescriptor_read :: "('w, 'z) posix_scheme \<Rightarrow> handle \<Rightarrow> nat \<Rightarrow> ('w process, bytes) prog" where
  "FileDescriptor_read P h limit = local_var [] (FileDescriptor_read_into P h limit)"

text \<open>\<^verbatim>\<open>read(str, limit)\<close> for a caller who does not catch the exception.\<close>

lemma read_into_local:
  "local_var str (FileDescriptor_read_into P h limit) =
     (let size_to_read = min BUFFER_SIZE limit in
      bnd (lift_result (string_resize size_to_read str)) (\<lambda>str.
      bnd (FileDescriptor_fd_num h) (\<lambda>fd.
      bnd (syscall (sys_read P fd str)) (\<lambda>(r, str).
      bnd (lift_result (SystemCall ''read'' (narrow_int (sr_val r)) (sr_errno r) 0)) (\<lambda>bytes_read.
      bnd (if limit > 0 \<and> bytes_read = 0 then modify_wrapper h (\<lambda>w. w\<lparr>w_eof := True\<rparr>) else ret ()) (\<lambda>_.
      if bytes_read > int size_to_read then throw (RuntimeError ''read() read more than requested'')
      else
        bnd (lift_result (string_resize (size_of_ssize bytes_read) str)) (\<lambda>str.
        bnd (FileDescriptor_register_read h) (\<lambda>_.
        ret str))))))))"
proof -
  have pair: "local_var v (case x of (r, str) \<Rightarrow> f r str) = (case x of (r, str) \<Rightarrow> local_var v (f r str))"
    for v and x :: "sysret \<times> bytes" and f :: "sysret \<Rightarrow> bytes \<Rightarrow> ('a process \<times> bytes, unit) prog"
    by (cases x) simp
  show ?thesis
    unfolding FileDescriptor_read_into_def Let_def by (simp only: local_var_resize local_var_simps pair)
qed

lemma local_read_into:
  "fst (FileDescriptor_read_into P h limit (s, str)) = Inl e \<longleftrightarrow> fst (local_var str (FileDescriptor_read_into P h limit) s) = Inl e"
  "fst (snd (FileDescriptor_read_into P h limit (s, str))) = snd (local_var str (FileDescriptor_read_into P h limit) s)"
  by (auto simp: local_var_def split: prod.split sum.split)

text \<open>The default \<^verbatim>\<open>limit\<close> of \<^verbatim>\<open>read\<close>, \<^verbatim>\<open>numeric_limits<size_t>::max()\<close>.\<close>

definition default_limit :: nat where
  "default_limit = 2 ^ 64 - 1"

text \<open>One iteration of the \<^verbatim>\<open>do ... while\<close> loop of \<^verbatim>\<open>write\<close>: the bytes written and the rest.\<close>

definition write_once ::
  "('w, 'z) posix_scheme \<Rightarrow> handle \<Rightarrow> BufferViewList \<Rightarrow> ('w process, int \<times> BufferViewList) prog" where
  "write_once P h buffer =
     (let iovecs = BufferViewList_as_iovecs buffer in
      bnd (FileDescriptor_fd_num h) (\<lambda>fd.
      bnd (syscall (sys_writev P fd iovecs)) (\<lambda>r.
      bnd (lift_result (SystemCall ''writev'' (narrow_int (sr_val r)) (sr_errno r) 0)) (\<lambda>bytes_written.
      if bytes_written = 0 \<and> BufferViewList_size buffer \<noteq> 0
      then throw (RuntimeError ''write returned 0 given non-empty input buffer'')
      else if bytes_written > int (BufferViewList_size buffer)
      then throw (RuntimeError ''write wrote more than length of input buffer'')
      else
        bnd (FileDescriptor_register_write h) (\<lambda>_.
        case BufferViewList_remove_prefix (size_of_ssize bytes_written) buffer of
          (Inl e, _) \<Rightarrow> throw e
        | (Inr _, buffer') \<Rightarrow> ret (bytes_written, buffer'))))))"

text \<open>
  The loop stops whatever the kernel answers: an iteration that returns has taken bytes off
  the buffer, or the buffer was empty.
\<close>

lemma size_of_ssize_pos: "- (2 ^ 31) \<le> i \<Longrightarrow> i < 2 ^ 31 \<Longrightarrow> i \<noteq> 0 \<Longrightarrow> size_of_ssize i > 0"
  using size_of_ssize_neg [of i] by (cases "i < 0") (auto simp: size_of_ssize_nonneg)

lemma write_once_Inr:
  assumes "write_once P h buffer s = (Inr (n, buffer'), s')"
  shows "BufferViewList_remove_prefix (size_of_ssize n) buffer = (Inr (), buffer')"
    and "n = 0 \<Longrightarrow> BufferViewList_size buffer = 0"
    and "n \<le> int (BufferViewList_size buffer)"
    and "- (2 ^ 31) \<le> n" and "n < 2 ^ 31"
proof -
  from assms obtain v e where v: "SystemCall ''writev'' (narrow_int v) e 0 = Inr n"
    and c: "\<not> (n = 0 \<and> BufferViewList_size buffer \<noteq> 0)" "\<not> n > int (BufferViewList_size buffer)"
    and r: "BufferViewList_remove_prefix (size_of_ssize n) buffer = (Inr (), buffer')"
    by (auto simp: write_once_def Let_def bnd_eq_Inr lift_result_def throw_def ret_def
        split: if_splits prod.splits sum.splits)
  from v have "n = narrow_int v" by (simp add: SystemCall_Inr)
  with c r show "BufferViewList_remove_prefix (size_of_ssize n) buffer = (Inr (), buffer')"
    "n = 0 \<Longrightarrow> BufferViewList_size buffer = 0" "n \<le> int (BufferViewList_size buffer)"
    "- (2 ^ 31) \<le> n" "n < 2 ^ 31"
    using narrow_int_range [of v] by auto
qed

lemma write_once_shrinks:
  assumes "write_once P h buffer s = (Inr (n, buffer'), s')" and "BufferViewList_size buffer' \<noteq> 0"
  shows "BufferViewList_size buffer' < BufferViewList_size buffer"
proof -
  note w = write_once_Inr [OF assms(1)]
  from vlist.discard_Inr(4) [OF TrueI w(1)]
  have eq: "BufferViewList_size buffer' = BufferViewList_size buffer - size_of_ssize n" .
  with assms(2) w(2) have "n \<noteq> 0" by auto
  with w(4,5) have "size_of_ssize n > 0" by (rule size_of_ssize_pos)
  with eq assms(2) show ?thesis by simp
qed

function write_loop ::
  "('w, 'z) posix_scheme \<Rightarrow> handle \<Rightarrow> bool \<Rightarrow> BufferViewList \<Rightarrow> nat \<Rightarrow> 'w process \<Rightarrow> nat result \<times> 'w process" where
  "write_loop P h write_all buffer written s =
     (case write_once P h buffer s of
        (Inl e, s') \<Rightarrow> (Inl e, s')
      | (Inr (bytes_written, buffer'), s') \<Rightarrow>
          (let written' = written + size_of_ssize bytes_written in
           if write_all \<and> BufferViewList_size buffer' \<noteq> 0
           then write_loop P h write_all buffer' written' s'
           else (Inr written', s')))"
  by pat_completeness auto
termination
  by (relation "measure (\<lambda>(P, h, write_all, buffer, written, s). BufferViewList_size buffer)")
    (auto intro: write_once_shrinks [OF sym])

declare write_loop.simps [simp del]

definition FileDescriptor_write ::
  "('w, 'z) posix_scheme \<Rightarrow> handle \<Rightarrow> BufferViewList \<Rightarrow> bool \<Rightarrow> ('w process, nat) prog" where
  "FileDescriptor_write P h buffer write_all = write_loop P h write_all buffer 0"

definition FileDescriptor_write_string ::
  "('w, 'z) posix_scheme \<Rightarrow> handle \<Rightarrow> bytes \<Rightarrow> bool \<Rightarrow> ('w process, nat) prog" where
  "FileDescriptor_write_string P h str write_all =
     FileDescriptor_write P h (BufferViewList_of_string str) write_all"

definition O_NONBLOCK :: int where
  "O_NONBLOCK = 0x800"

definition blocking_flags :: "bool \<Rightarrow> int \<Rightarrow> int" where
  "blocking_flags blocking_state flags =
     (if blocking_state then flags XOR (flags AND O_NONBLOCK) else flags OR O_NONBLOCK)"

definition FileDescriptor_set_blocking ::
  "('w, 'z) posix_scheme \<Rightarrow> handle \<Rightarrow> bool \<Rightarrow> ('w process, unit) prog" where
  "FileDescriptor_set_blocking P h blocking_state =
     bnd (FileDescriptor_fd_num h) (\<lambda>fd.
     bnd (syscall (sys_fcntl P fd F_GETFL)) (\<lambda>r.
     bnd (lift_result (SystemCall ''fcntl'' (sr_val r) (sr_errno r) 0)) (\<lambda>flags.
     bnd (FileDescriptor_fd_num h) (\<lambda>fd.
     bnd (syscall (sys_fcntl P fd (F_SETFL (blocking_flags blocking_state flags)))) (\<lambda>r.
     bnd (lift_result (SystemCall ''fcntl'' (sr_val r) (sr_errno r) 0)) (\<lambda>_.
     ret ()))))))"

subsection \<open>Well-formed process states\<close>

definition wrapper_inv :: "FDWrapper \<Rightarrow> bool" where
  "wrapper_inv w \<longleftrightarrow> 0 \<le> w_fd w \<and> (w_closed w \<longrightarrow> w_eof w)"

text \<open>A slot of the store: no wrapper and no use, or a wrapper that is in use and was allocated.\<close>

fun slot_inv :: "FDWrapper option \<Rightarrow> nat \<Rightarrow> bool \<Rightarrow> bool" where
  "slot_inv None n allocated \<longleftrightarrow> n = 0"
| "slot_inv (Some w) n allocated \<longleftrightarrow> 0 < n \<and> allocated \<and> wrapper_inv w"

definition process_inv :: "'w process \<Rightarrow> bool" where
  "process_inv s \<longleftrightarrow> (\<forall>h. slot_inv (wrappers s h) (use_count s h) (h < next_handle s))"

text \<open>
  What an operation on a handle must leave alone: every other wrapper, every use count, the
  supply of handles.
\<close>

definition rest_is :: "handle \<Rightarrow> 'w process \<Rightarrow> 'w process \<Rightarrow> bool" where
  "rest_is h s t \<longleftrightarrow>
     (\<forall>h'. h' \<noteq> h \<longrightarrow> wrappers t h' = wrappers s h') \<and>
     (wrappers t h = None) = (wrappers s h = None) \<and>
     use_count t = use_count s \<and> next_handle t = next_handle s"

lemma process_inv_None: "process_inv s \<Longrightarrow> wrappers s h = None \<longleftrightarrow> use_count s h = 0"
  by (cases "wrappers s h") (auto simp: process_inv_def dest: spec [of _ h])

lemma process_inv_Some:
  "process_inv s \<Longrightarrow> wrappers s h = Some w \<Longrightarrow> 0 < use_count s h \<and> h < next_handle s \<and> wrapper_inv w"
  by (auto simp: process_inv_def dest: spec [of _ h])

lemma process_inv_update:
  assumes "process_inv s" and "wrappers s h = Some w" and "wrapper_inv w'"
  shows "process_inv (s\<lparr>wrappers := (wrappers s)(h := Some w')\<rparr>)"
  using assms process_inv_Some [OF assms(1,2)] by (auto simp: process_inv_def)

lemma live_handle:
  assumes "process_inv s" and "0 < use_count s h"
  obtains w where "wrappers s h = Some w" "wrapper_inv w"
  using assms process_inv_None [OF assms(1), of h] process_inv_Some [OF assms(1), of h]
  by (cases "wrappers s h") auto

lemma get_wrapper_Some: "wrappers s h = Some w \<Longrightarrow> get_wrapper h s = (Inr w, s)"
  by (simp add: get_wrapper_def)

lemma modify_wrapper_Some:
  "wrappers s h = Some w \<Longrightarrow> modify_wrapper h f s = (Inr (), s\<lparr>wrappers := (wrappers s)(h := Some (f w))\<rparr>)"
  by (simp add: modify_wrapper_def bnd_Inr get_wrapper_Some put_wrapper_def modify_def)

lemma syscall_eq: "f (world s) = (r, w) \<Longrightarrow> syscall f s = (Inr r, s\<lparr>world := w\<rparr>)"
  by (simp add: syscall_def)

text \<open>
  The contract of a member function that works through one handle: it keeps the process
  well-formed and leaves the rest of the process alone, whether it returns or throws.
\<close>

locale fd_operation =
  fixes oper :: "handle \<Rightarrow> ('w process, 'a) prog"
  assumes oper_inv: "keeps process_inv (oper h)"
    and oper_rest: "keeps (rest_is h s) (oper h)"
begin

lemma oper_result:
  assumes "process_inv s" and "oper h s = (r, t)"
  shows "process_inv t" and "rest_is h s t"
proof -
  from oper_inv assms show "process_inv t" by (rule keepsD')
  have "rest_is h s s" by (simp add: rest_is_def)
  with oper_rest show "rest_is h s t" using assms(2) by (rule keepsD')
qed

lemma oper_other: "process_inv s \<Longrightarrow> oper h s = (r, t) \<Longrightarrow> h' \<noteq> h \<Longrightarrow> wrappers t h' = wrappers s h'"
  using oper_result(2) by (auto simp: rest_is_def)

lemma oper_live: "process_inv s \<Longrightarrow> oper h s = (r, t) \<Longrightarrow> use_count t = use_count s"
  using oper_result(2) by (auto simp: rest_is_def)

end

named_theorems fd_keeps

lemma keeps_syscall_inv [fd_keeps]: "keeps process_inv (syscall f)"
  by (rule keepsI) (simp add: syscall_def process_inv_def split_beta Let_def)

lemma keeps_get_wrapper [fd_keeps]: "keeps I (get_wrapper h)"
  by (rule keepsI) (simp add: get_wrapper_def split: option.split)

lemma keeps_modify_wrapper_inv:
  assumes "\<And>w. wrapper_inv w \<Longrightarrow> wrapper_inv (f w)"
  shows "keeps process_inv (modify_wrapper h f)"
proof (rule keepsI)
  fix s :: "'a process" assume inv: "process_inv s"
  show "process_inv (snd (modify_wrapper h f s))"
  proof (cases "wrappers s h")
    case None
    with inv show ?thesis by (simp add: modify_wrapper_def get_wrapper_def bnd_def)
  next
    case (Some w)
    with inv assms process_inv_Some [OF inv Some] show ?thesis
      by (simp add: modify_wrapper_Some process_inv_update)
  qed
qed

lemma keeps_syscall_rest [fd_keeps]: "keeps (rest_is h s) (syscall f)"
  by (rule keepsI) (simp add: syscall_def rest_is_def split_beta Let_def)

lemma keeps_modify_wrapper_rest [fd_keeps]: "keeps (rest_is h s) (modify_wrapper h f)"
  by (rule keepsI)
    (auto simp: modify_wrapper_def bnd_def get_wrapper_def put_wrapper_def modify_def rest_is_def
      split: option.split)

lemma keeps_eof_inv [fd_keeps]: "keeps process_inv (modify_wrapper h (\<lambda>w. w\<lparr>w_eof := True\<rparr>))"
  by (rule keeps_modify_wrapper_inv) (simp add: wrapper_inv_def)

lemma keeps_closed_inv [fd_keeps]:
  "keeps process_inv (modify_wrapper h (\<lambda>w. w\<lparr>w_eof := True, w_closed := True\<rparr>))"
  by (rule keeps_modify_wrapper_inv) (simp add: wrapper_inv_def)

lemma keeps_register_inv [fd_keeps]:
  "keeps process_inv (FileDescriptor_register_read h)"
  "keeps process_inv (FileDescriptor_register_write h)"
  unfolding FileDescriptor_register_read_def FileDescriptor_register_write_def
  by (rule keeps_modify_wrapper_inv, simp add: wrapper_inv_def)+

lemma keeps_register_rest [fd_keeps]:
  "keeps (rest_is h s) (FileDescriptor_register_read h)"
  "keeps (rest_is h s) (FileDescriptor_register_write h)"
  unfolding FileDescriptor_register_read_def FileDescriptor_register_write_def
  by (rule keeps_modify_wrapper_rest)+

lemma keeps_fd_num [fd_keeps]: "keeps I (FileDescriptor_fd_num h)"
  unfolding FileDescriptor_fd_num_def by (intro keeps_intros fd_keeps)

interpretation fd_close: fd_operation "FileDescriptor_close P" for P
  unfolding FileDescriptor_close_def FDWrapper_close_def
  by unfold_locales (intro keeps_intros fd_keeps)+

interpretation fd_set_blocking: fd_operation "\<lambda>h. FileDescriptor_set_blocking P h b" for P b
  unfolding FileDescriptor_set_blocking_def
  by unfold_locales (intro keeps_intros fd_keeps)+

interpretation fd_read: fd_operation "\<lambda>h. local_var str (FileDescriptor_read_into P h limit)" for P str limit
  unfolding read_into_local Let_def
  by unfold_locales (intro keeps_intros fd_keeps)+

lemma keeps_write_once:
  "keeps process_inv (write_once P h buffer)" "keeps (rest_is h s) (write_once P h buffer)"
  unfolding write_once_def Let_def by (intro keeps_intros fd_keeps)+

text \<open>Induction over the iterations of the loop, for a fixed kernel and handle.\<close>

lemma write_loop_induct [case_names step]:
  assumes "\<And>buffer written s.
      (\<And>n buffer' t. write_once P h buffer s = (Inr (n, buffer'), t) \<Longrightarrow>
         BufferViewList_size buffer' \<noteq> 0 \<Longrightarrow> Q buffer' (written + size_of_ssize n) t) \<Longrightarrow>
      Q buffer written s"
  shows "Q buffer written s"
proof (induction "BufferViewList_size buffer" arbitrary: buffer written s rule: less_induct)
  case less
  show ?case by (rule assms, rule less) (auto intro: write_once_shrinks)
qed

lemma write_loop_Inl:
  "write_once P h buffer s = (Inl e, t) \<Longrightarrow> write_loop P h write_all buffer written s = (Inl e, t)"
  by (simp add: write_loop.simps)

lemma write_loop_last:
  "write_once P h buffer s = (Inr (n, buffer'), t) \<Longrightarrow> \<not> (write_all \<and> BufferViewList_size buffer' \<noteq> 0) \<Longrightarrow>
     write_loop P h write_all buffer written s = (Inr (written + size_of_ssize n), t)"
  by (auto simp: write_loop.simps [of P h write_all buffer])

lemma write_loop_more:
  "write_once P h buffer s = (Inr (n, buffer'), t) \<Longrightarrow> BufferViewList_size buffer' \<noteq> 0 \<Longrightarrow>
     write_loop P h True buffer written s = write_loop P h True buffer' (written + size_of_ssize n) t"
  by (simp add: write_loop.simps [of P h True buffer])

text \<open>Three ways an iteration can end.\<close>

lemma write_once_cases:
  obtains (throws) e t where "write_once P h buffer s = (Inl e, t)"
  | (stops) n buffer' t where "write_once P h buffer s = (Inr (n, buffer'), t)"
      "\<not> (write_all \<and> BufferViewList_size buffer' \<noteq> 0)"
  | (goes_on) n buffer' t where "write_once P h buffer s = (Inr (n, buffer'), t)" "write_all"
      "BufferViewList_size buffer' \<noteq> 0"
proof -
  obtain r t where "write_once P h buffer s = (r, t)" by (cases "write_once P h buffer s")
  then show thesis using throws stops goes_on by (cases r) auto
qed

lemma keeps_write_loop:
  assumes "\<And>buffer. keeps I (write_once P h buffer)" and "I s"
  shows "I (snd (write_loop P h write_all buffer written s))"
  using assms(2)
proof (induction buffer written s rule: write_loop_induct [of P h])
  case (step buffer written s)
  note I = keepsD' [OF assms(1) step.prems]
  show ?case
  proof (cases rule: write_once_cases [where P = P and h = h and buffer = buffer and s = s and write_all = write_all])
    case throws
    then show ?thesis by (simp add: write_loop_Inl I)
  next
    case stops
    then show ?thesis by (simp add: write_loop_last I)
  next
    case goes_on
    with step.IH [OF goes_on(1,3) I [OF goes_on(1)]] show ?thesis by (simp add: write_loop_more)
  qed
qed

interpretation fd_write: fd_operation "\<lambda>h. FileDescriptor_write P h buffer write_all" for P buffer write_all
  unfolding FileDescriptor_write_def
  by unfold_locales (auto intro!: keepsI keeps_write_loop keeps_write_once)

subsection \<open>Creating, sharing and destroying descriptors\<close>

lemma keeps_new: "keeps process_inv (FileDescriptor_new fd)"
proof (rule keepsI)
  fix s :: "'a process" assume inv: "process_inv s"
  show "process_inv (snd (FileDescriptor_new fd s))"
    using inv process_inv_Some [OF inv]
    by (auto simp: FileDescriptor_new_def FDWrapper_init_def prog_defs process_inv_def wrapper_inv_def
        less_Suc_eq)
qed

lemma keeps_duplicate: "keeps process_inv (FileDescriptor_duplicate h)"
proof (rule keepsI)
  fix s :: "'a process" assume inv: "process_inv s"
  show "process_inv (snd (FileDescriptor_duplicate h s))"
  proof (cases "wrappers s h")
    case None
    with inv show ?thesis by (simp add: FileDescriptor_duplicate_def get_wrapper_def bnd_def)
  next
    case (Some w)
    with inv process_inv_Some [OF inv Some] show ?thesis
      by (simp add: FileDescriptor_duplicate_def get_wrapper_def prog_defs process_inv_def)
  qed
qed

text \<open>What the wrapper's destructor leaves: it never throws, and touches its own wrapper only.\<close>

lemma FDWrapper_close_keeps [fd_keeps]:
  "keeps process_inv (FDWrapper_close P h)" "keeps (rest_is h s) (FDWrapper_close P h)"
  using fd_close.oper_inv [of P h] fd_close.oper_rest [of h s P]
  by (simp_all add: FileDescriptor_close_def)

lemma FDWrapper_destructor_ret: "fst (FDWrapper_destructor P h s) = Inr ()"
  by (simp add: FDWrapper_destructor_def try_catch_def modify_def split: prod.split sum.split)

lemma FDWrapper_destructor_rest: "rest_is h s (snd (FDWrapper_destructor P h s))"
proof -
  have "keeps (rest_is h s) (FDWrapper_destructor P h)"
    unfolding FDWrapper_destructor_def
    by (intro keeps_intros fd_keeps keeps_modify) (simp add: rest_is_def)
  then show ?thesis by (rule keepsD) (simp add: rest_is_def)
qed

lemma FDWrapper_destructor_inv: "keeps process_inv (FDWrapper_destructor P h)"
  unfolding FDWrapper_destructor_def
  by (intro keeps_intros fd_keeps keeps_modify) (simp add: process_inv_def)

lemma destructor_shared:
  "wrappers s h = Some w \<Longrightarrow> 1 < use_count s h \<Longrightarrow>
     FileDescriptor_destructor P h s = (Inr (), s\<lparr>use_count := (use_count s)(h := use_count s h - 1)\<rparr>)"
  by (simp add: FileDescriptor_destructor_def get_wrapper_Some bnd_Inr gets_def modify_def)

lemma destructor_last:
  assumes "wrappers s h = Some w" and "use_count s h \<le> 1" and "FDWrapper_destructor P h s = (r, t)"
  shows "FileDescriptor_destructor P h s =
           (Inr (), t\<lparr>use_count := (use_count t)(h := 0), wrappers := (wrappers t)(h := None)\<rparr>)"
proof -
  from assms(3) FDWrapper_destructor_ret [of P h s] have "FDWrapper_destructor P h s = (Inr (), t)" by simp
  with assms(1,2) show ?thesis
    by (simp add: FileDescriptor_destructor_def get_wrapper_Some bnd_Inr gets_def modify_def)
qed

lemma keeps_destructor: "keeps process_inv (FileDescriptor_destructor P h)"
proof (rule keepsI)
  fix s :: "'a process" assume inv: "process_inv s"
  obtain r t where d: "FDWrapper_destructor P h s = (r, t)" by (cases "FDWrapper_destructor P h s")
  from FDWrapper_destructor_inv inv d have t: "process_inv t" by (rule keepsD')
  show "process_inv (snd (FileDescriptor_destructor P h s))"
  proof (cases "wrappers s h")
    case None
    with inv show ?thesis by (simp add: FileDescriptor_destructor_def get_wrapper_def bnd_def)
  next
    case (Some w)
    with inv have "slot_inv (Some w) (use_count s h) (h < next_handle s)"
      by (metis process_inv_def)
    with inv t destructor_shared [OF Some, of P] destructor_last [OF Some _ d] show ?thesis
      by (cases "1 < use_count s h") (auto simp: process_inv_def Some)
  qed
qed

text \<open>Which calls the destruction of the last use makes, and what it prints.\<close>

lemma FDWrapper_destructor_closed:
  "wrappers s h = Some w \<Longrightarrow> w_closed w \<Longrightarrow> FDWrapper_destructor P h s = (Inr (), s)"
  by (simp add: FDWrapper_destructor_def try_catch_def bnd_Inr get_wrapper_Some ret_def)

lemma FDWrapper_close_eq:
  assumes "wrappers s h = Some w" and "sys_close P (w_fd w) (world s) = (r, W)"
  shows "FDWrapper_close P h s =
     (if 0 \<le> sr_val r \<or> sr_errno r = 0
      then (Inr (), s\<lparr>world := W, wrappers := (wrappers s)(h := Some (w\<lparr>w_eof := True, w_closed := True\<rparr>))\<rparr>)
      else (Inl (UnixError ''close'' (sr_errno r)), s\<lparr>world := W\<rparr>))"
  using assms
  by (simp add: FDWrapper_close_def bnd_Inr get_wrapper_Some syscall_eq SystemCall_def throw_def
      modify_wrapper_Some)

lemma FDWrapper_destructor_open:
  assumes "wrappers s h = Some w" and "\<not> w_closed w" and "sys_close P (w_fd w) (world s) = (r, W)"
  shows "world (snd (FDWrapper_destructor P h s)) = W"
    and "cerr (snd (FDWrapper_destructor P h s)) =
           (if 0 \<le> sr_val r \<or> sr_errno r = 0 then cerr s
            else cerr s @ ''Exception destructing FDWrapper: close: '' @ sys_strerror P (sr_errno r) @ ''\<newline>'')"
  using assms
  by (simp_all add: FDWrapper_destructor_def try_catch_def bnd_Inr get_wrapper_Some FDWrapper_close_eq
      modify_def exn_what_def tagged_error_what_def)

subsection \<open>The kernel's promise about \<^verbatim>\<open>writev\<close>, and what \<^verbatim>\<open>write\<close> makes of it\<close>

text \<open>
  Documented behaviour of \<^verbatim>\<open>writev(2)\<close> on a descriptor, while the connection behind it is \<open>up\<close>: the result is \<open>-1\<close>, \<^verbatim>\<open>errno\<close> is
  set and nothing is sent, or it is the number of bytes sent, a prefix of the array's bytes, and at most
  \<^verbatim>\<open>0x7ffff000\<close> (the limit of one transfer on Linux). \<open>sent\<close> is the stream of bytes the
  descriptor has accepted. A call that fails may bring the connection down, one that succeeds does not.
\<close>

definition writev_sends :: "('w, 'z) posix_scheme \<Rightarrow> int \<Rightarrow> ('w \<Rightarrow> bool) \<Rightarrow> ('w \<Rightarrow> bytes) \<Rightarrow> bool" where
  "writev_sends P fd up sent \<longleftrightarrow>
     (\<forall>iov W r W'. up W \<and> sys_writev P fd iov W = (r, W') \<longrightarrow>
        - 1 \<le> sr_val r \<and> sr_val r \<le> 0x7ffff000 \<and> (sr_val r = - 1 \<longrightarrow> sr_errno r \<noteq> 0) \<and>
        sent W' = sent W @ take (nat (sr_val r)) (iovec_bytes iov) \<and> (0 \<le> sr_val r \<longrightarrow> up W'))"

lemma writev_sendsD:
  assumes "writev_sends P fd up sent" and "up W" and "sys_writev P fd iov W = (r, W')"
  shows "sr_val r = - 1 \<and> sr_errno r \<noteq> 0 \<or> 0 \<le> sr_val r" and "narrow_int (sr_val r) = sr_val r"
    and "sent W' = sent W @ take (nat (sr_val r)) (iovec_bytes iov)" and "0 \<le> sr_val r \<Longrightarrow> up W'"
proof -
  from assms have b: "- 1 \<le> sr_val r" "sr_val r \<le> 0x7ffff000" "sr_val r = - 1 \<longrightarrow> sr_errno r \<noteq> 0"
    and "sent W' = sent W @ take (nat (sr_val r)) (iovec_bytes iov)" "0 \<le> sr_val r \<longrightarrow> up W'"
    by (auto simp: writev_sends_def)
  then show "sr_val r = - 1 \<and> sr_errno r \<noteq> 0 \<or> 0 \<le> sr_val r"
    "sent W' = sent W @ take (nat (sr_val r)) (iovec_bytes iov)" "0 \<le> sr_val r \<Longrightarrow> up W'" by auto
  from b show "narrow_int (sr_val r) = sr_val r" by (intro narrow_int_id) auto
qed

text \<open>One iteration, by the answer of the kernel.\<close>

lemma write_once_eq:
  assumes w: "wrappers s h = Some w"
    and sys: "sys_writev P (w_fd w) (BufferViewList_as_iovecs buffer) (world s) = (r, W)"
  shows "write_once P h buffer s =
    (let n = narrow_int (sr_val r); size = BufferViewList_size buffer;
         s1 = s\<lparr>world := W\<rparr>;
         s2 = s1\<lparr>wrappers := (wrappers s)(h := Some (w\<lparr>w_write_count := w_write_count w + 1\<rparr>))\<rparr> in
     if n < 0 \<and> sr_errno r \<noteq> 0 then (Inl (UnixError ''writev'' (sr_errno r)), s1)
     else if n = 0 \<and> size \<noteq> 0 then (Inl (RuntimeError ''write returned 0 given non-empty input buffer''), s1)
     else if n > int size then (Inl (RuntimeError ''write wrote more than length of input buffer''), s1)
     else case BufferViewList_remove_prefix (size_of_ssize n) buffer of
            (Inl e, _) \<Rightarrow> (Inl e, s2)
          | (Inr _, buffer') \<Rightarrow> (Inr (n, buffer'), s2))"
  using w sys
  by (auto simp: write_once_def Let_def bnd_Inr FileDescriptor_fd_num_def get_wrapper_Some syscall_eq
      SystemCall_def throw_def FileDescriptor_register_write_def modify_wrapper_Some ret_def
      split: prod.split sum.split)

lemma write_once_sends:
  assumes w: "wrappers s h = Some w" and sends: "writev_sends P (w_fd w) up sent" and up: "up (world s)"
    and once: "write_once P h buffer s = (r, t)"
  shows "\<exists>k w'. k \<le> BufferViewList_size buffer \<and> wrappers t h = Some w' \<and> w_fd w' = w_fd w \<and>
           sent (world t) = sent (world s) @ take k (concat (views buffer)) \<and>
           (case r of Inl _ \<Rightarrow> True
            | Inr (n, buffer') \<Rightarrow> n = int k \<and> concat (views buffer') = drop k (concat (views buffer)) \<and> up (world t))"
proof -
  obtain rr W where sys: "sys_writev P (w_fd w) (BufferViewList_as_iovecs buffer) (world s) = (rr, W)"
    by (cases "sys_writev P (w_fd w) (BufferViewList_as_iovecs buffer) (world s)")
  note D = writev_sendsD [OF sends up sys]
  let ?n = "sr_val rr" and ?size = "BufferViewList_size buffer" and ?data = "concat (views buffer)"
  let ?k = "min (nat ?n) ?size"
  have size: "?size = length ?data" by (rule vlist.size_of_contents) simp
  have W: "sent W = sent (world s) @ take ?k ?data"
    using D(3) by (simp add: iovec_bytes_as_iovecs size min_def)
  note eq = write_once_eq [OF w sys, unfolded D(2) Let_def, unfolded once]
  show ?thesis
  proof (cases "0 < ?n \<and> nat ?n \<le> ?size \<or> ?n = 0 \<and> ?size = 0")
    case True
    then have "size_of_ssize ?n = nat ?n"
      using D(2) narrow_int_range [of ?n] by (intro size_of_ssize_nonneg) auto
    with True vlist.discard_ok [where b = buffer and n = "nat ?n"] obtain b' where
      "BufferViewList_remove_prefix (size_of_ssize ?n) buffer = (Inr (), b')"
      "concat (views b') = drop (nat ?n) ?data"
      by (auto simp: size)
    moreover from True have "\<not> ?n < 0" "\<not> (?n = 0 \<and> ?size \<noteq> 0)" "\<not> ?n > int ?size" "?k = nat ?n"
      by auto
    moreover from True D(4) have "up W" by auto
    ultimately show ?thesis using eq W by (intro exI [of _ ?k]) auto
  next
    case False
    with D(1) eq have "(\<exists>e. r = Inl e) \<and> t = s\<lparr>world := W\<rparr>" by (auto split: if_splits)
    with W w show ?thesis by (intro exI [of _ ?k] exI [of _ w]) auto
  qed
qed

lemma write_loop_sends:
  assumes "wrappers s h = Some w" and "writev_sends P (w_fd w) up sent" and "up (world s)"
    and "write_loop P h write_all buffer written s = (r, t)"
  shows "\<exists>k \<le> BufferViewList_size buffer.
           sent (world t) = sent (world s) @ take k (concat (views buffer)) \<and>
           (case r of Inl _ \<Rightarrow> True
            | Inr n \<Rightarrow> n = written + k \<and> (write_all \<longrightarrow> k = BufferViewList_size buffer) \<and> up (world t))"
  using assms
proof (induction buffer written s arbitrary: w rule: write_loop_induct [of P h])
  case (step buffer written s)
  have size: "BufferViewList_size b = length (concat (views b))" for b
    by (rule vlist.size_of_contents) simp
  note once = write_once_sends [OF step.prems(1-3)]
  show ?case
  proof (cases rule: write_once_cases [where P = P and h = h and buffer = buffer and s = s and write_all = write_all])
    case throws
    with once [OF throws] step.prems(4) show ?thesis by (auto simp: write_loop_Inl)
  next
    case (stops n buffer' t')
    with once [OF stops(1)] step.prems(4) obtain k where
      k: "k \<le> BufferViewList_size buffer" "n = int k" "concat (views buffer') = drop k (concat (views buffer))"
      "sent (world t) = sent (world s) @ take k (concat (views buffer))" "r = Inr (written + size_of_ssize n)" "up (world t)"
      by (auto simp: write_loop_last)
    from write_once_Inr(5) [OF stops(1)] k(2) have "size_of_ssize n = k"
      by (simp add: size_of_ssize_nonneg)
    with k stops(2) show ?thesis by (auto simp: size intro!: exI [of _ k])
  next
    case (goes_on n buffer' t')
    from once [OF goes_on(1)] obtain k w' where
      k: "k \<le> BufferViewList_size buffer" "n = int k" "concat (views buffer') = drop k (concat (views buffer))"
      "sent (world t') = sent (world s) @ take k (concat (views buffer))"
      "wrappers t' h = Some w'" "w_fd w' = w_fd w" "up (world t')" by auto
    from write_once_Inr(5) [OF goes_on(1)] k(2) have nk: "size_of_ssize n = k"
      by (simp add: size_of_ssize_nonneg)
    from step.prems(2) k(6) have "writev_sends P (w_fd w') up sent" by simp
    from step.IH [OF goes_on(1,3) k(5) this k(7)] step.prems(4) goes_on
    obtain j where j: "j \<le> BufferViewList_size buffer'"
      "sent (world t) = sent (world t') @ take j (concat (views buffer'))"
      "case r of Inl _ \<Rightarrow> True | Inr m \<Rightarrow> m = written + size_of_ssize n + j \<and> (write_all \<longrightarrow> j = BufferViewList_size buffer') \<and> up (world t)"
      by (auto simp: write_loop_more)
    with k nk show ?thesis
      by (intro exI [of _ "k + j"]) (auto simp: size take_add split: sum.splits)
  qed
qed

text \<open>
  The arrays that \<^verbatim>\<open>writev(2)\<close> takes: not empty, at most \<^verbatim>\<open>IOV_MAX\<close> entries, and a total that an \<^verbatim>\<open>ssize_t\<close> can hold. For
  any other array it documents \<^verbatim>\<open>EINVAL\<close>.
\<close>

definition IOV_MAX :: nat where
  "IOV_MAX = 1024"

definition iov_valid :: "iovec list \<Rightarrow> bool" where
  "iov_valid iov \<longleftrightarrow> 0 < length iov \<and> length iov \<le> IOV_MAX \<and> length (iovec_bytes iov) < 2 ^ 63"

lemma iov_valid_string: "length str < 2 ^ 63 \<Longrightarrow> iov_valid (BufferViewList_as_iovecs (BufferViewList_of_string str))"
  by (simp add: iov_valid_def IOV_MAX_def as_iovecs_map BufferViewList_of_string_def iovec_bytes_def)

text \<open>What is left of a valid array after a partial write is valid, unless nothing is left.\<close>

lemma remove_prefix_views: "length (snd (BufferViewList_remove_prefix_loop n vs)) \<le> length vs"
  by (induction n vs rule: BufferViewList_remove_prefix_loop.induct) auto

lemma iov_valid_rest:
  assumes "iov_valid (BufferViewList_as_iovecs buffer)" and "BufferViewList_remove_prefix n buffer = (Inr (), buffer')"
    and "BufferViewList_size buffer' \<noteq> 0"
  shows "iov_valid (BufferViewList_as_iovecs buffer')"
proof -
  have "views buffer' = snd (BufferViewList_remove_prefix_loop n (views buffer))"
    using assms(2) by (auto simp: BufferViewList_remove_prefix_def split: prod.splits)
  then have "length (views buffer') \<le> length (views buffer)" using remove_prefix_views [of n "views buffer"] by simp
  moreover have "BufferViewList_size buffer' \<le> BufferViewList_size buffer"
    using vlist.discard_Inr(4) [OF TrueI assms(2)] by simp
  moreover have "views buffer' \<noteq> []" using assms(3) by (auto simp: BufferViewList_size_def)
  ultimately show ?thesis
    using assms(1) vlist.size_of_contents [of buffer] vlist.size_of_contents [of buffer']
    by (simp add: iov_valid_def iovec_bytes_as_iovecs) (simp add: as_iovecs_map)
qed

text \<open>
  A kernel that accepts something whenever it is offered a valid array that is not empty, in the states \<open>up\<close>: the
  descriptor is in blocking mode, its connection stands and no signal interrupts the call.
\<close>

definition writev_accepts :: "('w, 'z) posix_scheme \<Rightarrow> int \<Rightarrow> ('w \<Rightarrow> bool) \<Rightarrow> bool" where
  "writev_accepts P fd up \<longleftrightarrow>
     (\<forall>iov W r W'. up W \<and> iov_valid iov \<and> sys_writev P fd iov W = (r, W') \<longrightarrow>
        0 \<le> sr_val r \<and> sr_val r \<le> int (length (iovec_bytes iov)) \<and>
        (iovec_bytes iov \<noteq> [] \<longrightarrow> 0 < sr_val r))"

lemma write_once_accepted:
  assumes w: "wrappers s h = Some w" and sends: "writev_sends P (w_fd w) up sent"
    and acc: "writev_accepts P (w_fd w) up" and up: "up (world s)"
    and valid: "iov_valid (BufferViewList_as_iovecs buffer)"
  shows "\<exists>n buffer' t w'. write_once P h buffer s = (Inr (n, buffer'), t) \<and>
           wrappers t h = Some w' \<and> w_fd w' = w_fd w \<and> up (world t)"
proof -
  obtain rr W where sys: "sys_writev P (w_fd w) (BufferViewList_as_iovecs buffer) (world s) = (rr, W)"
    by (cases "sys_writev P (w_fd w) (BufferViewList_as_iovecs buffer) (world s)")
  note D = writev_sendsD [OF sends up sys]
  have size: "BufferViewList_size buffer = length (concat (views buffer))"
    by (rule vlist.size_of_contents) simp
  have "iovec_bytes (BufferViewList_as_iovecs buffer) = concat (views buffer)"
    by (rule iovec_bytes_as_iovecs)
  with acc sys up valid have v: "0 \<le> sr_val rr" "sr_val rr \<le> int (BufferViewList_size buffer)"
    "BufferViewList_size buffer \<noteq> 0 \<longrightarrow> 0 < sr_val rr"
    unfolding writev_accepts_def size by (metis, metis, metis list.size(3))
  then have "size_of_ssize (sr_val rr) = nat (sr_val rr)"
    using D(2) narrow_int_range [of "sr_val rr"] by (intro size_of_ssize_nonneg) auto
  with v vlist.discard_ok [where b = buffer and n = "nat (sr_val rr)"] obtain b' where
    "BufferViewList_remove_prefix (size_of_ssize (sr_val rr)) buffer = (Inr (), b')"
    by (auto simp: size nat_le_iff)
  with v D(4) show ?thesis by (auto simp: write_once_eq [OF w sys] D(2) Let_def)
qed

lemma write_loop_accepted:
  assumes "wrappers s h = Some w" and "writev_sends P (w_fd w) up sent" and "writev_accepts P (w_fd w) up"
    and "up (world s)" and "iov_valid (BufferViewList_as_iovecs buffer)"
  shows "is_ok (fst (write_loop P h write_all buffer written s))"
  using assms
proof (induction buffer written s arbitrary: w rule: write_loop_induct [of P h])
  case (step buffer written s)
  from write_once_accepted [OF step.prems] obtain n buffer' t w' where
    o: "write_once P h buffer s = (Inr (n, buffer'), t)" "wrappers t h = Some w'" "w_fd w' = w_fd w" "up (world t)"
    by blast
  show ?case
  proof (cases "write_all \<and> BufferViewList_size buffer' \<noteq> 0")
    case True
    with iov_valid_rest [OF step.prems(5) write_once_Inr(1) [OF o(1)]] o step.prems step.IH [OF o(1) _ o(2)] show ?thesis
      by (simp add: write_loop_more)
  next
    case False
    with o show ?thesis by (simp add: write_loop_last)
  qed
qed

subsection \<open>What \<^verbatim>\<open>read\<close> makes of the kernel's answer\<close>

lemma string_resize_ok: "n \<le> max_size \<Longrightarrow> string_resize n s = Inr (take n s @ replicate (n - length s) 0)"
  by (simp add: string_resize_def)

text \<open>Documented behaviour of \<^verbatim>\<open>read(2)\<close>: \<open>-1\<close> and an \<^verbatim>\<open>errno\<close>, or at most the size of the array.\<close>

definition read_answer :: "sysret \<Rightarrow> nat \<Rightarrow> bool" where
  "read_answer r n \<longleftrightarrow> (sr_val r = - 1 \<and> sr_errno r \<noteq> 0) \<or> (0 \<le> sr_val r \<and> sr_val r \<le> int n)"

lemma read_into_var:
  assumes w: "wrappers s h = Some w"
    and sys: "sys_read P (w_fd w) (take (min BUFFER_SIZE limit) str @
        replicate (min BUFFER_SIZE limit - length str) 0) (world s) = ((r, buf), W)"
    and ans: "read_answer r (min BUFFER_SIZE limit)" and len: "length buf = min BUFFER_SIZE limit"
  shows "FileDescriptor_read_into P h limit (s, str) =
    (if sr_val r < 0 then (Inl (UnixError ''read'' (sr_errno r)), s\<lparr>world := W\<rparr>, buf)
     else (Inr (),
           s\<lparr>world := W, wrappers := (wrappers s)(h := Some
             (w\<lparr>w_eof := w_eof w \<or> (limit > 0 \<and> sr_val r = 0), w_read_count := w_read_count w + 1\<rparr>))\<rparr>,
           take (nat (sr_val r)) buf))"
proof -
  have "min BUFFER_SIZE limit \<le> max_size" by (simp add: BUFFER_SIZE_def max_size_def min_def)
  then have resize: "string_resize (min BUFFER_SIZE limit) str =
      Inr (take (min BUFFER_SIZE limit) str @ replicate (min BUFFER_SIZE limit - length str) 0)"
    by (rule string_resize_ok)
  have small: "min BUFFER_SIZE limit < 2 ^ 31" by (simp add: BUFFER_SIZE_def min_def)
  with ans have narrow: "narrow_int (sr_val r) = sr_val r"
    by (intro narrow_int_id) (auto simp: read_answer_def)
  let ?sys = "sys_read P (w_fd w) (take (min BUFFER_SIZE limit) str @ replicate (min BUFFER_SIZE limit - length str) 0)"
  have fd: "FileDescriptor_fd_num h s = (Inr (w_fd w), s)"
    using w by (simp add: FileDescriptor_fd_num_def bnd_Inr get_wrapper_Some ret_def)
  have read: "syscall ?sys s = (Inr (r, buf), s\<lparr>world := W\<rparr>)" using sys by (simp add: syscall_eq)
  note run = FileDescriptor_read_into_def Let_def bnd_resize_var [OF resize] bnd_with_var [where m = "FileDescriptor_fd_num h", OF fd]
    bnd_with_var [where m = "syscall ?sys", OF read] bnd_put_var narrow
  show ?thesis
  proof (cases "sr_val r < 0")
    case True
    with ans have "sr_errno r \<noteq> 0" by (auto simp: read_answer_def)
    with True show ?thesis by (simp add: run SystemCall_def throw_def)
  next
    case False
    with ans have le: "sr_val r \<le> int (min BUFFER_SIZE limit)" by (auto simp: read_answer_def)
    with small False have "size_of_ssize (sr_val r) = nat (sr_val r)" "nat (sr_val r) \<le> max_size"
      by (auto simp: size_of_ssize_nonneg max_size_def)
    moreover from le len have "nat (sr_val r) \<le> length buf" by linarith
    ultimately have "string_resize (size_of_ssize (sr_val r)) buf = Inr (take (nat (sr_val r)) buf)"
      by (simp add: string_resize_ok)
    note shrink = bnd_resize_var [OF this]
    let ?flag = "if limit > 0 \<and> sr_val r = 0 then modify_wrapper h (\<lambda>w. w\<lparr>w_eof := True\<rparr>) else ret ()"
    let ?p = "s\<lparr>world := W, wrappers := (wrappers s)(h \<mapsto> w\<lparr>w_eof := w_eof w \<or> (limit > 0 \<and> sr_val r = 0)\<rparr>)\<rparr>"
    have "w\<lparr>w_eof := w_eof w\<rparr> = w" by (cases w) simp
    then have flag: "?flag (s\<lparr>world := W\<rparr>) = (Inr (), ?p)"
      using w by (auto simp: modify_wrapper_Some ret_def fun_upd_idem)
    have "with_var (FileDescriptor_register_read h) (?p, v) =
        (Inr (), s\<lparr>world := W, wrappers := (wrappers s)(h := Some
           (w\<lparr>w_eof := w_eof w \<or> (limit > 0 \<and> sr_val r = 0), w_read_count := w_read_count w + 1\<rparr>))\<rparr>, v)" for v :: bytes
      by (simp add: with_var_def FileDescriptor_register_read_def modify_wrapper_Some)
    with False le show ?thesis
      by (simp add: run shrink SystemCall_def bnd_with_var [where m = ?flag, OF flag])
  qed
qed

text \<open>The caller's view.\<close>

lemma read_into_eq:
  assumes "wrappers s h = Some w"
    and "sys_read P (w_fd w) (take (min BUFFER_SIZE limit) str @
        replicate (min BUFFER_SIZE limit - length str) 0) (world s) = ((r, buf), W)"
    and "read_answer r (min BUFFER_SIZE limit)" and "length buf = min BUFFER_SIZE limit"
  shows "local_var str (FileDescriptor_read_into P h limit) s =
    (if sr_val r < 0 then (Inl (UnixError ''read'' (sr_errno r)), s\<lparr>world := W\<rparr>)
     else (Inr (take (nat (sr_val r)) buf),
           s\<lparr>world := W, wrappers := (wrappers s)(h := Some
             (w\<lparr>w_eof := w_eof w \<or> (limit > 0 \<and> sr_val r = 0), w_read_count := w_read_count w + 1\<rparr>))\<rparr>))"
  unfolding local_var_def read_into_var [OF assms] by simp

lemma bit_O_NONBLOCK: "bit O_NONBLOCK i \<longleftrightarrow> i = 11"
proof -
  have "O_NONBLOCK = 2 ^ 11" by (simp add: O_NONBLOCK_def)
  then have "bit O_NONBLOCK i \<longleftrightarrow> bit (2 ^ 11 :: int) i" by simp
  also have "\<dots> \<longleftrightarrow> i = 11" by (simp only: bit_exp_iff possible_bit_def) auto
  finally show ?thesis .
qed

lemma bit_blocking_flags:
  "bit (blocking_flags blocking_state f) i \<longleftrightarrow> (if i = 11 then \<not> blocking_state else bit f i)"
  by (auto simp: blocking_flags_def bit_simps bit_O_NONBLOCK)

subsection \<open>No use of a live handle is undefined\<close>

text \<open>
  A computation is safe at a handle when, started with a wrapper behind it, it neither ends
  in undefined behaviour nor takes the wrapper away.
\<close>

definition safe_at :: "handle \<Rightarrow> ('w process, 'a) prog \<Rightarrow> bool" where
  "safe_at h m \<longleftrightarrow>
     (\<forall>s. wrappers s h \<noteq> None \<longrightarrow>
        wrappers (snd (m s)) h \<noteq> None \<and> (\<forall>x. fst (m s) \<noteq> Inl (UndefinedBehaviour x)))"

named_theorems safe_intros

lemma safe_atI:
  "(\<And>s r t. wrappers s h \<noteq> None \<Longrightarrow> m s = (r, t) \<Longrightarrow>
      wrappers t h \<noteq> None \<and> (\<forall>x. r \<noteq> Inl (UndefinedBehaviour x))) \<Longrightarrow> safe_at h m"
  unfolding safe_at_def by (metis prod.collapse)

lemma safe_atD:
  "safe_at h m \<Longrightarrow> wrappers s h \<noteq> None \<Longrightarrow> m s = (r, t) \<Longrightarrow>
     wrappers t h \<noteq> None \<and> (\<forall>x. r \<noteq> Inl (UndefinedBehaviour x))"
  unfolding safe_at_def by (metis fst_conv snd_conv)

lemma safe_ret [safe_intros]: "safe_at h (ret x)"
  by (simp add: safe_at_def ret_def)

lemma safe_throw: "(\<And>x. e \<noteq> UndefinedBehaviour x) \<Longrightarrow> safe_at h (throw e)"
  by (simp add: safe_at_def throw_def)

lemma safe_throw_RuntimeError [safe_intros]: "safe_at h (throw (RuntimeError m))"
  by (rule safe_throw) simp

lemma safe_bnd [safe_intros]:
  assumes "safe_at h m" and "\<And>x. safe_at h (f x)"
  shows "safe_at h (bnd m f)"
proof (rule safe_atI)
  fix s r t assume s: "wrappers s h \<noteq> None" and b: "bnd m f s = (r, t)"
  obtain r1 t1 where m: "m s = (r1, t1)" by (cases "m s")
  from safe_atD [OF assms(1) s m] have t1: "wrappers t1 h \<noteq> None" "\<forall>x. r1 \<noteq> Inl (UndefinedBehaviour x)"
    by auto
  show "wrappers t h \<noteq> None \<and> (\<forall>x. r \<noteq> Inl (UndefinedBehaviour x))"
  proof (cases r1)
    case (Inl e)
    with m b t1 show ?thesis by (auto simp: bnd_def)
  next
    case (Inr x)
    with m b have "f x t1 = (r, t)" by (simp add: bnd_def)
    with assms(2) t1(1) show ?thesis by (rule safe_atD)
  qed
qed

lemma safe_if [safe_intros]: "safe_at h m \<Longrightarrow> safe_at h n \<Longrightarrow> safe_at h (if b then m else n)"
  by simp

lemma safe_case_prod [safe_intros]: "(\<And>a b. safe_at h (f a b)) \<Longrightarrow> safe_at h (case x of (a, b) \<Rightarrow> f a b)"
  by (cases x) auto

lemma safe_get_wrapper [safe_intros]: "safe_at h (get_wrapper h)"
  by (auto simp: safe_at_def get_wrapper_def)

lemma safe_modify_wrapper [safe_intros]: "safe_at h (modify_wrapper h f)"
  by (auto simp: safe_at_def modify_wrapper_Some)

lemma safe_syscall [safe_intros]: "safe_at h (syscall f)"
  by (simp add: safe_at_def syscall_def split_beta Let_def)

lemma safe_SystemCall [safe_intros]: "safe_at h (lift_result (SystemCall a v e m))"
  by (simp add: safe_at_def lift_result_def SystemCall_def)

lemma safe_string_resize [safe_intros]: "safe_at h (lift_result (string_resize n s))"
  by (simp add: safe_at_def lift_result_def string_resize_def)

lemmas fd_accessor_defs = FileDescriptor_fd_num_def FileDescriptor_register_read_def
  FileDescriptor_register_write_def FileDescriptor_eof_def FileDescriptor_closed_def
  FileDescriptor_read_count_def FileDescriptor_write_count_def

lemma safe_close [safe_intros]: "safe_at h (FileDescriptor_close P h)"
  unfolding FileDescriptor_close_def FDWrapper_close_def by (intro safe_intros)

lemma safe_set_blocking [safe_intros]: "safe_at h (FileDescriptor_set_blocking P h b)"
  unfolding FileDescriptor_set_blocking_def fd_accessor_defs by (intro safe_intros)

lemma safe_read [safe_intros]: "safe_at h (local_var str (FileDescriptor_read_into P h limit))"
  unfolding read_into_local fd_accessor_defs Let_def by (intro safe_intros)

lemma safe_remove_prefix:
  "safe_at h (case BufferViewList_remove_prefix n b of (Inl e, _) \<Rightarrow> throw e | (Inr _, b') \<Rightarrow> ret (k, b'))"
  using vlist.discard_ok [where b = b and n = n] vlist.discard_bad [where b = b and n = n]
  by (cases "n \<le> length (concat (views b))") (auto intro: safe_ret safe_throw)

lemma safe_write_once [safe_intros]: "safe_at h (write_once P h buffer)"
  unfolding write_once_def fd_accessor_defs Let_def by (intro safe_intros safe_remove_prefix)

lemma safe_write [safe_intros]: "safe_at h (FileDescriptor_write P h buffer write_all)"
proof -
  have "wrappers s h \<noteq> None \<Longrightarrow> write_loop P h write_all buffer written s = (r, t) \<Longrightarrow>
          wrappers t h \<noteq> None \<and> (\<forall>x. r \<noteq> Inl (UndefinedBehaviour x))" for written s r t
  proof (induction buffer written s rule: write_loop_induct [of P h])
    case (step buffer written s)
    note once = safe_atD [OF safe_write_once step.prems(1)]
    show ?case
    proof (cases rule: write_once_cases [where P = P and h = h and buffer = buffer and s = s and write_all = write_all])
      case throws
      with once [OF throws] step.prems(2) show ?thesis by (auto simp: write_loop_Inl)
    next
      case stops
      with once [OF stops(1)] step.prems(2) show ?thesis by (auto simp: write_loop_last)
    next
      case goes_on
      with once [OF goes_on(1)] step.IH [OF goes_on(1,3)] step.prems(2) show ?thesis
        by (simp add: write_loop_more)
    qed
  qed
  then show ?thesis unfolding FileDescriptor_write_def by (rule safe_atI)
qed

subsection \<open>Reachable process states\<close>

text \<open>
  A program using the library creates descriptors, and uses, shares or destroys the ones it
  has; between its steps the world changes on its own.
\<close>

inductive fd_step :: "('w, 'z) posix_scheme \<Rightarrow> 'w process \<Rightarrow> 'w process \<Rightarrow> bool" for P where
  new: "fd_step P s (snd (FileDescriptor_new fd s))"
| duplicate: "0 < use_count s h \<Longrightarrow> fd_step P s (snd (FileDescriptor_duplicate h s))"
| destroy: "0 < use_count s h \<Longrightarrow> fd_step P s (snd (FileDescriptor_destructor P h s))"
| read: "0 < use_count s h \<Longrightarrow> fd_step P s (fst (snd (FileDescriptor_read_into P h limit (s, str))))"
| "write": "0 < use_count s h \<Longrightarrow> fd_step P s (snd (FileDescriptor_write P h buffer write_all s))"
| close: "0 < use_count s h \<Longrightarrow> fd_step P s (snd (FileDescriptor_close P h s))"
| set_blocking: "0 < use_count s h \<Longrightarrow> fd_step P s (snd (FileDescriptor_set_blocking P h b s))"
| outside: "fd_step P s (s\<lparr>world := W\<rparr>)"

lemma process_inv_init: "process_inv (init_process W)"
  by (simp add: process_inv_def init_process_def)

lemma fd_step_inv: "fd_step P s t \<Longrightarrow> process_inv s \<Longrightarrow> process_inv t"
proof (induction rule: fd_step.induct)
  case (read s h limit str)
  then show ?case unfolding local_read_into by (intro keepsD [OF fd_read.oper_inv])
next
  case (outside s W)
  then show ?case by (simp add: process_inv_def)
qed (auto intro: keepsD keeps_new keeps_duplicate keeps_destructor fd_read.oper_inv fd_write.oper_inv
    fd_close.oper_inv fd_set_blocking.oper_inv)

lemma reachable_inv: "(fd_step P)\<^sup>*\<^sup>* (init_process W) s \<Longrightarrow> process_inv s"
  by (induction rule: rtranclp_induct) (auto intro: process_inv_init fd_step_inv)

text \<open>When a computation ends in undefined behaviour.\<close>

fun is_undefined :: "exn \<Rightarrow> bool" where
  "is_undefined (UndefinedBehaviour _) = True"
| "is_undefined _ = False"

fun undefined_behaviour :: "'a result \<Rightarrow> bool" where
  "undefined_behaviour (Inl e) = is_undefined e"
| "undefined_behaviour (Inr _) = False"

lemma safe_at_defined: "safe_at h m \<Longrightarrow> wrappers s h \<noteq> None \<Longrightarrow> \<not> undefined_behaviour (fst (m s))"
  unfolding safe_at_def by (metis is_undefined.elims(2) undefined_behaviour.elims(2))

lemma duplicate_eq:
  "wrappers s h = Some w \<Longrightarrow>
     FileDescriptor_duplicate h s = (Inr h, s\<lparr>use_count := (use_count s)(h := Suc (use_count s h))\<rparr>)"
  by (simp add: FileDescriptor_duplicate_def get_wrapper_Some bnd_Inr ret_def)

lemma destructor_ret: "wrappers s h = Some w \<Longrightarrow> fst (FileDescriptor_destructor P h s) = Inr ()"
  using destructor_shared [of s h w P] destructor_last [of s h w P]
  by (metis fst_conv linorder_not_less surj_pair)

text \<open>The destructor's effect on the counts and on the wrappers.\<close>

lemma destructor_effect:
  assumes "wrappers p h = Some w" and "use_count p h \<noteq> 0"
  shows "use_count (snd (FileDescriptor_destructor P h p)) = (use_count p)(h := use_count p h - 1)"
    and "wrappers (snd (FileDescriptor_destructor P h p)) =
           (if 1 < use_count p h then wrappers p else (wrappers p)(h := None))"
    and "next_handle (snd (FileDescriptor_destructor P h p)) = next_handle p"
proof -
  obtain r t where d: "FDWrapper_destructor P h p = (r, t)" by (cases "FDWrapper_destructor P h p")
  with FDWrapper_destructor_rest [of h p P] have "rest_is h p t" by simp
  then have t: "use_count t = use_count p" "next_handle t = next_handle p"
    "(wrappers t)(h := None) = (wrappers p)(h := None)"
    by (auto simp: rest_is_def)
  show "use_count (snd (FileDescriptor_destructor P h p)) = (use_count p)(h := use_count p h - 1)"
    "wrappers (snd (FileDescriptor_destructor P h p)) =
           (if 1 < use_count p h then wrappers p else (wrappers p)(h := None))"
    "next_handle (snd (FileDescriptor_destructor P h p)) = next_handle p"
    using destructor_shared [OF assms(1), of P] destructor_last [OF assms(1) _ d] assms(2) t
    by (cases "1 < use_count p h"; auto)+
qed

lemma accessor_eq:
  assumes "wrappers p h = Some w"
  shows "FileDescriptor_eof h p = (Inr (w_eof w), p)" "FileDescriptor_closed h p = (Inr (w_closed w), p)"
    "FileDescriptor_fd_num h p = (Inr (w_fd w), p)"
    "FileDescriptor_read_count h p = (Inr (w_read_count w), p)"
    "FileDescriptor_write_count h p = (Inr (w_write_count w), p)"
  using assms by (simp_all add: fd_accessor_defs get_wrapper_Some bnd_Inr ret_def)

subsection \<open>Constructors of derived classes\<close>

text \<open>A constructor's body that throws: the base object, a FileDescriptor, is destroyed.\<close>

definition with_base :: "('w, 'z) posix_scheme \<Rightarrow> handle \<Rightarrow> ('w process, unit) prog \<Rightarrow> ('w process, handle) prog" where
  "with_base P h body =
     try_catch (bnd body (\<lambda>_. ret h)) (\<lambda>e. bnd (FileDescriptor_destructor P h) (\<lambda>_. throw e))"

lemma with_base_result:
  assumes inv: "process_inv s" and live: "wrappers s h = Some w"
    and body: "keeps process_inv body" "keeps (rest_is h s) body" "safe_at h body"
    and run: "with_base P h body s = (r, t)"
  shows "process_inv t" and "\<And>h'. h' \<noteq> h \<Longrightarrow> wrappers t h' = wrappers s h'"
    and "next_handle t = next_handle s"
    and "case r of Inl e \<Rightarrow> use_count t = (use_count s)(h := use_count s h - 1)
         | Inr h' \<Rightarrow> h' = h \<and> use_count t = use_count s"
    and "\<not> undefined_behaviour r"
proof -
  obtain rb u where b: "body s = (rb, u)" by (cases "body s")
  from keepsD' [OF body(1) inv b] have u: "process_inv u" .
  have "rest_is h s s" by (simp add: rest_is_def)
  from keepsD' [OF body(2) this b] have rest: "\<And>h'. h' \<noteq> h \<Longrightarrow> wrappers u h' = wrappers s h'"
    "use_count u = use_count s" "next_handle u = next_handle s" "wrappers u h \<noteq> None"
    using live by (auto simp: rest_is_def)
  from rest(4) obtain w' where w': "wrappers u h = Some w'" by blast
  with u have cnt: "use_count u h \<noteq> 0" using process_inv_None [OF u, of h] by simp
  note des = destructor_effect [OF w' cnt, of P] destructor_ret [OF w', of P]
  have inv_d: "process_inv (snd (FileDescriptor_destructor P h u))" using keeps_destructor u by (rule keepsD)
  have ok: "\<not> undefined_behaviour rb" using safe_at_defined [OF body(3), of s] live b by simp
  show "process_inv t" "\<And>h'. h' \<noteq> h \<Longrightarrow> wrappers t h' = wrappers s h'" "next_handle t = next_handle s"
    "case r of Inl e \<Rightarrow> use_count t = (use_count s)(h := use_count s h - 1)
     | Inr h' \<Rightarrow> h' = h \<and> use_count t = use_count s" "\<not> undefined_behaviour r"
    using run u rest des inv_d ok
    by (cases rb; cases "FileDescriptor_destructor P h u";
        auto simp: with_base_def try_catch_def bnd_def b ret_def throw_def)+
qed

lemma with_base_ok: "body s = (Inr (), u) \<Longrightarrow> with_base P h body s = (Inr h, u)"
  by (simp add: with_base_def try_catch_def bnd_Inr ret_def)

lemma with_base_bad: "body s = (Inl e, u) \<Longrightarrow> \<not> is_ok (fst (with_base P h body s))"
  by (auto simp: with_base_def try_catch_def bnd_def throw_def split: prod.splits sum.splits)

lemma with_base_throws:
  "body s = (Inl e, u) \<Longrightarrow> FileDescriptor_destructor P h u = (Inr (), t) \<Longrightarrow> with_base P h body s = (Inl e, t)"
  by (simp add: with_base_def try_catch_def bnd_def throw_def)

lemma FileDescriptor_new_eq:
  "FileDescriptor_new fd s =
     (if fd < 0 then (Inl (RuntimeError (''invalid fd number:'' @ string_of_int fd)), s)
      else (Inr (next_handle s), s\<lparr>wrappers := (wrappers s)(next_handle s := Some
              \<lparr>w_fd = fd, w_eof = False, w_closed = False, w_read_count = 0, w_write_count = 0\<rparr>),
            use_count := (use_count s)(next_handle s := 1), next_handle := Suc (next_handle s)\<rparr>))"
  by (simp add: FileDescriptor_new_def FDWrapper_init_def prog_defs)

lemma next_handle_free: "process_inv s \<Longrightarrow> wrappers s (next_handle s) = None \<and> use_count s (next_handle s) = 0"
  using process_inv_None [of s "next_handle s"] process_inv_Some [of s "next_handle s"]
  by (cases "wrappers s (next_handle s)") auto

text \<open>What \<^verbatim>\<open>SystemCall\<close> lets pass.\<close>

definition call_ok :: "sysret \<Rightarrow> bool" where
  "call_ok r \<longleftrightarrow> 0 \<le> sr_val r \<or> sr_errno r = 0"

lemma register_read_eq:
  "wrappers s h = Some w \<Longrightarrow> FileDescriptor_register_read h s =
     (Inr (), s\<lparr>wrappers := (wrappers s)(h := Some (w\<lparr>w_read_count := w_read_count w + 1\<rparr>))\<rparr>)"
  by (simp add: FileDescriptor_register_read_def modify_wrapper_Some)

lemma register_write_eq:
  "wrappers s h = Some w \<Longrightarrow> FileDescriptor_register_write h s =
     (Inr (), s\<lparr>wrappers := (wrappers s)(h := Some (w\<lparr>w_write_count := w_write_count w + 1\<rparr>))\<rparr>)"
  by (simp add: FileDescriptor_register_write_def modify_wrapper_Some)

subsection \<open>A small kernel\<close>

text \<open>
  A concrete kernel on which the properties are exercised: one pipe that takes at most two
  bytes per \<^verbatim>\<open>writev\<close> and gives back what was put in, the status flags of its descriptor,
  and the descriptors that were closed; closing one twice fails with \<^verbatim>\<open>EBADF\<close>.
\<close>

record demo_world =
  pipe :: bytes
  status_flags :: int
  closed_fds :: "int list"

definition demo_kernel :: "'m demo_world_scheme posix" where
  "demo_kernel =
     \<lparr>sys_close = (\<lambda>fd W. if fd \<in> set (closed_fds W) then (\<lparr>sr_val = - 1, sr_errno = 9\<rparr>, W)
                           else (\<lparr>sr_val = 0, sr_errno = 0\<rparr>, W\<lparr>closed_fds := fd # closed_fds W\<rparr>)),
      sys_read = (\<lambda>fd buf W. let k = min (length buf) (length (pipe W)) in
        ((\<lparr>sr_val = int k, sr_errno = 0\<rparr>, take k (pipe W) @ drop k buf), W\<lparr>pipe := drop k (pipe W)\<rparr>)),
      sys_writev = (\<lambda>fd iov W. let k = min 2 (length (iovec_bytes iov)) in
        (\<lparr>sr_val = int k, sr_errno = 0\<rparr>, W\<lparr>pipe := pipe W @ take k (iovec_bytes iov)\<rparr>)),
      sys_fcntl = (\<lambda>fd cmd W. case cmd of
          F_GETFL \<Rightarrow> (\<lparr>sr_val = status_flags W, sr_errno = 0\<rparr>, W)
        | F_SETFL flags \<Rightarrow> (\<lparr>sr_val = 0, sr_errno = 0\<rparr>, W\<lparr>status_flags := flags\<rparr>)),
      sys_poll = (\<lambda>pfds timeout W. ((\<lparr>sr_val = int (length pfds), sr_errno = 0\<rparr>,
        map (\<lambda>p. p\<lparr>pfd_revents := pfd_events p\<rparr>) pfds), W)),
      sys_strerror = (\<lambda>_. ''Bad file descriptor'')\<rparr>"

definition demo_start :: demo_world where
  "demo_start = \<lparr>pipe = [], status_flags = 2, closed_fds = []\<rparr>"

definition demo_process :: "demo_world process" where
  "demo_process = snd (FileDescriptor_new 3 (init_process demo_start))"

lemma demo_process_simps [simp]:
  "wrappers demo_process 0 =
     Some \<lparr>w_fd = 3, w_eof = False, w_closed = False, w_read_count = 0, w_write_count = 0\<rparr>"
  "use_count demo_process 0 = 1" "world demo_process = demo_start" "cerr demo_process = []"
  by (simp_all add: demo_process_def FileDescriptor_new_def FDWrapper_init_def init_process_def prog_defs)

lemma demo_kernel_simps:
  "sys_close demo_kernel fd W =
     (if fd \<in> set (closed_fds W) then (\<lparr>sr_val = - 1, sr_errno = 9\<rparr>, W)
      else (\<lparr>sr_val = 0, sr_errno = 0\<rparr>, W\<lparr>closed_fds := fd # closed_fds W\<rparr>))"
  "sys_read demo_kernel fd buf W =
     (let k = min (length buf) (length (pipe W)) in
        ((\<lparr>sr_val = int k, sr_errno = 0\<rparr>, take k (pipe W) @ drop k buf), W\<lparr>pipe := drop k (pipe W)\<rparr>))"
  "sys_fcntl demo_kernel fd F_GETFL W = (\<lparr>sr_val = status_flags W, sr_errno = 0\<rparr>, W)"
  "sys_fcntl demo_kernel fd (F_SETFL flags) W = (\<lparr>sr_val = 0, sr_errno = 0\<rparr>, W\<lparr>status_flags := flags\<rparr>)"
  "sys_poll demo_kernel pfds timeout W =
     ((\<lparr>sr_val = int (length pfds), sr_errno = 0\<rparr>, map (\<lambda>p. p\<lparr>pfd_revents := pfd_events p\<rparr>) pfds), W)"
  by (simp_all add: demo_kernel_def)

lemma demo_kernel_writev:
  "writev_sends demo_kernel fd (\<lambda>_. True) pipe" "writev_accepts demo_kernel fd (\<lambda>_. True)"
  by (auto simp: writev_sends_def writev_accepts_def demo_kernel_def Let_def min_def split: if_splits)

subsection \<open>Properties\<close>

text \<open>
  C2: On a connection that is up, what \<^verbatim>\<open>write\<close> sends is a prefix of the buffer's bytes, in order and without gaps, whether
  it returns or throws, and over any number of partial \<^verbatim>\<open>writev\<close>s; when it returns, the result is the
  number of bytes sent, and that is all of them if \<^verbatim>\<open>write_all\<close> was asked for.
\<close>

theorem write_delivers:
  assumes "wrappers s h = Some w" and "writev_sends P (w_fd w) up sent" and "up (world s)"
  shows "\<exists>k \<le> BufferViewList_size buffer.
           sent (world (snd (FileDescriptor_write P h buffer write_all s))) =
             sent (world s) @ take k (concat (views buffer)) \<and>
           (case fst (FileDescriptor_write P h buffer write_all s) of
              Inl _ \<Rightarrow> True
            | Inr n \<Rightarrow> n = k \<and> (write_all \<longrightarrow> k = BufferViewList_size buffer))"
proof -
  obtain r t where "FileDescriptor_write P h buffer write_all s = (r, t)"
    by (cases "FileDescriptor_write P h buffer write_all s")
  with write_loop_sends [OF assms, of write_all buffer 0 r t, unfolded add_0] show ?thesis
    by (cases r) (auto simp: FileDescriptor_write_def)
qed

theorem write_delivers_witness:
  "\<exists>k \<le> 5. pipe (world (snd (FileDescriptor_write demo_kernel 0
       (BufferViewList_of_string [1, 2, 3, 4, 5]) True demo_process))) = take k [1, 2, 3, 4, 5]"
  using write_delivers [OF demo_process_simps(1) demo_kernel_writev(1) TrueI,
      of "BufferViewList_of_string [1, 2, 3, 4, 5]" True]
  by (auto simp: demo_start_def BufferViewList_of_string_def BufferViewList_size_def numeral_eq_Suc)

text \<open>
  C3: On a connection that is up, in blocking mode, \<^verbatim>\<open>write\<close> with \<^verbatim>\<open>write_all\<close> of a buffer that \<^verbatim>\<open>writev\<close> takes (at least one and at most
  \<^verbatim>\<open>IOV_MAX\<close> views, as every string has) returns, and has then sent exactly the whole buffer, over any number of
  partial writes.
\<close>

theorem write_all_returns:
  assumes "wrappers s h = Some w" and "writev_sends P (w_fd w) up sent" and "writev_accepts P (w_fd w) up"
    and "up (world s)" and "0 < length (views buffer)" and "length (views buffer) \<le> IOV_MAX" and "BufferViewList_size buffer < 2 ^ 63"
  shows "\<exists>t. FileDescriptor_write P h buffer True s = (Inr (BufferViewList_size buffer), t) \<and>
           sent (world t) = sent (world s) @ concat (views buffer)"
proof -
  have size: "BufferViewList_size buffer = length (concat (views buffer))"
    by (rule vlist.size_of_contents) simp
  have "iov_valid (BufferViewList_as_iovecs buffer)"
    using assms(5-7) size by (simp add: iov_valid_def iovec_bytes_as_iovecs) (simp add: as_iovecs_map)
  from write_loop_accepted [OF assms(1-4) this, of True 0] obtain n t where
    loop: "write_loop P h True buffer 0 s = (Inr n, t)"
    by (metis is_ok_iff prod.collapse)
  from write_loop_sends [OF assms(1,2,4) loop] loop size show ?thesis
    by (auto simp: FileDescriptor_write_def)
qed

theorem write_all_returns_witness:
  "\<exists>t. FileDescriptor_write demo_kernel 0 (BufferViewList_of_string [1, 2, 3, 4, 5]) True demo_process = (Inr 5, t) \<and>
       pipe (world t) = [1, 2, 3, 4, 5]"
proof -
  let ?b = "BufferViewList_of_string [1, 2, 3, 4, 5]"
  have b: "0 < length (views ?b)" "length (views ?b) \<le> IOV_MAX" "BufferViewList_size ?b = 5" "concat (views ?b) = [1, 2, 3, 4, 5]"
    by (simp_all add: BufferViewList_of_string_def BufferViewList_size_def IOV_MAX_def)
  then have "BufferViewList_size ?b < 2 ^ 63" by simp
  from write_all_returns [OF demo_process_simps(1) demo_kernel_writev TrueI b(1,2) this] show ?thesis
    unfolding b by (simp add: demo_start_def)
qed

text \<open>
  C38: A buffer of more than \<^verbatim>\<open>IOV_MAX\<close> views, such as a \<^verbatim>\<open>BufferList\<close> of that many parts, cannot be written: \<^verbatim>\<open>write\<close> hands all of the views to
  one \<^verbatim>\<open>writev\<close>, which on a kernel that refuses such an array with \<^verbatim>\<open>EINVAL\<close>, as documented, is thrown. Nothing is sent and no write is
  counted, with \<^verbatim>\<open>write_all\<close> and without.
\<close>

theorem write_many_views_fails:
  assumes "wrappers s h = Some w" and "writev_sends P (w_fd w) up sent" and "up (world s)"
    and "\<And>iov W. IOV_MAX < length iov \<Longrightarrow> fst (sys_writev P (w_fd w) iov W) = \<lparr>sr_val = - 1, sr_errno = 22\<rparr>"
    and "IOV_MAX < length (views buffer)"
  shows "\<exists>W. FileDescriptor_write P h buffer write_all s = (Inl (UnixError ''writev'' 22), s\<lparr>world := W\<rparr>) \<and> sent W = sent (world s)"
proof -
  let ?iov = "BufferViewList_as_iovecs buffer"
  have "fst (sys_writev P (w_fd w) ?iov (world s)) = \<lparr>sr_val = - 1, sr_errno = 22\<rparr>"
    using assms(4,5) by (simp add: as_iovecs_map)
  then obtain W where sys: "sys_writev P (w_fd w) ?iov (world s) = (\<lparr>sr_val = - 1, sr_errno = 22\<rparr>, W)" by (metis prod.collapse)
  note D = writev_sendsD [OF assms(2,3) sys]
  have "write_once P h buffer s = (Inl (UnixError ''writev'' 22), s\<lparr>world := W\<rparr>)"
    using D(2) by (simp add: write_once_eq [OF assms(1) sys])
  then show ?thesis using D(3) by (intro exI [of _ W]) (simp add: FileDescriptor_write_def write_loop_Inl)
qed

text \<open>The kernel of the examples, with the limit.\<close>

definition limited_kernel :: "demo_world posix" where
  "limited_kernel = demo_kernel\<lparr>sys_writev := \<lambda>fd iov W.
     if IOV_MAX < length iov then (\<lparr>sr_val = - 1, sr_errno = 22\<rparr>, W) else sys_writev demo_kernel fd iov W\<rparr>"

theorem write_many_views_fails_witness:
  "fst (FileDescriptor_write limited_kernel 0 \<lparr>views = replicate 1025 [7]\<rparr> True demo_process) = Inl (UnixError ''writev'' 22)"
proof -
  have "writev_sends limited_kernel 3 (\<lambda>_. True) pipe"
    using demo_kernel_writev(1) [of 3] unfolding writev_sends_def limited_kernel_def by (auto split: if_splits)
  moreover have "fst (sys_writev limited_kernel 3 iov W) = \<lparr>sr_val = - 1, sr_errno = 22\<rparr>" if "IOV_MAX < length iov" for iov W
    using that by (simp add: limited_kernel_def)
  moreover have "IOV_MAX < length (views \<lparr>views = replicate 1025 [7 :: byte]\<rparr>)" by (simp add: IOV_MAX_def)
  ultimately show ?thesis
    using write_many_views_fails [OF demo_process_simps(1), of limited_kernel "\<lambda>_. True" pipe "\<lparr>views = replicate 1025 [7]\<rparr>" True] by auto
qed

text \<open>
  C21: \<^verbatim>\<open>read(str, limit)\<close>, for every answer \<^verbatim>\<open>read(2)\<close> can give for the array of
  \<^verbatim>\<open>min(1 MiB, limit)\<close> bytes it is passed: an error is thrown as a \<^verbatim>\<open>unix_error\<close>,
  changes no flag or counter, and leaves the caller's string as the whole array (not as it was: the array is the string, resized); otherwise the
  string is exactly the bytes the kernel reported, the read is counted, and the EOF flag is set exactly when 0 bytes came and some were
  asked for (and otherwise stays).
\<close>

theorem read_spec:
  assumes "wrappers s h = Some w"
    and "sys_read P (w_fd w) (take (min (1024 * 1024) limit) str @
        replicate (min (1024 * 1024) limit - length str) 0) (world s) = ((r, buf), W)"
    and "read_answer r (min (1024 * 1024) limit)" and "length buf = min (1024 * 1024) limit"
  shows "FileDescriptor_read_into P h limit (s, str) =
    (if sr_val r < 0 then (Inl (UnixError ''read'' (sr_errno r)), s\<lparr>world := W\<rparr>, buf)
     else (Inr (),
           s\<lparr>world := W, wrappers := (wrappers s)(h := Some
             (w\<lparr>w_eof := w_eof w \<or> (limit > 0 \<and> sr_val r = 0), w_read_count := w_read_count w + 1\<rparr>))\<rparr>,
           take (nat (sr_val r)) buf))"
  using assms by (intro read_into_var) (simp_all add: BUFFER_SIZE_def)

theorem read_spec_witness:
  "FileDescriptor_read_into demo_kernel 0 3 (demo_process, [7]) =
     (Inr (), demo_process\<lparr>wrappers := (wrappers demo_process)(0 := Some
        \<lparr>w_fd = 3, w_eof = True, w_closed = False, w_read_count = 1, w_write_count = 0\<rparr>)\<rparr>, [])"
proof -
  have two: "replicate 2 (0 :: byte) = [0, 0]" by (simp add: numeral_2_eq_2)
  have "sys_read demo_kernel (w_fd \<lparr>w_fd = 3, w_eof = False, w_closed = False, w_read_count = 0, w_write_count = 0\<rparr>)
      (take (min (1024 * 1024) 3) [7] @ replicate (min (1024 * 1024) 3 - length [7 :: byte]) 0) (world demo_process) =
      ((\<lparr>sr_val = 0, sr_errno = 0\<rparr>, [7, 0, 0]), world demo_process)"
    by (simp add: demo_kernel_simps demo_start_def two)
  from read_spec [OF demo_process_simps(1) this] show ?thesis
    by (simp add: read_answer_def)
qed

text \<open>
  C12: Giving up a use of a descriptor never throws. While other uses remain it makes no system
  call and changes nothing but the count; the last use calls \<^verbatim>\<open>close\<close> on the descriptor's
  number exactly when it has not been closed before, reports a failure of that call on
  \<^verbatim>\<open>cerr\<close>, and frees the wrapper.
\<close>

theorem destructor_spec:
  assumes "process_inv s" and "wrappers s h = Some w" and "sys_close P (w_fd w) (world s) = (r, W)"
    and "FileDescriptor_destructor P h s = (res, t)"
  shows "res = Inr () \<and>
    (if use_count s h > 1 then t = s\<lparr>use_count := (use_count s)(h := use_count s h - 1)\<rparr>
     else wrappers t = (wrappers s)(h := None) \<and> use_count t = (use_count s)(h := 0) \<and>
          world t = (if w_closed w then world s else W) \<and>
          cerr t = (if w_closed w \<or> 0 \<le> sr_val r \<or> sr_errno r = 0 then cerr s
                    else cerr s @ ''Exception destructing FDWrapper: close: '' @
                         sys_strerror P (sr_errno r) @ ''\<newline>''))"
proof (cases "use_count s h > 1")
  case True
  with assms destructor_shared [OF assms(2) True, of P] show ?thesis by simp
next
  case False
  obtain r1 t1 where d: "FDWrapper_destructor P h s = (r1, t1)" by (cases "FDWrapper_destructor P h s")
  with FDWrapper_destructor_rest [of h s P] have "rest_is h s t1" by simp
  then have "(wrappers t1)(h := None) = (wrappers s)(h := None)" "use_count t1 = use_count s"
    by (auto simp: rest_is_def)
  moreover have "world t1 = (if w_closed w then world s else W)"
    "cerr t1 = (if w_closed w \<or> 0 \<le> sr_val r \<or> sr_errno r = 0 then cerr s
                else cerr s @ ''Exception destructing FDWrapper: close: '' @
                     sys_strerror P (sr_errno r) @ ''\<newline>'')"
    using d FDWrapper_destructor_closed [OF assms(2), of P] FDWrapper_destructor_open [OF assms(2) _ assms(3)]
    by (cases "w_closed w"; simp)+
  ultimately show ?thesis
    using destructor_last [OF assms(2) _ d] False assms(4) by auto
qed

theorem destructor_spec_witness:
  "\<exists>t. FileDescriptor_destructor demo_kernel 0 demo_process = (Inr (), t) \<and>
       closed_fds (world t) = [3] \<and> wrappers t 0 = None \<and> cerr t = []"
proof -
  obtain res t where d: "FileDescriptor_destructor demo_kernel 0 demo_process = (res, t)"
    by (cases "FileDescriptor_destructor demo_kernel 0 demo_process")
  have inv: "process_inv demo_process"
    unfolding demo_process_def by (intro keepsD [OF keeps_new] process_inv_init)
  show ?thesis
    using destructor_spec [OF inv demo_process_simps(1), of demo_kernel "\<lparr>sr_val = 0, sr_errno = 0\<rparr>"
        "demo_start\<lparr>closed_fds := [3]\<rparr>" res t] d
    by (simp add: demo_kernel_simps demo_start_def)
qed

text \<open>
  \<^verbatim>\<open>set_blocking\<close> reads the status flags and writes them back with the
  \<^verbatim>\<open>O_NONBLOCK\<close> bit cleared (blocking) or set (non-blocking) and every other bit as it was;
  a failure of either \<^verbatim>\<open>fcntl\<close> is thrown, and no flags are written after a failed read.
\<close>

theorem set_blocking_spec:
  assumes "wrappers s h = Some w" and "sys_fcntl P (w_fd w) F_GETFL (world s) = (r, W)"
  shows "if sr_val r < 0 \<and> sr_errno r \<noteq> 0
    then FileDescriptor_set_blocking P h blocking_state s =
           (Inl (UnixError ''fcntl'' (sr_errno r)), s\<lparr>world := W\<rparr>)
    else \<exists>flags. (\<forall>i. bit flags i \<longleftrightarrow> (if i = 11 then \<not> blocking_state else bit (sr_val r) i)) \<and>
           (\<forall>r' W'. sys_fcntl P (w_fd w) (F_SETFL flags) W = (r', W') \<longrightarrow>
              FileDescriptor_set_blocking P h blocking_state s =
                (if sr_val r' < 0 \<and> sr_errno r' \<noteq> 0
                 then Inl (UnixError ''fcntl'' (sr_errno r')) else Inr (), s\<lparr>world := W'\<rparr>))"
  using assms
  by (auto simp: FileDescriptor_set_blocking_def FileDescriptor_fd_num_def bnd_Inr get_wrapper_Some
      ret_def syscall_eq SystemCall_def throw_def bit_blocking_flags
      intro!: exI [of _ "blocking_flags blocking_state (sr_val r)"])

theorem set_blocking_spec_witness:
  "FileDescriptor_set_blocking demo_kernel 0 False demo_process =
     (Inr (), demo_process\<lparr>world := demo_start\<lparr>status_flags := 2050\<rparr>\<rparr>)"
proof -
  have "sys_fcntl demo_kernel 3 F_GETFL (world demo_process) = (\<lparr>sr_val = 2, sr_errno = 0\<rparr>, demo_start)"
    by (simp add: demo_kernel_simps demo_start_def)
  with set_blocking_spec [OF demo_process_simps(1), of demo_kernel "\<lparr>sr_val = 2, sr_errno = 0\<rparr>" demo_start False]
  obtain flags where bits: "\<forall>i. bit flags i \<longleftrightarrow>
        (if i = 11 then \<not> False else bit (sr_val \<lparr>sr_val = 2, sr_errno = 0\<rparr>) i)"
    and set: "FileDescriptor_set_blocking demo_kernel 0 False demo_process =
      (Inr (), demo_process\<lparr>world := demo_start\<lparr>status_flags := flags\<rparr>\<rparr>)"
    by (auto simp: demo_kernel_simps)
  from bits have "flags = blocking_flags False 2" by (intro bit_eqI) (simp add: bit_blocking_flags)
  also have "\<dots> = 2050" by (simp add: blocking_flags_def O_NONBLOCK_def)
  finally show ?thesis using set by simp
qed

text \<open>
  C11: In every process state a program can reach by creating, duplicating, using and destroying
  descriptors, against any kernel: a wrapper exists exactly while some descriptor uses it, its
  number is not negative and a closed one is at EOF; and no operation through a descriptor that
  is still held is undefined, nor does it disturb the use counts.
\<close>

theorem reachable_handles_safe:
  assumes "(fd_step P)\<^sup>*\<^sup>* (init_process W) s"
  shows "(\<forall>h. wrappers s h = None \<longleftrightarrow> use_count s h = 0) \<and>
    (\<forall>h w. wrappers s h = Some w \<longrightarrow> 0 \<le> w_fd w \<and> (w_closed w \<longrightarrow> w_eof w)) \<and>
    (\<forall>h str limit buffer write_all b. 0 < use_count s h \<longrightarrow>
       \<not> undefined_behaviour (fst (FileDescriptor_read_into P h limit (s, str))) \<and>
       \<not> undefined_behaviour (fst (FileDescriptor_write P h buffer write_all s)) \<and>
       \<not> undefined_behaviour (fst (FileDescriptor_close P h s)) \<and>
       \<not> undefined_behaviour (fst (FileDescriptor_set_blocking P h b s)) \<and>
       fst (FileDescriptor_duplicate h s) = Inr h \<and>
       fst (FileDescriptor_destructor P h s) = Inr () \<and>
       use_count (fst (snd (FileDescriptor_read_into P h limit (s, str)))) = use_count s \<and>
       use_count (snd (FileDescriptor_write P h buffer write_all s)) = use_count s)"
proof -
  from assms have inv: "process_inv s" by (rule reachable_inv)
  note none = process_inv_None [OF inv]
  have some: "wrappers s h = Some w \<Longrightarrow> 0 \<le> w_fd w \<and> (w_closed w \<longrightarrow> w_eof w)" for h w
    using process_inv_Some [OF inv] by (simp add: wrapper_inv_def)
  have live: "wrappers s h \<noteq> None" and dup: "fst (FileDescriptor_duplicate h s) = Inr h"
    and des: "fst (FileDescriptor_destructor P h s) = Inr ()" if "0 < use_count s h" for h
    using that none [of h] by (auto simp: duplicate_eq destructor_ret)
  have counts: "use_count (fst (snd (FileDescriptor_read_into P h limit (s, str)))) = use_count s"
    "use_count (snd (FileDescriptor_write P h buffer write_all s)) = use_count s"
    for h str limit buffer write_all
    unfolding local_read_into
    by (rule fd_read.oper_live [OF inv prod.collapse [symmetric]],
        rule fd_write.oper_live [OF inv prod.collapse [symmetric]])
  have read: "\<not> undefined_behaviour (fst (FileDescriptor_read_into P h limit (s, str)))" if "wrappers s h \<noteq> None" for h limit str
    using safe_at_defined [OF safe_read that, of str P limit] local_read_into(1) [of P h limit s str]
    by (cases "fst (FileDescriptor_read_into P h limit (s, str))") (metis undefined_behaviour.simps)+
  show ?thesis
    using none some
    by (simp add: live dup des counts read safe_at_defined [OF safe_write]
        safe_at_defined [OF safe_close] safe_at_defined [OF safe_set_blocking])
qed

theorem reachable_handles_safe_witness:
  "fst (FileDescriptor_duplicate 0 demo_process) = Inr 0"
proof -
  have "(fd_step demo_kernel)\<^sup>*\<^sup>* (init_process demo_start) demo_process"
    unfolding demo_process_def by (intro r_into_rtranclp fd_step.new)
  from reachable_handles_safe [OF this] show ?thesis by simp
qed

end
