(* ===== verification/EventLoop.thy ===== *)
theory EventLoop
  imports File_Descriptor
begin

text \<open>
  \<^verbatim>\<open>util/eventloop.hh\<close> and \<^verbatim>\<open>util/eventloop.cc\<close>. The state of a loop is its list of rules and
  the process it runs in. A rule names its three \<^verbatim>\<open>std::function\<close>s; what they do is client code, a
  parameter of the model (\<open>client\<close>): programs on the whole state of the loop, so that they can use
  any descriptor and call \<^verbatim>\<open>add_rule\<close>. The iterator of a loop over \<^verbatim>\<open>_rules\<close> is a
  position in the list, which \<^verbatim>\<open>push_back\<close> does not move; \<^verbatim>\<open>_rules\<close> is private, and no
  other operation than \<^verbatim>\<open>add_rule\<close> is available to a callback, short of calling
  \<^verbatim>\<open>wait_next_event\<close> from inside itself, which is not modelled.

  Because \<^verbatim>\<open>interest\<close> and \<^verbatim>\<open>cancel\<close> may add rules while the first loop of
  \<^verbatim>\<open>wait_next_event\<close> is still running, that loop may go on forever: it is a partial function,
  and \<open>None\<close> is a run that does not end.
\<close>

subsection \<open>State\<close>

datatype Direction = In | Out

definition POLLIN :: uint16 where "POLLIN = 0x001"
definition POLLOUT :: uint16 where "POLLOUT = 0x004"
definition POLLERR :: uint16 where "POLLERR = 0x008"
definition POLLHUP :: uint16 where "POLLHUP = 0x010"
definition POLLNVAL :: uint16 where "POLLNVAL = 0x020"

lemmas poll_defs = POLLIN_def POLLOUT_def POLLERR_def POLLHUP_def POLLNVAL_def

definition EINTR :: int where "EINTR = 4"

fun direction_events :: "Direction \<Rightarrow> uint16" where
  "direction_events In = POLLIN"
| "direction_events Out = POLLOUT"

record 'c Rule =
  rule_fd :: handle
  rule_direction :: Direction
  rule_callback :: 'c
  rule_interest :: 'c
  rule_cancel :: 'c

record ('w, 'c) EventLoop =
  rules :: "'c Rule list"
  proc :: "'w process"

record ('w, 'c) client =
  call :: "'c \<Rightarrow> (('w, 'c) EventLoop, unit) prog"
  ask :: "'c \<Rightarrow> (('w, 'c) EventLoop, bool) prog"

datatype Result = Success | Timeout | Exit

text \<open>An operation of the process, inside the loop's state.\<close>

definition on_proc :: "('w process, 'a) prog \<Rightarrow> (('w, 'c) EventLoop, 'a) prog" where
  "on_proc m s = (let (r, p) = m (proc s) in (r, s\<lparr>proc := p\<rparr>))"

subsection \<open>Operations\<close>

definition service_count :: "'c Rule \<Rightarrow> (('w, 'c) EventLoop, uint32) prog" where
  "service_count rule = on_proc
     (case rule_direction rule of
        In \<Rightarrow> FileDescriptor_read_count (rule_fd rule)
      | Out \<Rightarrow> FileDescriptor_write_count (rule_fd rule))"

definition add_rule :: "handle \<Rightarrow> Direction \<Rightarrow> 'c \<Rightarrow> 'c \<Rightarrow> 'c \<Rightarrow> (('w, 'c) EventLoop, unit) prog" where
  "add_rule fd direction callback interest cancel =
     bnd (on_proc (FileDescriptor_duplicate fd)) (\<lambda>h.
     modify (\<lambda>s. s\<lparr>rules := rules s @
       [\<lparr>rule_fd = h, rule_direction = direction, rule_callback = callback,
         rule_interest = interest, rule_cancel = cancel\<rparr>]\<rparr>))"

text \<open>\<^verbatim>\<open>_rules.erase(it)\<close>: unlink the rule and destroy it, its FileDescriptor with it.\<close>

definition erase_rule :: "('w, 'z) posix_scheme \<Rightarrow> nat \<Rightarrow> (('w, 'c) EventLoop, unit) prog" where
  "erase_rule P i =
     bnd (gets (\<lambda>s. rule_fd (rules s ! i))) (\<lambda>h.
     bnd (modify (\<lambda>s. s\<lparr>rules := take i (rules s) @ drop (Suc i) (rules s)\<rparr>)) (\<lambda>_.
     on_proc (FileDescriptor_destructor P h)))"

definition cancel_rule ::
  "('w, 'z) posix_scheme \<Rightarrow> ('w, 'c) client \<Rightarrow> nat \<Rightarrow> 'c Rule \<Rightarrow> (('w, 'c) EventLoop, unit) prog" where
  "cancel_rule P C i rule = bnd (call C (rule_cancel rule)) (\<lambda>_. erase_rule P i)"

text \<open>
  One iteration of the loop that sets up the \<^verbatim>\<open>pollfd\<close>s: the next position, the
  \<^verbatim>\<open>pollfd\<close>s so far, and \<^verbatim>\<open>something_to_poll\<close>.
\<close>

definition setup_step ::
  "('w, 'z) posix_scheme \<Rightarrow> ('w, 'c) client \<Rightarrow> nat \<Rightarrow> pollfd list \<Rightarrow> bool \<Rightarrow>
     (('w, 'c) EventLoop, nat \<times> pollfd list \<times> bool) prog" where
  "setup_step P C i pollfds something_to_poll =
     bnd (gets (\<lambda>s. rules s ! i)) (\<lambda>rule.
     bnd (on_proc (FileDescriptor_eof (rule_fd rule))) (\<lambda>eof.
     if rule_direction rule = In \<and> eof
     then bnd (cancel_rule P C i rule) (\<lambda>_. ret (i, pollfds, something_to_poll))
     else
       bnd (on_proc (FileDescriptor_closed (rule_fd rule))) (\<lambda>closed.
       if closed
       then bnd (cancel_rule P C i rule) (\<lambda>_. ret (i, pollfds, something_to_poll))
       else
         bnd (ask C (rule_interest rule)) (\<lambda>interested.
         bnd (on_proc (FileDescriptor_fd_num (rule_fd rule))) (\<lambda>fd.
         if interested
         then ret (Suc i, pollfds @ [\<lparr>pfd_fd = fd, pfd_events = direction_events (rule_direction rule),
                                      pfd_revents = 0\<rparr>], True)
         else ret (Suc i, pollfds @ [\<lparr>pfd_fd = fd, pfd_events = 0, pfd_revents = 0\<rparr>],
                   something_to_poll))))))"

partial_function (option) setup_loop ::
  "('w, 'z) posix_scheme \<Rightarrow> ('w, 'c) client \<Rightarrow> nat \<Rightarrow> pollfd list \<Rightarrow> bool \<Rightarrow> ('w, 'c) EventLoop \<Rightarrow>
     ((pollfd list \<times> bool) result \<times> ('w, 'c) EventLoop) option" where
  "setup_loop P C i pollfds something_to_poll s =
     (if i < length (rules s)
      then case setup_step P C i pollfds something_to_poll s of
             (Inl e, t) \<Rightarrow> Some (Inl e, t)
           | (Inr (i', pollfds', something), t) \<Rightarrow> setup_loop P C i' pollfds' something t
      else Some (Inr (pollfds, something_to_poll), s))"

text \<open>
  One iteration of the loop over the answers of \<^verbatim>\<open>poll\<close>, for the rule at position \<open>i\<close>: the
  next position.
\<close>

definition results_step ::
  "('w, 'z) posix_scheme \<Rightarrow> ('w, 'c) client \<Rightarrow> nat \<Rightarrow> pollfd \<Rightarrow> (('w, 'c) EventLoop, nat) prog" where
  "results_step P C i this_pollfd =
     (if pfd_revents this_pollfd AND (POLLERR OR POLLNVAL) \<noteq> 0
      then throw (RuntimeError ''EventLoop: error on polled file descriptor'')
      else
        bnd (gets (\<lambda>s. rules s ! i)) (\<lambda>rule.
        let poll_ready = (pfd_revents this_pollfd AND pfd_events this_pollfd \<noteq> 0);
            poll_hup = (pfd_revents this_pollfd AND POLLHUP \<noteq> 0) in
        if poll_hup \<and> pfd_events this_pollfd \<noteq> 0 \<and> \<not> poll_ready
        then bnd (cancel_rule P C i rule) (\<lambda>_. ret i)
        else if poll_ready
        then
          bnd (service_count rule) (\<lambda>count_before.
          bnd (call C (rule_callback rule)) (\<lambda>_.
          bnd (service_count rule) (\<lambda>count_after.
          if count_before = count_after
          then
            bnd (ask C (rule_interest rule)) (\<lambda>interested.
            if interested
            then throw (RuntimeError ''EventLoop: busy wait detected: callback did not read/write fd and is still interested'')
            else ret (Suc i))
          else ret (Suc i))))
        else ret (Suc i)))"

text \<open>
  The loop itself: the list of \<^verbatim>\<open>pollfd\<close>s is consumed one per iteration, and an iteration
  that finds none left reads \<^verbatim>\<open>pollfds[idx]\<close> outside the vector.
\<close>

fun results_loop ::
  "('w, 'z) posix_scheme \<Rightarrow> ('w, 'c) client \<Rightarrow> nat \<Rightarrow> pollfd list \<Rightarrow> (('w, 'c) EventLoop, unit) prog" where
  "results_loop P C i [] =
     bnd (gets (\<lambda>s. i < length (rules s))) (\<lambda>more.
     if more then throw (UndefinedBehaviour ''pollfds[idx] out of range'') else ret ())"
| "results_loop P C i (this_pollfd # pollfds) =
     bnd (gets (\<lambda>s. i < length (rules s))) (\<lambda>more.
     if more then bnd (results_step P C i this_pollfd) (\<lambda>i'. results_loop P C i' pollfds) else ret ())"

definition poll_and_serve ::
  "('w, 'z) posix_scheme \<Rightarrow> ('w, 'c) client \<Rightarrow> int \<Rightarrow> pollfd list \<Rightarrow> (('w, 'c) EventLoop, Result) prog" where
  "poll_and_serve P C timeout_ms pollfds =
     bnd (on_proc (syscall (sys_poll P pollfds timeout_ms))) (\<lambda>(r, pollfds').
     let serve = bnd (results_loop P C 0 pollfds') (\<lambda>_. ret Success) in
     case SystemCall ''poll'' (sr_val r) (sr_errno r) 0 of
       Inr v \<Rightarrow> if v = 0 then ret Timeout else serve
     | Inl e \<Rightarrow> (case e of UnixError _ code \<Rightarrow> if code = EINTR then ret Exit else serve | _ \<Rightarrow> throw e))"

definition wait_next_event ::
  "('w, 'z) posix_scheme \<Rightarrow> ('w, 'c) client \<Rightarrow> int \<Rightarrow> ('w, 'c) EventLoop \<Rightarrow>
     (Result result \<times> ('w, 'c) EventLoop) option" where
  "wait_next_event P C timeout_ms s =
     (case setup_loop P C 0 [] False s of
        None \<Rightarrow> None
      | Some (Inl e, t) \<Rightarrow> Some (Inl e, t)
      | Some (Inr (pollfds, something_to_poll), t) \<Rightarrow>
          Some (if \<not> something_to_poll then ret Exit t else poll_and_serve P C timeout_ms pollfds t))"

subsection \<open>Well-formed loops\<close>

text \<open>Every rule holds a use of its descriptor.\<close>

definition rule_uses :: "'c Rule list \<Rightarrow> handle \<Rightarrow> nat" where
  "rule_uses rs h = length (filter (\<lambda>r. rule_fd r = h) rs)"

definition loop_inv :: "('w, 'c) EventLoop \<Rightarrow> bool" where
  "loop_inv s \<longleftrightarrow> process_inv (proc s) \<and> (\<forall>h. rule_uses (rules s) h \<le> use_count (proc s) h)"

lemma rule_uses_simps [simp]:
  "rule_uses [] h = 0"
  "rule_uses (r # rs) h = (if rule_fd r = h then 1 else 0) + rule_uses rs h"
  "rule_uses (rs @ rs') h = rule_uses rs h + rule_uses rs' h"
  by (simp_all add: rule_uses_def)

lemma split_at: "i < length xs \<Longrightarrow> xs = take i xs @ xs ! i # drop (Suc i) xs"
  by (rule id_take_nth_drop)

lemma loop_rule_live:
  assumes "loop_inv s" and "r \<in> set (rules s)"
  obtains w where "wrappers (proc s) (rule_fd r) = Some w"
proof -
  from assms(2) have "0 < rule_uses (rules s) (rule_fd r)"
    by (auto simp: rule_uses_def filter_empty_conv)
  with assms(1) have "process_inv (proc s)" "0 < use_count (proc s) (rule_fd r)"
    by (auto simp: loop_inv_def intro: less_le_trans)
  then show thesis by (rule live_handle) (rule that)
qed

lemma on_proc_eq: "m (proc s) = (r, p) \<Longrightarrow> on_proc m s = (r, s\<lparr>proc := p\<rparr>)"
  by (simp add: on_proc_def)

lemma on_proc_rules [simp]: "rules (snd (on_proc m s)) = rules s"
  by (simp add: on_proc_def split_beta Let_def)

lemma on_proc_proc [simp]: "proc (snd (on_proc m s)) = snd (m (proc s))"
  by (simp add: on_proc_def split_beta Let_def)

lemma on_proc_fst [simp]: "fst (on_proc m s) = fst (m (proc s))"
  by (simp add: on_proc_def split_beta Let_def)

lemma on_proc_id: "m (proc s) = (r, proc s) \<Longrightarrow> on_proc m s = (r, s)"
  by (simp add: on_proc_def)

lemma erase_rule_eq:
  "erase_rule P i s =
     on_proc (FileDescriptor_destructor P (rule_fd (rules s ! i)))
       (s\<lparr>rules := take i (rules s) @ drop (Suc i) (rules s)\<rparr>)"
  by (simp add: erase_rule_def)

lemma erase_rule_rules: "rules (snd (erase_rule P i s)) = take i (rules s) @ drop (Suc i) (rules s)"
  by (simp add: erase_rule_eq)

lemma erase_rule_live:
  assumes "loop_inv s" and "i < length (rules s)"
  obtains w where "wrappers (proc s) (rule_fd (rules s ! i)) = Some w"
    "use_count (proc s) (rule_fd (rules s ! i)) \<noteq> 0"
proof -
  obtain w where w: "wrappers (proc s) (rule_fd (rules s ! i)) = Some w"
    using loop_rule_live [OF assms(1) nth_mem [OF assms(2)]] by blast
  with assms(1) have "use_count (proc s) (rule_fd (rules s ! i)) \<noteq> 0"
    by (metis loop_inv_def option.distinct(1) process_inv_None)
  with w show thesis by (rule that)
qed

lemma erase_rule_ret:
  assumes "loop_inv s" and "i < length (rules s)"
  shows "fst (erase_rule P i s) = Inr ()"
proof -
  obtain w where "wrappers (proc s) (rule_fd (rules s ! i)) = Some w"
    using erase_rule_live [OF assms] .
  then show ?thesis by (simp add: erase_rule_eq destructor_ret)
qed

lemma erase_rule_inv:
  assumes "loop_inv s" and "i < length (rules s)"
  shows "loop_inv (snd (erase_rule P i s))"
proof -
  let ?h = "rule_fd (rules s ! i)"
  obtain w where w: "wrappers (proc s) ?h = Some w" "use_count (proc s) ?h \<noteq> 0"
    using erase_rule_live [OF assms] .
  from assms(1) have inv: "process_inv (proc s)" "\<And>h. rule_uses (rules s) h \<le> use_count (proc s) h"
    by (simp_all add: loop_inv_def)
  have "process_inv (snd (FileDescriptor_destructor P ?h (proc s)))"
    using keeps_destructor inv(1) by (rule keepsD)
  moreover have "rule_uses (rules s) h =
      rule_uses (take i (rules s) @ drop (Suc i) (rules s)) h + (if ?h = h then 1 else 0)" for h
    using arg_cong [OF split_at [OF assms(2)], of "\<lambda>rs. rule_uses rs h"]
    by simp
  with inv(2) have le: "rule_uses (take i (rules s) @ drop (Suc i) (rules s)) h + (if ?h = h then 1 else 0)
      \<le> use_count (proc s) h" for h
    by metis
  have "rule_uses (take i (rules s) @ drop (Suc i) (rules s)) h
      \<le> ((use_count (proc s))(?h := use_count (proc s) ?h - 1)) h" for h
    using le [of h] by (simp del: rule_uses_simps split: if_splits)
  ultimately show ?thesis
    by (simp add: loop_inv_def erase_rule_eq destructor_effect(1) [OF w])
qed

lemma on_proc_inv:
  assumes "keeps process_inv m" and "\<And>p. use_count (snd (m p)) = use_count p" and "loop_inv s"
  shows "loop_inv (snd (on_proc m s))"
  using assms by (auto simp: loop_inv_def intro: keepsD)

text \<open>Adding a rule takes one more use of the descriptor.\<close>

lemma add_rule_eq:
  "add_rule fd d cb intr can s =
     (case wrappers (proc s) fd of
        None \<Rightarrow> (Inl (UndefinedBehaviour ''FileDescriptor: null shared_ptr''), s)
      | Some w \<Rightarrow> (Inr (), s\<lparr>
          proc := (proc s)\<lparr>use_count := (use_count (proc s))(fd := Suc (use_count (proc s) fd))\<rparr>,
          rules := rules s @ [\<lparr>rule_fd = fd, rule_direction = d, rule_callback = cb,
            rule_interest = intr, rule_cancel = can\<rparr>]\<rparr>))"
proof (cases "wrappers (proc s) fd")
  case None
  then show ?thesis
    by (simp add: add_rule_def on_proc_def FileDescriptor_duplicate_def get_wrapper_def bnd_def)
next
  case (Some w)
  with duplicate_eq [OF Some] show ?thesis
    by (simp add: add_rule_def bnd_Inr on_proc_eq modify_def)
qed

lemma add_rule_inv: "keeps loop_inv (add_rule fd d cb intr can)"
proof (rule keepsI)
  fix s :: "('a, 'b) EventLoop" assume inv: "loop_inv s"
  have "process_inv (snd (FileDescriptor_duplicate fd (proc s)))"
    using keeps_duplicate inv by (auto simp: loop_inv_def intro: keepsD)
  with inv show "loop_inv (snd (add_rule fd d cb intr can s))"
    by (cases "wrappers (proc s) fd") (auto simp: add_rule_eq duplicate_eq loop_inv_def le_SucI)
qed

subsection \<open>One iteration, with the rule's descriptor at hand\<close>

definition poll_entry :: "'c Rule \<Rightarrow> int \<Rightarrow> bool \<Rightarrow> pollfd" where
  "poll_entry rule fd interested =
     \<lparr>pfd_fd = fd, pfd_events = (if interested then direction_events (rule_direction rule) else 0),
      pfd_revents = 0\<rparr>"

definition defunct :: "'c Rule \<Rightarrow> FDWrapper \<Rightarrow> bool" where
  "defunct rule w \<longleftrightarrow> rule_direction rule = In \<and> w_eof w \<or> w_closed w"

lemma setup_step_eq:
  assumes "wrappers (proc s) (rule_fd (rules s ! i)) = Some w"
  shows "setup_step P C i pollfds something s =
    (let rule = rules s ! i in
     if defunct rule w then bnd (cancel_rule P C i rule) (\<lambda>_. ret (i, pollfds, something)) s
     else bnd (ask C (rule_interest rule)) (\<lambda>interested.
          bnd (on_proc (FileDescriptor_fd_num (rule_fd rule))) (\<lambda>fd.
          ret (Suc i, pollfds @ [poll_entry rule fd interested], something \<or> interested))) s)"
  using assms
  by (auto simp: setup_step_def bnd_Inr on_proc_id accessor_eq defunct_def Let_def poll_entry_def
      intro!: arg_cong [where f = "\<lambda>k. bnd _ k s"] ext)

lemma service_count_state [simp]: "snd (service_count rule s) = s"
  by (auto simp: service_count_def on_proc_def fd_accessor_defs bnd_def get_wrapper_def ret_def Let_def
      split: Direction.split option.split)

definition wrapper_count :: "'c Rule \<Rightarrow> FDWrapper \<Rightarrow> uint32" where
  "wrapper_count rule w = (case rule_direction rule of In \<Rightarrow> w_read_count w | Out \<Rightarrow> w_write_count w)"

lemma service_count_eq:
  "wrappers (proc s) (rule_fd rule) = Some w \<Longrightarrow> service_count rule s = (Inr (wrapper_count rule w), s)"
  by (auto simp: service_count_def wrapper_count_def on_proc_id accessor_eq split: Direction.split)

text \<open>The three tests on an answer of \<^verbatim>\<open>poll\<close>.\<close>

definition poll_failed :: "pollfd \<Rightarrow> bool" where
  "poll_failed p \<longleftrightarrow> pfd_revents p AND (POLLERR OR POLLNVAL) \<noteq> 0"

definition poll_is_ready :: "pollfd \<Rightarrow> bool" where
  "poll_is_ready p \<longleftrightarrow> pfd_revents p AND pfd_events p \<noteq> 0"

definition hung_up :: "pollfd \<Rightarrow> bool" where
  "hung_up p \<longleftrightarrow> pfd_revents p AND POLLHUP \<noteq> 0 \<and> pfd_events p \<noteq> 0 \<and> \<not> poll_is_ready p"

definition serve_rule :: "('w, 'c) client \<Rightarrow> 'c Rule \<Rightarrow> (('w, 'c) EventLoop, unit) prog" where
  "serve_rule C rule =
     bnd (service_count rule) (\<lambda>count_before.
     bnd (call C (rule_callback rule)) (\<lambda>_.
     bnd (service_count rule) (\<lambda>count_after.
     if count_before = count_after
     then
       bnd (ask C (rule_interest rule)) (\<lambda>interested.
       if interested
       then throw (RuntimeError ''EventLoop: busy wait detected: callback did not read/write fd and is still interested'')
       else ret ())
     else ret ())))"

lemma results_step_eq:
  "results_step P C i p s =
     (let rule = rules s ! i in
      if poll_failed p then throw (RuntimeError ''EventLoop: error on polled file descriptor'') s
      else if hung_up p then bnd (cancel_rule P C i rule) (\<lambda>_. ret i) s
      else if poll_is_ready p then bnd (serve_rule C rule) (\<lambda>_. ret (Suc i)) s
      else ret (Suc i) s)"
  by (auto simp: results_step_def poll_failed_def hung_up_def poll_is_ready_def serve_rule_def Let_def
      bnd_assoc bnd_if cong: if_cong)

lemma results_loop_stop: "\<not> i < length (rules s) \<Longrightarrow> results_loop P C i pollfds s = (Inr (), s)"
  by (cases pollfds) (simp_all add: ret_def)

lemma results_loop_past:
  "i < length (rules s) \<Longrightarrow>
     results_loop P C i [] s = (Inl (UndefinedBehaviour ''pollfds[idx] out of range''), s)"
  by (simp add: throw_def)

lemma results_loop_throws:
  "i < length (rules s) \<Longrightarrow> results_step P C i p s = (Inl e, t) \<Longrightarrow>
     results_loop P C i (p # pollfds) s = (Inl e, t)"
  by (simp add: bnd_Inl)

lemma results_loop_next:
  "i < length (rules s) \<Longrightarrow> results_step P C i p s = (Inr i', t) \<Longrightarrow>
     results_loop P C i (p # pollfds) s = results_loop P C i' pollfds t"
  by (simp add: bnd_Inr)

declare results_loop.simps [simp del]

lemma poll_and_serve_eq:
  assumes "sys_poll P pollfds timeout (world (proc s)) = ((v, pollfds'), W)"
  shows "poll_and_serve P C timeout pollfds s =
    (let s' = s\<lparr>proc := (proc s)\<lparr>world := W\<rparr>\<rparr> in
     if sr_val v = 0 then (Inr Timeout, s')
     else if sr_val v < 0 \<and> sr_errno v = EINTR then (Inr Exit, s')
     else bnd (results_loop P C 0 pollfds') (\<lambda>_. ret Success) s')"
  using syscall_eq [where f = "sys_poll P pollfds timeout", OF assms]
  by (auto simp: poll_and_serve_def bnd_Inr on_proc_eq SystemCall_def Let_def ret_def EINTR_def)

lemma setup_loop_next:
  "i < length (rules s) \<Longrightarrow> setup_step P C i pollfds something s = (Inr (i', pollfds', something'), t) \<Longrightarrow>
     setup_loop P C i pollfds something s = setup_loop P C i' pollfds' something' t"
  by (simp add: setup_loop.simps [of P C i])

text \<open>Induction over the iterations of a setup loop that ends.\<close>

lemma setup_loop_induct [consumes 1, case_names stop throws more]:
  assumes "setup_loop P C i pollfds something s = Some y"
    and stop: "\<And>i pollfds something s. \<not> i < length (rules s) \<Longrightarrow>
      Q i pollfds something s (Inr (pollfds, something), s)"
    and throws: "\<And>i pollfds something s e t. i < length (rules s) \<Longrightarrow>
      setup_step P C i pollfds something s = (Inl e, t) \<Longrightarrow> Q i pollfds something s (Inl e, t)"
    and more: "\<And>i pollfds something s i' pollfds' something' t y. i < length (rules s) \<Longrightarrow>
      setup_step P C i pollfds something s = (Inr (i', pollfds', something'), t) \<Longrightarrow>
      Q i' pollfds' something' t y \<Longrightarrow> Q i pollfds something s y"
  shows "Q i pollfds something s y"
proof -
  let ?Q = "\<lambda>(((((P', C'), i), pollfds), something), s) y. P' = P \<longrightarrow> C' = C \<longrightarrow> Q i pollfds something s y"
  have "?Q (((((P, C), i), pollfds), something), s) y"
  proof (rule setup_loop.raw_induct [where Pa = ?Q, OF _ assms(1)], clarsimp)
    fix loop i pollfds something s r t
    assume IH: "\<And>P' C' i pollfds something s r t. loop P' C' i pollfds something s = Some (r, t) \<Longrightarrow>
        P' = P \<longrightarrow> C' = C \<longrightarrow> Q i pollfds something s (r, t)"
      and body: "(if i < length (rules s)
         then case setup_step P C i pollfds something s of
                (Inl e, t) \<Rightarrow> Some (Inl e, t)
              | (Inr (i', pollfds', something'), t) \<Rightarrow> loop P C i' pollfds' something' t
         else Some (Inr (pollfds, something), s)) = Some (r, t)"
    show "Q i pollfds something s (r, t)"
    proof (cases "i < length (rules s)")
      case False
      with body stop show ?thesis by auto
    next
      case True
      with body IH throws [OF True] more [OF True] show ?thesis
        by (auto split: prod.splits sum.splits)
    qed
  qed
  then show ?thesis by simp
qed

subsection \<open>What the loop relies on in its clients\<close>

text \<open>
  A client function may do anything that keeps the loop well-formed and does not reorder or
  remove rules, which it has no means to do: it may use, create and destroy descriptors of
  its own, throw, and add rules.
\<close>

locale loop_client =
  fixes C :: "('w, 'c) client"
  assumes call_inv: "keeps loop_inv (call C c)"
    and ask_inv: "keeps loop_inv (ask C c)"
    and call_appends: "\<exists>new. rules (snd (call C c s)) = rules s @ new"
    and ask_appends: "\<exists>new. rules (snd (ask C c s)) = rules s @ new"
begin

lemma call_result:
  assumes "loop_inv s" and "call C c s = (r, t)"
  shows "loop_inv t" and "\<exists>new. rules t = rules s @ new"
  using keepsD' [OF call_inv assms] call_appends [of c s] assms(2) by auto

lemma ask_result:
  assumes "loop_inv s" and "ask C c s = (r, t)"
  shows "loop_inv t" and "\<exists>new. rules t = rules s @ new"
  using keepsD' [OF ask_inv assms] ask_appends [of c s] assms(2) by auto

lemma cancel_rule_result:
  assumes "loop_inv s" and "i < length (rules s)" and "cancel_rule P C i rule s = (r, t)"
  shows "loop_inv t" and "r = Inr () \<Longrightarrow> i \<le> length (rules t)"
proof -
  obtain r1 s1 where c: "call C (rule_cancel rule) s = (r1, s1)" by (cases "call C (rule_cancel rule) s")
  from call_result [OF assms(1) c] assms(2) have "loop_inv s1" "i < length (rules s1)" by auto
  with erase_rule_inv [of s1 i P] erase_rule_rules [of P i s1] c assms(3)
  show "loop_inv t" "r = Inr () \<Longrightarrow> i \<le> length (rules t)"
    by (cases r1; auto simp: cancel_rule_def bnd_def)+
qed

lemma rule_stays:
  assumes "loop_inv t" and "\<exists>new. rules t = rules s @ new" and "i < length (rules s)"
  obtains w where "wrappers (proc t) (rule_fd (rules s ! i)) = Some w"
proof -
  from assms(2,3) have "rules s ! i \<in> set (rules t)" by auto
  with assms(1) show thesis by (rule loop_rule_live) (rule that)
qed

lemma setup_step_result:
  assumes inv: "loop_inv s" and i: "i < length (rules s)"
    and step: "setup_step P C i pollfds something s = (r, t)"
  shows "loop_inv t" and "r = Inr (i', pollfds', something') \<Longrightarrow> i' \<le> length (rules t)"
proof -
  let ?rule = "rules s ! i"
  obtain w where w: "wrappers (proc s) (rule_fd ?rule) = Some w"
    using loop_rule_live [OF inv nth_mem [OF i]] .
  note eq = step [unfolded setup_step_eq [OF w] Let_def]
  obtain rc tc where c: "cancel_rule P C i ?rule s = (rc, tc)" by (cases "cancel_rule P C i ?rule s")
  note cc = cancel_rule_result [OF inv i c]
  obtain ra ta where a: "ask C (rule_interest ?rule) s = (ra, ta)" by (cases "ask C (rule_interest ?rule) s")
  note aa = ask_result [OF inv a]
  obtain wa where wa: "wrappers (proc ta) (rule_fd ?rule) = Some wa" using rule_stays [OF aa i] .
  from aa(2) i have len: "Suc i \<le> length (rules ta)" by auto
  show "loop_inv t" "r = Inr (i', pollfds', something') \<Longrightarrow> i' \<le> length (rules t)"
    using eq cc aa(1) len
    by (cases "defunct ?rule w"; cases rc; cases ra;
        auto simp: bnd_def [of "cancel_rule P C i ?rule"] bnd_def [of "ask C (rule_interest ?rule)"]
          c a bnd_Inr on_proc_id accessor_eq [OF wa] ret_def)+
qed

lemma setup_loop_inv:
  assumes "setup_loop P C i pollfds something s = Some y" and "loop_inv s" and "i \<le> length (rules s)"
  shows "loop_inv (snd y)"
  using assms
proof (induction rule: setup_loop_induct)
  case (throws i pollfds something s e t)
  then show ?case using setup_step_result(1) by fastforce
next
  case (more i pollfds something s i' pollfds' something' t y)
  then show ?case using setup_step_result [OF more.prems(1) more.hyps(1,2)] by simp
qed simp

lemma serve_rule_result:
  assumes inv: "loop_inv s" and serve: "serve_rule C rule s = (r, t)"
  shows "loop_inv t" and "\<exists>new. rules t = rules s @ new"
proof -
  obtain r1 s1 where c: "call C (rule_callback rule) s = (r1, s1)"
    by (cases "call C (rule_callback rule) s")
  note cc = call_result [OF inv c]
  obtain r2 s2 where a: "ask C (rule_interest rule) s1 = (r2, s2)"
    by (cases "ask C (rule_interest rule) s1")
  note aa = ask_result [OF cc(1) a]
  obtain n0 n1 where n: "service_count rule s = (n0, s)" "service_count rule s1 = (n1, s1)"
    by (metis prod.collapse service_count_state)
  show "loop_inv t" "\<exists>new. rules t = rules s @ new"
    using serve cc aa inv
    by (auto simp: serve_rule_def bnd_def n c a throw_def ret_def split: sum.splits if_splits)
qed

lemma results_step_result:
  assumes inv: "loop_inv s" and i: "i < length (rules s)" and step: "results_step P C i p s = (r, t)"
  shows "loop_inv t" and "r = Inr i' \<Longrightarrow> i' \<le> length (rules t)"
proof -
  let ?rule = "rules s ! i"
  note eq = step [unfolded results_step_eq Let_def]
  obtain rc tc where c: "cancel_rule P C i ?rule s = (rc, tc)" by (cases "cancel_rule P C i ?rule s")
  note cc = cancel_rule_result [OF inv i c]
  obtain rs ts where v: "serve_rule C ?rule s = (rs, ts)" by (cases "serve_rule C ?rule s")
  note vv = serve_rule_result [OF inv v]
  from vv(2) i have "Suc i \<le> length (rules ts)" by auto
  with eq cc vv(1) inv i show "loop_inv t" "r = Inr i' \<Longrightarrow> i' \<le> length (rules t)"
    by (auto simp: bnd_def c v throw_def ret_def split: if_splits sum.splits)
qed

lemma results_loop_inv:
  "loop_inv s \<Longrightarrow> results_loop P C i pollfds s = (r, t) \<Longrightarrow> loop_inv t"
proof (induction pollfds arbitrary: i s)
  case Nil
  then show ?case by (cases "i < length (rules s)") (auto simp: results_loop_past results_loop_stop)
next
  case (Cons p pollfds)
  show ?case
  proof (cases "i < length (rules s)")
    case True
    obtain r1 s1 where step: "results_step P C i p s = (r1, s1)" by (cases "results_step P C i p s")
    with results_step_result(1) [OF Cons.prems(1) True step] Cons True show ?thesis
      by (cases r1) (auto simp: results_loop_throws results_loop_next)
  next
    case False
    with Cons.prems show ?thesis by (simp add: results_loop_stop)
  qed
qed

lemma poll_and_serve_inv:
  assumes "loop_inv s" and "poll_and_serve P C timeout pollfds s = (r, t)"
  shows "loop_inv t"
proof -
  obtain v pollfds' W where sys: "sys_poll P pollfds timeout (world (proc s)) = ((v, pollfds'), W)"
    by (metis prod.collapse)
  let ?s = "s\<lparr>proc := (proc s)\<lparr>world := W\<rparr>\<rparr>"
  from assms(1) have inv: "loop_inv ?s" by (simp add: loop_inv_def process_inv_def)
  obtain r1 s1 where "results_loop P C 0 pollfds' ?s = (r1, s1)" by (cases "results_loop P C 0 pollfds' ?s")
  with assms(2) results_loop_inv [OF inv this] inv show ?thesis
    by (auto simp: poll_and_serve_def on_proc_def syscall_eq [where f = "sys_poll P pollfds timeout", OF sys]
        bnd_def ret_def throw_def Let_def split: sum.splits exn.splits if_splits)
qed

lemma wait_next_event_inv:
  assumes "loop_inv s" and "wait_next_event P C timeout s = Some (r, t)"
  shows "loop_inv t"
  using assms setup_loop_inv [of P 0 "[]" False s] poll_and_serve_inv
  by (fastforce simp: wait_next_event_def ret_def split: option.splits prod.splits sum.splits if_splits)

end

text \<open>
  To say which client functions the loop calls: a log kept in the world, to which every call
  of a callback or cancel function adds its name, and which nothing else changes.
\<close>

definition logs :: "('w, 'z) posix_scheme \<Rightarrow> ('w, 'c) client \<Rightarrow> ('w \<Rightarrow> 'c list) \<Rightarrow> bool" where
  "logs P C log \<longleftrightarrow>
     (\<forall>c s. log (world (proc (snd (call C c s)))) = log (world (proc s)) @ [c]) \<and>
     (\<forall>c s. log (world (proc (snd (ask C c s)))) = log (world (proc s))) \<and>
     (\<forall>fd W. log (snd (sys_close P fd W)) = log W)"

lemma destructor_log:
  assumes "logs P C log"
  shows "log (world (snd (FileDescriptor_destructor P h p))) = log (world p)"
proof -
  let ?I = "\<lambda>q. log (world q) = log (world p)"
  have sys: "keeps ?I (syscall (sys_close P fd))" for fd
    using assms by (intro keepsI) (simp add: syscall_def split_beta Let_def logs_def)
  have wr: "keeps ?I (modify_wrapper h f)" for f
    unfolding modify_wrapper_def put_wrapper_def by (intro keeps_intros keeps_get_wrapper keeps_modify) simp
  have "keeps ?I (FileDescriptor_destructor P h)"
    unfolding FileDescriptor_destructor_def FDWrapper_destructor_def FDWrapper_close_def
    by (intro keeps_intros keeps_get_wrapper sys wr keeps_modify) simp_all
  then show ?thesis by (rule keepsD) simp
qed

definition served :: "'c Rule \<times> pollfd \<Rightarrow> 'c list" where
  "served = (\<lambda>(rule, p). if hung_up p then [rule_cancel rule]
                         else if poll_is_ready p then [rule_callback rule] else [])"

lemma results_step_log:
  assumes logs: "logs P C log" and step: "results_step P C i p s = (Inr i', t)"
  shows "log (world (proc t)) = log (world (proc s)) @ served (rules s ! i, p)"
proof -
  let ?rule = "rules s ! i"
  note eq = step [unfolded results_step_eq Let_def]
  have erase: "log (world (proc (snd (erase_rule P i u)))) = log (world (proc u))" for u :: "('a, 'c) EventLoop"
    using destructor_log [OF logs] by (simp add: erase_rule_eq)
  have call: "log (world (proc t)) = log (world (proc u)) @ [c]" if "call C c u = (r, t)" for c u r t
    using logs that unfolding logs_def by (metis snd_conv)
  have ask: "log (world (proc t)) = log (world (proc u))" if "ask C c u = (r, t)" for c u r t
    using logs that unfolding logs_def by (metis snd_conv)
  have count: "u = t" if "service_count rule u = (r, t)" for rule :: "'c Rule" and u t :: "('a, 'c) EventLoop" and r
    using that service_count_state [of rule u] by simp
  have "log (world (proc u)) = log (world (proc s)) @ [rule_cancel ?rule]"
    if "cancel_rule P C i ?rule s = (Inr (), u)" for u
    using that erase by (auto simp: cancel_rule_def bnd_eq_Inr dest!: call) (metis snd_conv)
  moreover have "log (world (proc u)) = log (world (proc s)) @ [rule_callback ?rule]"
    if "serve_rule C ?rule s = (Inr (), u)" for u
    using that
    by (auto simp: serve_rule_def bnd_eq_Inr ret_def throw_def dest!: call ask count split: if_splits)
  ultimately show ?thesis
    using eq by (auto simp: served_def bnd_eq_Inr throw_def ret_def split: if_splits)
qed

text \<open>A client that adds no rule while \<^verbatim>\<open>wait_next_event\<close> runs, and is itself free of undefined behaviour.\<close>

locale steady_client = loop_client +
  assumes call_same: "rules (snd (call C c s)) = rules s"
    and ask_same: "rules (snd (ask C c s)) = rules s"
    and call_defined: "loop_inv s \<Longrightarrow> \<not> undefined_behaviour (fst (call C c s))"
    and ask_defined: "loop_inv s \<Longrightarrow> \<not> undefined_behaviour (fst (ask C c s))"
begin

lemma call_steady:
  assumes "loop_inv s" and "call C c s = (r, t)"
  shows "loop_inv t" and "rules t = rules s" and "\<not> undefined_behaviour r"
  using call_result(1) [OF assms] call_same [of c s] call_defined [OF assms(1), of c] assms(2) by auto

lemma ask_steady:
  assumes "loop_inv s" and "ask C c s = (r, t)"
  shows "loop_inv t" and "rules t = rules s" and "\<not> undefined_behaviour r"
  using ask_result(1) [OF assms] ask_same [of c s] ask_defined [OF assms(1), of c] assms(2) by auto

lemma cancel_rule_steady:
  assumes inv: "loop_inv s" and i: "i < length (rules s)" and cancel: "cancel_rule P C i rule s = (r, t)"
  shows "\<not> undefined_behaviour r" and "r = Inr () \<Longrightarrow> rules t = take i (rules s) @ drop (Suc i) (rules s)"
proof -
  obtain r1 s1 where c: "call C (rule_cancel rule) s = (r1, s1)" by (cases "call C (rule_cancel rule) s")
  note cc = call_steady [OF inv c]
  from erase_rule_ret [of s1 i P] erase_rule_rules [of P i s1] cc i
  have "fst (erase_rule P i s1) = Inr ()"
    "rules (snd (erase_rule P i s1)) = take i (rules s) @ drop (Suc i) (rules s)" by auto
  with cancel c cc(3) show "\<not> undefined_behaviour r"
    "r = Inr () \<Longrightarrow> rules t = take i (rules s) @ drop (Suc i) (rules s)"
    by (cases r1; auto simp: cancel_rule_def bnd_def)+
qed

lemma setup_step_steady:
  assumes inv: "loop_inv s" and i: "i < length (rules s)"
    and step: "setup_step P C i pollfds something s = (r, t)"
  shows "\<not> undefined_behaviour r"
    and "r = Inr (i', pollfds', something') \<Longrightarrow> length (rules t) - i' < length (rules s) - i"
    and "r = Inr (i', pollfds', something') \<Longrightarrow> length pollfds = i \<Longrightarrow> length pollfds' = i'"
    and "r = Inr (i', pollfds', something') \<Longrightarrow> \<forall>p \<in> set pollfds. pfd_revents p = 0 \<Longrightarrow>
           \<forall>p \<in> set pollfds'. pfd_revents p = 0"
proof -
  let ?rule = "rules s ! i"
  obtain w where w: "wrappers (proc s) (rule_fd ?rule) = Some w"
    using loop_rule_live [OF inv nth_mem [OF i]] .
  note eq = step [unfolded setup_step_eq [OF w] Let_def]
  obtain rc tc where c: "cancel_rule P C i ?rule s = (rc, tc)" by (cases "cancel_rule P C i ?rule s")
  note cc = cancel_rule_steady [OF inv i c]
  obtain ra ta where a: "ask C (rule_interest ?rule) s = (ra, ta)" by (cases "ask C (rule_interest ?rule) s")
  note aa = ask_steady [OF inv a]
  obtain wa where wa: "wrappers (proc ta) (rule_fd ?rule) = Some wa"
    using rule_stays [OF aa(1) _ i] aa(2) by (metis append_Nil2)
  have cases: "defunct ?rule w \<and> (case rc of Inl e \<Rightarrow> r = Inl e \<and> t = tc | Inr _ \<Rightarrow> r = Inr (i, pollfds, something) \<and> t = tc) \<or>
     \<not> defunct ?rule w \<and> (case ra of Inl e \<Rightarrow> r = Inl e \<and> t = ta
       | Inr b \<Rightarrow> r = Inr (Suc i, pollfds @ [poll_entry ?rule (w_fd wa) b], something \<or> b) \<and> t = ta)"
    using eq
    by (cases "defunct ?rule w"; cases rc; cases ra;
        auto simp: bnd_def [of "cancel_rule P C i ?rule"] bnd_def [of "ask C (rule_interest ?rule)"]
          c a bnd_Inr on_proc_id accessor_eq [OF wa] ret_def)
  show "\<not> undefined_behaviour r"
    using cases cc(1) aa(3) by (auto split: sum.splits)
  show "r = Inr (i', pollfds', something') \<Longrightarrow> length (rules t) - i' < length (rules s) - i"
    using cases cc(2) aa(2) i by (auto split: sum.splits)
  show "r = Inr (i', pollfds', something') \<Longrightarrow> length pollfds = i \<Longrightarrow> length pollfds' = i'"
    using cases by (auto split: sum.splits)
  show "r = Inr (i', pollfds', something') \<Longrightarrow> \<forall>p \<in> set pollfds. pfd_revents p = 0 \<Longrightarrow>
           \<forall>p \<in> set pollfds'. pfd_revents p = 0"
    using cases by (auto simp: poll_entry_def split: sum.splits)
qed

text \<open>
  The setup loop ends, and the \<^verbatim>\<open>pollfd\<close>s it leaves are aligned with the rules that are
  left.
\<close>

lemma setup_loop_returns:
  assumes "loop_inv s" and "i \<le> length (rules s)" and "length pollfds = i"
    and "\<forall>p \<in> set pollfds. pfd_revents p = 0"
  shows "\<exists>r t. setup_loop P C i pollfds something s = Some (r, t) \<and> loop_inv t \<and> \<not> undefined_behaviour r \<and>
           (\<forall>ps b. r = Inr (ps, b) \<longrightarrow> length ps = length (rules t) \<and> (\<forall>p \<in> set ps. pfd_revents p = 0))"
  using assms
proof (induction "length (rules s) - i" arbitrary: i pollfds something s rule: less_induct)
  case less
  show ?case
  proof (cases "i < length (rules s)")
    case False
    with less.prems show ?thesis by (simp add: setup_loop.simps)
  next
    case True
    obtain r t where step: "setup_step P C i pollfds something s = (r, t)"
      by (cases "setup_step P C i pollfds something s")
    note res = setup_step_result [OF less.prems(1) True step]
    note std = setup_step_steady [OF less.prems(1) True step]
    show ?thesis
    proof (cases r)
      case (Inl e)
      with True step res(1) std(1) show ?thesis by (simp add: setup_loop.simps)
    next
      case (Inr x)
      then obtain i' ps b where r: "r = Inr (i', ps, b)" by (cases x) auto
      from less.hyps [OF std(2) [OF r] res(1) res(2) [OF r] std(3) [OF r less.prems(3)]
          std(4) [OF r less.prems(4)], of b]
      show ?thesis using True step r by (simp add: setup_loop.simps [of P C i])
    qed
  qed
qed

text \<open>The loop over the answers: it does not leave the vector, and no iteration is undefined.\<close>

lemma serve_rule_steady:
  assumes inv: "loop_inv s" and live: "wrappers (proc s) (rule_fd rule) = Some w" "rule \<in> set (rules s)"
    and serve: "serve_rule C rule s = (r, t)"
  shows "\<not> undefined_behaviour r" and "rules t = rules s"
proof -
  obtain r1 s1 where c: "call C (rule_callback rule) s = (r1, s1)"
    by (cases "call C (rule_callback rule) s")
  note cc = call_steady [OF inv c]
  obtain r2 s2 where a: "ask C (rule_interest rule) s1 = (r2, s2)"
    by (cases "ask C (rule_interest rule) s1")
  note aa = ask_steady [OF cc(1) a]
  obtain w1 where w1: "wrappers (proc s1) (rule_fd rule) = Some w1"
    using loop_rule_live [OF cc(1)] live(2) cc(2) by metis
  show "\<not> undefined_behaviour r" "rules t = rules s"
    using serve cc aa
    by (auto simp: serve_rule_def bnd_def service_count_eq [OF live(1)] service_count_eq [OF w1] c a
        throw_def ret_def split: sum.splits if_splits)
qed

lemma results_step_steady:
  assumes inv: "loop_inv s" and i: "i < length (rules s)" and step: "results_step P C i p s = (r, t)"
  shows "\<not> undefined_behaviour r"
    and "r = Inr i' \<Longrightarrow> \<not> poll_failed p \<and>
      (if hung_up p then i' = i \<and> rules t = take i (rules s) @ drop (Suc i) (rules s)
       else i' = Suc i \<and> rules t = rules s)"
proof -
  let ?rule = "rules s ! i"
  note eq = step [unfolded results_step_eq Let_def]
  obtain w where w: "wrappers (proc s) (rule_fd ?rule) = Some w"
    using loop_rule_live [OF inv nth_mem [OF i]] .
  obtain rc tc where c: "cancel_rule P C i ?rule s = (rc, tc)" by (cases "cancel_rule P C i ?rule s")
  note cc = cancel_rule_steady [OF inv i c]
  obtain rs ts where v: "serve_rule C ?rule s = (rs, ts)" by (cases "serve_rule C ?rule s")
  note vv = serve_rule_steady [OF inv w nth_mem [OF i] v]
  show "\<not> undefined_behaviour r"
    using eq cc(1) vv(1) by (auto simp: bnd_def c v throw_def ret_def split: if_splits sum.splits)
  show "r = Inr i' \<Longrightarrow> \<not> poll_failed p \<and>
      (if hung_up p then i' = i \<and> rules t = take i (rules s) @ drop (Suc i) (rules s)
       else i' = Suc i \<and> rules t = rules s)"
    using eq cc(2) vv(2) by (auto simp: bnd_def c v throw_def ret_def split: if_splits sum.splits)
qed

lemma results_loop_steady:
  assumes "loop_inv s" and "i + length pollfds = length (rules s)" and "results_loop P C i pollfds s = (r, t)"
  shows "\<not> undefined_behaviour r \<and>
    (r = Inr () \<longrightarrow> (\<forall>p \<in> set pollfds. \<not> poll_failed p) \<and>
       rules t = take i (rules s) @ map fst (filter (\<lambda>(rule, p). \<not> hung_up p) (zip (drop i (rules s)) pollfds)))"
  using assms
proof (induction pollfds arbitrary: i s)
  case Nil
  then show ?case by (auto simp: results_loop_stop)
next
  case (Cons p pollfds)
  then have i: "i < length (rules s)" by simp
  obtain r1 s1 where step: "results_step P C i p s = (r1, s1)" by (cases "results_step P C i p s")
  note inv1 = results_step_result(1) [OF Cons.prems(1) i step]
  note std = results_step_steady [OF Cons.prems(1) i step]
  show ?case
  proof (cases r1)
    case (Inl e)
    with Cons.prems(3) i step std(1) show ?thesis by (auto simp: results_loop_throws)
  next
    case (Inr i')
    with Cons.prems(3) i step have rest: "results_loop P C i' pollfds s1 = (r, t)"
      by (simp add: results_loop_next)
    note drop = Cons_nth_drop_Suc [OF i, symmetric]
    from std(2) [OF Inr] Cons.prems(2) i have "i' + length pollfds = length (rules s1)"
      by (auto split: if_splits)
    note IH = Cons.IH [OF inv1 this rest]
    show ?thesis
    proof (cases "hung_up p")
      case True
      with std(2) [OF Inr] have "i' = i" "rules s1 = take i (rules s) @ drop (Suc i) (rules s)" "\<not> poll_failed p"
        by auto
      with IH True i show ?thesis by (simp add: drop)
    next
      case False
      with std(2) [OF Inr] have "i' = Suc i" "rules s1 = rules s" "\<not> poll_failed p" by auto
      with IH False i show ?thesis by (simp add: drop take_Suc_conv_app_nth)
    qed
  qed
qed

lemma results_loop_log:
  assumes "logs P C log" and "loop_inv s" and "i + length pollfds = length (rules s)"
    and "results_loop P C i pollfds s = (Inr (), t)"
  shows "log (world (proc t)) =
    log (world (proc s)) @ concat (map served (zip (drop i (rules s)) pollfds))"
  using assms(2-)
proof (induction pollfds arbitrary: i s)
  case Nil
  then show ?case by (simp add: results_loop_stop)
next
  case (Cons p pollfds)
  then have i: "i < length (rules s)" by simp
  obtain r1 s1 where step: "results_step P C i p s = (r1, s1)" by (cases "results_step P C i p s")
  with Cons.prems(3) i obtain i' where r1: "r1 = Inr i'" and rest: "results_loop P C i' pollfds s1 = (Inr (), t)"
    by (cases r1) (auto simp: results_loop_throws results_loop_next)
  from results_step_steady(2) [OF Cons.prems(1) i step r1] i
  have align: "drop i' (rules s1) = drop (Suc i) (rules s)" "length (rules s1) - i' = length (rules s) - Suc i"
    "i' \<le> length (rules s1)"
    by (auto split: if_splits)
  with Cons.prems(2) have "i' + length pollfds = length (rules s1)" by simp
  from Cons.IH [OF results_step_result(1) [OF Cons.prems(1) i step] this rest]
    results_step_log [OF assms(1) step [unfolded r1]]
  show ?case by (simp add: align Cons_nth_drop_Suc [OF i, symmetric])
qed

text \<open>The whole of \<^verbatim>\<open>wait_next_event\<close>, on a kernel whose \<^verbatim>\<open>poll\<close> fills in the array it is given.\<close>

lemma wait_next_event_returns:
  assumes "loop_inv s" and poll: "\<And>ps W. length (snd (fst (sys_poll P ps timeout W))) = length ps"
  shows "\<exists>r t. wait_next_event P C timeout s = Some (r, t) \<and> \<not> undefined_behaviour r"
proof -
  from setup_loop_returns [OF assms(1), of 0 "[]" P False] obtain r t where
    set_up: "setup_loop P C 0 [] False s = Some (r, t)" "loop_inv t" "\<not> undefined_behaviour r"
      "\<And>ps b. r = Inr (ps, b) \<Longrightarrow> length ps = length (rules t)"
    by auto
  show ?thesis
  proof (cases r)
    case (Inl e)
    with set_up show ?thesis by (simp add: wait_next_event_def)
  next
    case (Inr x)
    then obtain ps b where r: "r = Inr (ps, b)" by (cases x) auto
    obtain v ps' W where sys: "sys_poll P ps timeout (world (proc t)) = ((v, ps'), W)" by (metis prod.collapse)
    let ?t = "t\<lparr>proc := (proc t)\<lparr>world := W\<rparr>\<rparr>"
    from set_up(2) have inv: "loop_inv ?t" by (simp add: loop_inv_def process_inv_def)
    obtain r1 t1 where loop: "results_loop P C 0 ps' ?t = (r1, t1)" by (cases "results_loop P C 0 ps' ?t")
    have "0 + length ps' = length (rules ?t)" using poll [of ps "world (proc t)"] sys set_up(4) [OF r] by simp
    from results_loop_steady [OF inv this loop] have "\<not> undefined_behaviour r1" by simp
    then have "\<not> undefined_behaviour (fst (poll_and_serve P C timeout ps t))"
      by (cases r1) (auto simp: poll_and_serve_eq [OF sys] Let_def bnd_def loop ret_def)
    then show ?thesis using set_up(1) r
      by (cases b; cases "poll_and_serve P C timeout ps t") (auto simp: wait_next_event_def ret_def)
  qed
qed

end

subsection \<open>Clients built from the library's own operations\<close>

text \<open>
  A client function that works on the process only, as a use of the library's descriptors
  does, meets the contract when it keeps the process well-formed, keeps the use counts, and
  is not undefined.
\<close>

locale proc_client =
  fixes act :: "'c \<Rightarrow> ('w process, unit) prog" and intr :: "'c \<Rightarrow> ('w process, bool) prog"
  assumes act_inv: "keeps process_inv (act c)" and intr_inv: "keeps process_inv (intr c)"
    and act_counts: "process_inv p \<Longrightarrow> use_count (snd (act c p)) = use_count p"
    and intr_counts: "process_inv p \<Longrightarrow> use_count (snd (intr c p)) = use_count p"
    and act_defined: "process_inv p \<Longrightarrow> \<not> undefined_behaviour (fst (act c p))"
    and intr_defined: "process_inv p \<Longrightarrow> \<not> undefined_behaviour (fst (intr c p))"

sublocale proc_client \<subseteq> steady_client "\<lparr>call = \<lambda>c. on_proc (act c), ask = \<lambda>c. on_proc (intr c)\<rparr>"
  by unfold_locales
    (auto simp: loop_inv_def act_counts intr_counts act_defined intr_defined
      intro!: keepsI keepsD [OF act_inv] keepsD [OF intr_inv])

text \<open>
  Reading, writing and closing a descriptor the client still holds, after the client has
  made a note of the call in its own data; the interest function is the default of
  \<^verbatim>\<open>add_rule\<close>, which returns \<^verbatim>\<open>true\<close>.
\<close>

datatype fd_action = Reads handle nat | Writes handle bytes | Closes handle | Nothing

definition if_held :: "handle \<Rightarrow> ('w process, 'a) prog \<Rightarrow> ('w process, unit) prog" where
  "if_held h m s = (if use_count s h = 0 then ret () s else bnd m (\<lambda>_. ret ()) s)"

definition default_interest :: "('s, bool) prog" where
  "default_interest = ret True"

definition default_cancel :: "('s, unit) prog" where
  "default_cancel = ret ()"

fun run_action :: "('w, 'z) posix_scheme \<Rightarrow> fd_action \<Rightarrow> ('w process, unit) prog" where
  "run_action P (Reads h limit) = if_held h (FileDescriptor_read P h limit)"
| "run_action P (Writes h str) = if_held h (FileDescriptor_write_string P h str True)"
| "run_action P (Closes h) = if_held h (FileDescriptor_close P h)"
| "run_action P Nothing = default_cancel"

definition noted :: "('w \<Rightarrow> 'w) \<Rightarrow> ('w process, 'a) prog \<Rightarrow> ('w process, 'a) prog" where
  "noted f m = bnd (modify (\<lambda>s. s\<lparr>world := f (world s)\<rparr>)) (\<lambda>_. m)"

lemma if_held_result:
  assumes "process_inv s" and "safe_at h m" and "keeps process_inv m"
    and "use_count (snd (m s)) = use_count s"
  shows "process_inv (snd (if_held h m s)) \<and> use_count (snd (if_held h m s)) = use_count s \<and>
    \<not> undefined_behaviour (fst (if_held h m s))"
proof (cases "use_count s h = 0")
  case True
  with assms(1) show ?thesis by (simp add: if_held_def ret_def)
next
  case False
  obtain r t where m: "m s = (r, t)" by (cases "m s")
  from False process_inv_None [OF assms(1)] have "wrappers s h \<noteq> None" by simp
  from safe_at_defined [OF assms(2) this] keepsD [OF assms(3,1)] assms(4) m False show ?thesis
    by (cases r) (simp_all add: if_held_def bnd_def ret_def)
qed

lemma run_action_result:
  assumes "process_inv s"
  shows "process_inv (snd (run_action P a s)) \<and> use_count (snd (run_action P a s)) = use_count s \<and>
    \<not> undefined_behaviour (fst (run_action P a s))"
proof (cases a)
  case (Reads h limit)
  show ?thesis
    unfolding Reads run_action.simps FileDescriptor_read_def
    by (intro if_held_result assms safe_read fd_read.oper_inv
        fd_read.oper_live [OF assms prod.collapse [symmetric]])
next
  case (Writes h str)
  show ?thesis
    unfolding Writes run_action.simps FileDescriptor_write_string_def
    by (intro if_held_result assms safe_write fd_write.oper_inv
        fd_write.oper_live [OF assms prod.collapse [symmetric]])
next
  case (Closes h)
  show ?thesis
    unfolding Closes run_action.simps
    by (intro if_held_result assms safe_close fd_close.oper_inv
        fd_close.oper_live [OF assms prod.collapse [symmetric]])
next
  case Nothing
  with assms show ?thesis by (simp add: default_cancel_def ret_def)
qed

lemma keeps_if_held: "keeps I m \<Longrightarrow> keeps I (if_held h m)"
  using keeps_bnd [of I m "\<lambda>_. ret ()"] by (simp add: keeps_def if_held_def ret_def)

lemma noted_eq: "noted f m s = m (s\<lparr>world := f (world s)\<rparr>)"
  by (simp add: noted_def)

interpretation fd_client: proc_client "\<lambda>a. noted (mark a) (run_action P a)" "\<lambda>_. default_interest"
  for P :: "('w, 'z) posix_scheme" and mark
proof (unfold_locales, goal_cases)
  have inv: "process_inv (p\<lparr>world := W\<rparr>) = process_inv p" for p :: "'w process" and W
    by (simp add: process_inv_def)
  note run = run_action_result [of "_\<lparr>world := _\<rparr>" P, unfolded inv]
  {
    case 1 then show ?case by (intro keepsI) (simp add: noted_eq run)
  next
    case 2 then show ?case by (simp add: default_interest_def keeps_ret)
  next
    case 3 then show ?case by (simp add: noted_eq run)
  next
    case 4 then show ?case by (simp add: default_interest_def ret_def)
  next
    case 5 then show ?case by (simp add: noted_eq run)
  next
    case 6 then show ?case by (simp add: default_interest_def ret_def)
  }
qed

definition fd_client :: "('w, 'z) posix_scheme \<Rightarrow> (fd_action \<Rightarrow> 'w \<Rightarrow> 'w) \<Rightarrow> ('w, fd_action) client" where
  "fd_client P mark = \<lparr>call = \<lambda>a. on_proc (noted (mark a) (run_action P a)), ask = \<lambda>_. on_proc default_interest\<rparr>"

lemma steady_fd_client: "steady_client (fd_client P mark)"
  unfolding fd_client_def by (rule fd_client.steady_client_axioms)

lemma loop_fd_client: "loop_client (fd_client P mark)"
  unfolding fd_client_def by (rule fd_client.loop_client_axioms)

subsection \<open>The array handed to \<^verbatim>\<open>poll\<close>\<close>

text \<open>Interest and cancel functions that touch nothing but the client's own part of the world.\<close>

definition world_only :: "('w, 'c) EventLoop \<Rightarrow> ('w, 'c) EventLoop \<Rightarrow> bool" where
  "world_only s t \<longleftrightarrow> (\<exists>W. t = s\<lparr>proc := (proc s)\<lparr>world := W\<rparr>\<rparr>)"

definition quiet_interest :: "('w, 'c) client \<Rightarrow> 'c \<Rightarrow> bool \<Rightarrow> bool" where
  "quiet_interest C c b \<longleftrightarrow> (\<forall>s. \<exists>t. ask C c s = (Inr b, t) \<and> world_only s t)"

definition quiet_cancel :: "('w, 'c) client \<Rightarrow> 'c \<Rightarrow> bool" where
  "quiet_cancel C c \<longleftrightarrow> (\<forall>s. \<exists>t. call C c s = (Inr (), t) \<and> world_only s t)"

lemma world_only_simps:
  "world_only s t \<Longrightarrow> rules t = rules s" "world_only s t \<Longrightarrow> wrappers (proc t) = wrappers (proc s)"
  "world_only s t \<Longrightarrow> loop_inv t = loop_inv s"
  by (auto simp: world_only_def loop_inv_def process_inv_def)

lemma world_only_refl: "world_only s s"
  unfolding world_only_def by (rule exI [of _ "world (proc s)"]) simp

definition wrapper_of :: "('w, 'c) EventLoop \<Rightarrow> 'c Rule \<Rightarrow> FDWrapper" where
  "wrapper_of s rule = the (wrappers (proc s) (rule_fd rule))"

definition live_rules :: "('w, 'c) EventLoop \<Rightarrow> 'c Rule list \<Rightarrow> 'c Rule list" where
  "live_rules s rs = filter (\<lambda>r. \<not> defunct r (wrapper_of s r)) rs"

definition poll_array :: "('w, 'c) EventLoop \<Rightarrow> ('c Rule \<Rightarrow> bool) \<Rightarrow> 'c Rule list \<Rightarrow> pollfd list" where
  "poll_array s want rs = map (\<lambda>r. poll_entry r (w_fd (wrapper_of s r)) (want r)) rs"

lemma erase_rule_wrappers:
  assumes inv: "loop_inv s" and i: "i < length (rules s)" and r: "r \<in> set (rules (snd (erase_rule P i s)))"
  shows "wrappers (proc (snd (erase_rule P i s))) (rule_fd r) = wrappers (proc s) (rule_fd r)"
proof -
  obtain w where w: "wrappers (proc s) (rule_fd (rules s ! i)) = Some w"
    "use_count (proc s) (rule_fd (rules s ! i)) \<noteq> 0"
    using erase_rule_live [OF inv i] .
  obtain w' where "wrappers (proc (snd (erase_rule P i s))) (rule_fd r) = Some w'"
    using loop_rule_live [OF erase_rule_inv [OF inv i] r] .
  then show ?thesis
    by (auto simp: erase_rule_eq destructor_effect(2) [OF w] split: if_splits)
qed

lemma cancel_rule_quiet:
  assumes "loop_inv s" and "i < length (rules s)" and "quiet_cancel C (rule_cancel rule)"
  obtains t where "cancel_rule P C i rule s = (Inr (), t)" "loop_inv t"
    "rules t = take i (rules s) @ drop (Suc i) (rules s)"
    "\<And>r. r \<in> set (rules t) \<Longrightarrow> wrappers (proc t) (rule_fd r) = wrappers (proc s) (rule_fd r)"
proof -
  from assms(3) obtain u where u: "call C (rule_cancel rule) s = (Inr (), u)" "world_only s u"
    unfolding quiet_cancel_def by blast
  note ws = world_only_simps [OF u(2)]
  with assms(1,2) have inv: "loop_inv u" "i < length (rules u)" by simp_all
  let ?t = "snd (erase_rule P i u)"
  have "cancel_rule P C i rule s = (Inr (), ?t)"
    using erase_rule_ret [OF inv, of P] by (simp add: cancel_rule_def bnd_Inr u(1) prod_eq_iff)
  then show thesis
    using that [of ?t] erase_rule_inv [OF inv, of P] erase_rule_rules [of P i u]
      erase_rule_wrappers [OF inv, of _ P] ws by simp
qed

lemma setup_step_quiet:
  assumes "loop_inv s" and "i < length (rules s)" and "rule = rules s ! i"
    and "quiet_cancel C (rule_cancel rule)" and "quiet_interest C (rule_interest rule) b"
  obtains (gone) t where "defunct rule (wrapper_of s rule)"
      "setup_step P C i pollfds something s = (Inr (i, pollfds, something), t)" "loop_inv t"
      "rules t = take i (rules s) @ drop (Suc i) (rules s)"
      "\<And>r. r \<in> set (rules t) \<Longrightarrow> wrappers (proc t) (rule_fd r) = wrappers (proc s) (rule_fd r)"
  | (polled) t where "\<not> defunct rule (wrapper_of s rule)"
      "setup_step P C i pollfds something s =
         (Inr (Suc i, pollfds @ [poll_entry rule (w_fd (wrapper_of s rule)) b], something \<or> b), t)"
      "loop_inv t" "rules t = rules s" "wrappers (proc t) = wrappers (proc s)"
proof -
  obtain w where w: "wrappers (proc s) (rule_fd (rules s ! i)) = Some w"
    using loop_rule_live [OF assms(1) nth_mem [OF assms(2)]] .
  then have w_of: "wrapper_of s rule = w" by (simp add: wrapper_of_def assms(3))
  note eq = setup_step_eq [OF w, folded assms(3), of P C pollfds something, unfolded Let_def]
  show thesis
  proof (cases "defunct rule w")
    case True
    obtain t where "cancel_rule P C i rule s = (Inr (), t)" "loop_inv t"
      "rules t = take i (rules s) @ drop (Suc i) (rules s)"
      "\<And>r. r \<in> set (rules t) \<Longrightarrow> wrappers (proc t) (rule_fd r) = wrappers (proc s) (rule_fd r)"
      using cancel_rule_quiet [OF assms(1,2,4)] by blast
    with True eq w_of show thesis by (intro gone [of t]) (auto simp: bnd_Inr ret_def)
  next
    case False
    from assms(5) obtain t where t: "ask C (rule_interest rule) s = (Inr b, t)" "world_only s t"
      unfolding quiet_interest_def by blast
    note ws = world_only_simps [OF t(2)]
    have "FileDescriptor_fd_num (rule_fd rule) (proc t) = (Inr (w_fd w), proc t)"
      using w ws(2) by (intro accessor_eq) (simp add: assms(3))
    with False eq w_of t(1) ws assms(1) show thesis
      by (intro polled [of t]) (auto simp: bnd_Inr on_proc_id ret_def)
  qed
qed

lemma setup_loop_quiet:
  assumes "loop_inv s" and "i \<le> length (rules s)"
    and "\<forall>r \<in> set (rules s). quiet_cancel C (rule_cancel r) \<and> quiet_interest C (rule_interest r) (want r)"
  shows "\<exists>t. setup_loop P C i pollfds something s =
      Some (Inr (pollfds @ poll_array s want (live_rules s (drop i (rules s))),
                 something \<or> (\<exists>r \<in> set (live_rules s (drop i (rules s))). want r)), t) \<and>
    loop_inv t \<and> rules t = take i (rules s) @ live_rules s (drop i (rules s))"
  using assms
proof (induction "length (rules s) - i" arbitrary: i pollfds something s rule: less_induct)
  case less
  show ?case
  proof (cases "i < length (rules s)")
    case False
    with less.prems(1,2) show ?thesis
      by (simp add: setup_loop.simps live_rules_def poll_array_def)
  next
    case True
    let ?rule = "rules s ! i"
    note split = Cons_nth_drop_Suc [OF True, symmetric]
    have q: "quiet_cancel C (rule_cancel ?rule)" "quiet_interest C (rule_interest ?rule) (want ?rule)"
      using less.prems(3) True by auto
    from less.prems(1) True refl q show ?thesis
    proof (cases rule: setup_step_quiet [where pollfds = pollfds and something = something and P = P])
      case (gone t)
      then have len: "length (rules t) - i < length (rules s) - i" "i \<le> length (rules t)"
        and rest: "drop i (rules t) = drop (Suc i) (rules s)" "take i (rules t) = take i (rules s)"
        and sub: "set (rules t) \<subseteq> set (rules s)"
        using True by (auto dest: in_set_takeD in_set_dropD)
      have "wrapper_of t r = wrapper_of s r" if "r \<in> set (drop (Suc i) (rules s))" for r
        using that gone(4,5) by (simp add: wrapper_of_def)
      then have same: "live_rules t (drop (Suc i) (rules s)) = live_rules s (drop (Suc i) (rules s))"
        "poll_array t want (live_rules s (drop (Suc i) (rules s))) =
           poll_array s want (live_rules s (drop (Suc i) (rules s)))"
        by (auto simp: live_rules_def poll_array_def intro!: filter_cong)
      have gone_rule: "live_rules s (drop i (rules s)) = live_rules s (drop (Suc i) (rules s))"
        using gone(1) by (simp add: live_rules_def split)
      from less.prems(3) sub have
        "\<forall>r \<in> set (rules t). quiet_cancel C (rule_cancel r) \<and> quiet_interest C (rule_interest r) (want r)"
        by blast
      from less.hyps [OF len(1) gone(3) len(2) this, of pollfds something]
      show ?thesis by (simp add: setup_loop_next [OF True gone(2)] rest same gone_rule)
    next
      case (polled t)
      then have len: "length (rules t) - Suc i < length (rules s) - i" "Suc i \<le> length (rules t)"
        using True by auto
      have same: "live_rules t = live_rules s" "poll_array t = poll_array s"
        using polled(5) by (auto simp: live_rules_def poll_array_def wrapper_of_def fun_eq_iff)
      have kept: "live_rules s (drop i (rules s)) = ?rule # live_rules s (drop (Suc i) (rules s))"
        using polled(1) by (simp add: live_rules_def split)
      from less.hyps [OF len(1) polled(3) len(2), of "pollfds @ [poll_entry ?rule (w_fd (wrapper_of s ?rule)) (want ?rule)]"
          "something \<or> want ?rule"] less.prems(3) polled(4)
      show ?thesis using True
        by (simp add: setup_loop_next [OF True polled(2)] same kept poll_array_def take_Suc_conv_app_nth disj_assoc)
    qed
  qed
qed

subsection \<open>A poll that reports nothing\<close>

lemma idle_answer: "pfd_revents p = 0 \<Longrightarrow> \<not> poll_failed p \<and> \<not> hung_up p \<and> \<not> poll_is_ready p"
  by (simp add: poll_failed_def hung_up_def poll_is_ready_def)

lemma results_loop_idle:
  assumes "i + length pollfds = length (rules s)" and "\<forall>p \<in> set pollfds. pfd_revents p = 0"
  shows "results_loop P C i pollfds s = (Inr (), s)"
  using assms
proof (induction pollfds arbitrary: i)
  case Nil
  then show ?case by (simp add: results_loop_stop)
next
  case (Cons p pollfds)
  then have "results_step P C i p s = (Inr (Suc i), s)"
    by (simp add: results_step_eq idle_answer ret_def)
  with Cons show ?case by (simp add: results_loop_next)
qed

subsection \<open>A small loop\<close>

text \<open>
  The kernel of \<open>File_Descriptor\<close> with a trace of the client's calls beside it, one
  descriptor with two bytes to read, and one rule that reads it.
\<close>

record 'c trace_world = demo_world +
  trace :: "'c list"

definition trace_client :: "(fd_action trace_world, fd_action) client" where
  "trace_client = fd_client demo_kernel (\<lambda>a W. W\<lparr>trace := trace W @ [a]\<rparr>)"

definition trace_process :: "fd_action trace_world process" where
  "trace_process = snd (FileDescriptor_new 3
     (init_process \<lparr>pipe = [1, 2], status_flags = 2, closed_fds = [], trace = []\<rparr>))"

definition trace_loop :: "(fd_action trace_world, fd_action) EventLoop" where
  "trace_loop = snd (add_rule 0 In (Reads 0 10) Nothing Nothing \<lparr>rules = [], proc = trace_process\<rparr>)"

lemma trace_process_inv: "process_inv trace_process"
  unfolding trace_process_def by (intro keepsD [OF keeps_new] process_inv_init)

lemma trace_loop_inv: "loop_inv trace_loop"
  unfolding trace_loop_def using trace_process_inv
  by (intro keepsD [OF add_rule_inv]) (simp add: loop_inv_def)

lemma trace_process_simps:
  "wrappers trace_process 0 =
     Some \<lparr>w_fd = 3, w_eof = False, w_closed = False, w_read_count = 0, w_write_count = 0\<rparr>"
  "use_count trace_process 0 = 1"
  "world trace_process = \<lparr>pipe = [1, 2], status_flags = 2, closed_fds = [], trace = []\<rparr>"
  by (simp_all add: trace_process_def FileDescriptor_new_def FDWrapper_init_def init_process_def prog_defs)

lemma trace_loop_simps [simp]:
  "rules trace_loop = [\<lparr>rule_fd = 0, rule_direction = In, rule_callback = Reads 0 10,
     rule_interest = Nothing, rule_cancel = Nothing\<rparr>]"
  "wrappers (proc trace_loop) 0 =
     Some \<lparr>w_fd = 3, w_eof = False, w_closed = False, w_read_count = 0, w_write_count = 0\<rparr>"
  "use_count (proc trace_loop) 0 = 2"
  "world (proc trace_loop) = \<lparr>pipe = [1, 2], status_flags = 2, closed_fds = [], trace = []\<rparr>"
  by (simp_all add: trace_loop_def add_rule_eq trace_process_simps)

lemma trace_loop_world [simp]:
  "(proc trace_loop)\<lparr>world := \<lparr>pipe = [1, 2], status_flags = 2, closed_fds = [], trace = []\<rparr>\<rparr> = proc trace_loop"
  unfolding trace_loop_simps(4) [symmetric] by (simp del: trace_loop_simps)

lemma trace_loop_steady: "steady_client trace_client" "loop_client trace_client"
  unfolding trace_client_def by (rule steady_fd_client, rule loop_fd_client)

lemma trace_loop_setup:
  "setup_loop P trace_client 0 [] False trace_loop =
     Some (Inr ([\<lparr>pfd_fd = 3, pfd_events = POLLIN, pfd_revents = 0\<rparr>], True), trace_loop)"
proof -
  have ask: "ask trace_client a s = (Inr True, s)" for a s
    by (simp add: trace_client_def fd_client_def default_interest_def on_proc_id ret_def)
  have "setup_step P trace_client 0 [] False trace_loop =
     (Inr (1, [\<lparr>pfd_fd = 3, pfd_events = POLLIN, pfd_revents = 0\<rparr>], True), trace_loop)"
    by (simp add: setup_step_eq defunct_def bnd_Inr ask on_proc_id accessor_eq poll_entry_def ret_def)
  then show ?thesis by (simp add: setup_loop_next setup_loop.simps [of P trace_client "Suc 0"])
qed

lemma trace_loop_callback:
  "\<exists>t. call trace_client (Reads 0 10) trace_loop = (Inr (), t) \<and> rules t = rules trace_loop \<and>
       wrappers (proc t) 0 =
         Some \<lparr>w_fd = 3, w_eof = False, w_closed = False, w_read_count = 1, w_write_count = 0\<rparr>"
proof -
  let ?p = "(proc trace_loop)\<lparr>world := \<lparr>pipe = [1, 2], status_flags = 2, closed_fds = [], trace = [Reads 0 10]\<rparr>\<rparr>"
  have sys: "sys_read demo_kernel (w_fd \<lparr>w_fd = 3, w_eof = False, w_closed = False, w_read_count = 0, w_write_count = 0\<rparr>)
      (take (min BUFFER_SIZE 10) [] @ replicate (min BUFFER_SIZE 10 - length ([] :: bytes)) 0) (world ?p) =
    ((\<lparr>sr_val = 2, sr_errno = 0\<rparr>, [1, 2] @ replicate 8 0), (world ?p)\<lparr>pipe := []\<rparr>)"
    by (simp add: demo_kernel_simps BUFFER_SIZE_def)
  have "\<exists>q. FileDescriptor_read demo_kernel 0 10 ?p = (Inr [1, 2], q) \<and>
      wrappers q 0 = Some \<lparr>w_fd = 3, w_eof = False, w_closed = False, w_read_count = 1, w_write_count = 0\<rparr>"
    unfolding FileDescriptor_read_def
    by (subst read_into_eq [OF _ sys]) (simp_all add: read_answer_def BUFFER_SIZE_def)
  then show ?thesis
    by (auto simp: trace_client_def fd_client_def on_proc_def noted_eq if_held_def bnd_Inr ret_def)
qed

lemma trace_logs: "logs demo_kernel trace_client trace"
proof -
  let ?I = "\<lambda>L (q :: fd_action trace_world process). trace (world q) = L"
  have sys: "keeps (?I L) (syscall (sys_close demo_kernel fd))"
    "keeps (?I L) (syscall (sys_read demo_kernel fd buf))"
    "keeps (?I L) (syscall (sys_writev demo_kernel fd iov))" for fd buf iov L
    by (auto intro!: keepsI simp: syscall_def demo_kernel_def Let_def)
  have wr: "keeps (?I L) (modify_wrapper h f)" for h f L
    unfolding modify_wrapper_def put_wrapper_def by (intro keeps_intros keeps_get_wrapper keeps_modify) simp
  have once: "keeps (?I L) (write_once demo_kernel h buffer)" for h buffer L
    unfolding write_once_def fd_accessor_defs Let_def by (intro keeps_intros keeps_get_wrapper sys wr)
  have "keeps (?I L) (FileDescriptor_read demo_kernel h n)"
    "keeps (?I L) (FileDescriptor_close demo_kernel h)"
    "keeps (?I L) (FileDescriptor_write_string demo_kernel h str True)"
    for h n str L
    unfolding FileDescriptor_read_def read_into_local FileDescriptor_close_def FDWrapper_close_def
      FileDescriptor_write_string_def FileDescriptor_write_def fd_accessor_defs Let_def
    by (intro keeps_intros keeps_get_wrapper sys wr | rule keepsI, rule keeps_write_loop, rule once, assumption)+
  then have "keeps (?I L) (run_action demo_kernel a)" for a L
    by (cases a) (simp_all add: keeps_if_held keeps_ret default_cancel_def)
  from keepsD [OF this] have "trace (world (snd (run_action demo_kernel a s))) = trace (world s)"
    for a and s :: "fd_action trace_world process"
    by simp
  then show ?thesis
    by (auto simp: logs_def trace_client_def fd_client_def noted_eq default_interest_def ret_def
        demo_kernel_simps)
qed

subsection \<open>Properties\<close>

text \<open>
  One turn of the loop, with any client that keeps its part of the contract (it may throw,
  and it may add rules) and any kernel, leaves the process well-formed and every remaining
  rule holding a live use of its descriptor, whether it returns or throws.
\<close>

theorem loop_turn_keeps_inv:
  assumes "loop_client C" and "loop_inv s" and "wait_next_event P C timeout_ms s = Some (r, t)"
  shows "process_inv (proc t) \<and> (\<forall>h. rule_uses (rules t) h \<le> use_count (proc t) h) \<and>
    (\<forall>rule \<in> set (rules t). wrappers (proc t) (rule_fd rule) \<noteq> None)"
proof -
  from loop_client.wait_next_event_inv [OF assms] have inv: "loop_inv t" .
  then have "wrappers (proc t) (rule_fd rule) \<noteq> None" if "rule \<in> set (rules t)" for rule
    using that loop_rule_live by (metis option.distinct(1))
  with inv show ?thesis by (simp add: loop_inv_def)
qed

theorem loop_turn_keeps_inv_witness:
  "\<exists>r t. wait_next_event demo_kernel trace_client 10 trace_loop = Some (r, t) \<and> process_inv (proc t)"
proof -
  have "length (snd (fst (sys_poll demo_kernel ps 10 W))) = length ps" for ps and W :: "fd_action trace_world"
    by (simp add: demo_kernel_simps)
  from steady_client.wait_next_event_returns [OF trace_loop_steady(1) trace_loop_inv this]
  obtain r t where "wait_next_event demo_kernel trace_client 10 trace_loop = Some (r, t)" by blast
  with loop_turn_keeps_inv [OF trace_loop_steady(2) trace_loop_inv this] show ?thesis by blast
qed

text \<open>
  C10: With a client that adds no rules during the turn, \<^verbatim>\<open>wait_next_event\<close> ends, and it never
  reads \<^verbatim>\<open>pollfds\<close> out of range or uses a descriptor that is gone, for any kernel whose
  \<^verbatim>\<open>poll\<close> fills in the array it was given.
\<close>

theorem loop_turn_ends:
  assumes "steady_client C" and "loop_inv s"
    and "\<And>ps W. length (snd (fst (sys_poll P ps timeout_ms W))) = length ps"
  shows "\<exists>r t. wait_next_event P C timeout_ms s = Some (r, t) \<and> \<not> undefined_behaviour r"
  using assms by (rule steady_client.wait_next_event_returns)

theorem loop_turn_ends_witness:
  "\<exists>r t. wait_next_event demo_kernel trace_client 10 trace_loop = Some (r, t) \<and> \<not> undefined_behaviour r"
  by (rule loop_turn_ends [OF trace_loop_steady(1) trace_loop_inv]) (simp add: demo_kernel_simps)

text \<open>
  C6: When a turn returns \<^verbatim>\<open>Success\<close>, no polled descriptor reported an error, and the client
  functions called after \<^verbatim>\<open>poll\<close> are exactly these, in the order of the rules: the cancel function
  of a rule whose descriptor only hung up, the callback of a rule whose event is there, and
  none for any other rule. The rules that hung up are gone and all others remain, in order.
\<close>

theorem loop_serves_in_order:
  assumes "steady_client C" and "loop_inv s" and "logs P C log"
    and "setup_loop P C 0 [] False s = Some (Inr (pollfds, True), t)"
    and "sys_poll P pollfds timeout_ms (world (proc t)) = ((v, answers), W)"
    and "length answers = length pollfds" and "sr_val v > 0"
    and "wait_next_event P C timeout_ms s = Some (Inr Success, u)"
  shows "(\<forall>p \<in> set answers. \<not> poll_failed p) \<and>
    rules u = map fst (filter (\<lambda>(rule, p). \<not> hung_up p) (zip (rules t) answers)) \<and>
    log (world (proc u)) = log W @
      concat (map (\<lambda>(rule, p). if hung_up p then [rule_cancel rule]
                               else if poll_is_ready p then [rule_callback rule] else []) (zip (rules t) answers))"
proof -
  note L = steady_client.setup_loop_returns [OF assms(1,2), of 0 "[]" P False]
  from L assms(4) have t: "loop_inv t" "length pollfds = length (rules t)" by auto
  let ?t = "t\<lparr>proc := (proc t)\<lparr>world := W\<rparr>\<rparr>"
  from t(1) have inv: "loop_inv ?t" by (simp add: loop_inv_def process_inv_def)
  have len: "0 + length answers = length (rules ?t)" using assms(6) t(2) by simp
  have loop: "results_loop P C 0 answers ?t = (Inr (), u)"
    using assms(4,7,8) poll_and_serve_eq [OF assms(5), of C]
    by (auto simp: wait_next_event_def Let_def bnd_eq_Inr ret_def)
  show ?thesis
    using steady_client.results_loop_steady [OF assms(1) inv len loop]
      steady_client.results_loop_log [OF assms(1,3) inv len loop]
    by (simp add: served_def)
qed

theorem loop_serves_in_order_witness:
  "\<exists>u. wait_next_event demo_kernel trace_client 10 trace_loop = Some (Inr Success, u) \<and>
       trace (world (proc u)) = [Reads 0 10] \<and> length (rules u) = 1"
proof -
  let ?p = "\<lparr>pfd_fd = 3, pfd_events = POLLIN, pfd_revents = POLLIN\<rparr>"
  have poll: "sys_poll demo_kernel [\<lparr>pfd_fd = 3, pfd_events = POLLIN, pfd_revents = 0\<rparr>] 10 (world (proc trace_loop)) =
    ((\<lparr>sr_val = 1, sr_errno = 0\<rparr>, [?p]), world (proc trace_loop))"
    by (simp add: demo_kernel_simps)
  have p: "\<not> poll_failed ?p" "\<not> hung_up ?p" "poll_is_ready ?p"
    by (simp_all add: poll_failed_def hung_up_def poll_is_ready_def poll_defs)
  have "\<exists>u. results_step demo_kernel trace_client 0 ?p trace_loop = (Inr 1, u) \<and> rules u = rules trace_loop"
    using trace_loop_callback
    by (auto simp: results_step_eq p serve_rule_def bnd_assoc bnd_Inr service_count_eq wrapper_count_def ret_def)
  then obtain u where "wait_next_event demo_kernel trace_client 10 trace_loop = Some (Inr Success, u)"
    by (auto simp: wait_next_event_def trace_loop_setup poll_and_serve_eq [OF poll] Let_def bnd_Inr
        results_loop_next results_loop_stop ret_def)
  with loop_serves_in_order [OF trace_loop_steady(1) trace_loop_inv trace_logs trace_loop_setup poll _ _ this] p
  show ?thesis by auto
qed

text \<open>
  C24: When the interest and cancel functions touch nothing but client data, the first half of
  \<^verbatim>\<open>wait_next_event\<close> is a filter and a map: the rules that are dropped are those whose descriptor is
  closed or, for reading rules, at EOF; the array for \<^verbatim>\<open>poll\<close> has one entry per remaining
  rule, in order, asking for the rule's event if it is interested and for errors only if not;
  and if none is interested the result is \<^verbatim>\<open>Exit\<close> without a poll.
\<close>

theorem loop_poll_array:
  assumes "loop_inv s"
    and "\<forall>r \<in> set (rules s). quiet_cancel C (rule_cancel r) \<and> quiet_interest C (rule_interest r) (want r)"
  shows "\<exists>t. rules t = filter (\<lambda>r. \<not> (rule_direction r = In \<and> w_eof (wrapper_of s r) \<or> w_closed (wrapper_of s r))) (rules s) \<and>
    wait_next_event P C timeout_ms s = Some
      (if \<forall>r \<in> set (rules t). \<not> want r then (Inr Exit, t)
       else poll_and_serve P C timeout_ms
         (map (\<lambda>r. \<lparr>pfd_fd = w_fd (wrapper_of s r),
                     pfd_events = (if want r then direction_events (rule_direction r) else 0),
                     pfd_revents = 0\<rparr>) (rules t)) t)"
proof -
  from setup_loop_quiet [OF assms(1) _ assms(2), of 0 P "[]" False] obtain t where
    run: "setup_loop P C 0 [] False s =
      Some (Inr (poll_array s want (rules t), \<exists>r \<in> set (rules t). want r), t)" "rules t = live_rules s (rules s)"
    by auto
  have "wait_next_event P C timeout_ms s = Some
      (if \<forall>r \<in> set (rules t). \<not> want r then (Inr Exit, t)
       else poll_and_serve P C timeout_ms (poll_array s want (rules t)) t)"
    unfolding wait_next_event_def run(1) by (auto simp: ret_def)
  with run(2) show ?thesis
    by (intro exI [of _ t]) (simp only: live_rules_def defunct_def poll_array_def poll_entry_def simp_thms)
qed

theorem loop_poll_array_witness:
  "\<exists>t. rules t = rules trace_loop \<and> wait_next_event demo_kernel trace_client 10 trace_loop =
     Some (poll_and_serve demo_kernel trace_client 10 [\<lparr>pfd_fd = 3, pfd_events = POLLIN, pfd_revents = 0\<rparr>] t)"
proof -
  have "quiet_cancel trace_client Nothing" "quiet_interest trace_client Nothing True"
    by (auto simp: quiet_cancel_def quiet_interest_def world_only_refl trace_client_def fd_client_def
        on_proc_def noted_eq default_cancel_def default_interest_def ret_def)
      (auto simp: world_only_def)
  then have "\<forall>r \<in> set (rules trace_loop). quiet_cancel trace_client (rule_cancel r) \<and>
      quiet_interest trace_client (rule_interest r) True"
    by simp
  from loop_poll_array [OF trace_loop_inv this, of demo_kernel 10] show ?thesis
    by (auto simp: wrapper_of_def)
qed

text \<open>
  Serving a rule whose event is there: the callback runs, and the turn goes on to the next rule
  if the callback read (wrote) the descriptor or the rule is no longer interested; otherwise
  the busy wait is detected and thrown.
\<close>

theorem loop_busy_wait:
  assumes "i < length (rules s)" and "rules s ! i = rule" and "wrappers (proc s) (rule_fd rule) = Some w"
    and "pfd_revents p AND (POLLERR OR POLLNVAL) = 0" and "pfd_revents p AND pfd_events p \<noteq> 0"
    and "call C (rule_callback rule) s = (Inr (), t)" and "wrappers (proc t) (rule_fd rule) = Some w'"
    and "ask C (rule_interest rule) t = (Inr interested, u)"
  shows "results_step P C i p s =
    (if (case rule_direction rule of In \<Rightarrow> w_read_count w = w_read_count w' | Out \<Rightarrow> w_write_count w = w_write_count w')
     then (if interested
           then Inl (RuntimeError ''EventLoop: busy wait detected: callback did not read/write fd and is still interested'')
           else Inr (Suc i), u)
     else (Inr (Suc i), t))"
proof -
  from assms(4,5) have "\<not> poll_failed p" "\<not> hung_up p" "poll_is_ready p"
    by (auto simp: poll_failed_def hung_up_def poll_is_ready_def)
  then show ?thesis
    using assms(1-3,6-8)
    by (auto simp: results_step_eq Let_def serve_rule_def bnd_assoc bnd_Inr service_count_eq wrapper_count_def
        throw_def ret_def split: Direction.splits)
qed

theorem loop_busy_wait_witness:
  "\<exists>t. results_step demo_kernel trace_client 0 \<lparr>pfd_fd = 3, pfd_events = POLLIN, pfd_revents = POLLIN\<rparr> trace_loop =
     (Inr 1, t)"
proof -
  obtain t where t: "call trace_client (Reads 0 10) trace_loop = (Inr (), t)"
    "wrappers (proc t) 0 = Some \<lparr>w_fd = 3, w_eof = False, w_closed = False, w_read_count = 1, w_write_count = 0\<rparr>"
    using trace_loop_callback by blast
  have "ask trace_client Nothing t = (Inr True, t)"
    by (simp add: trace_client_def fd_client_def default_interest_def on_proc_id ret_def)
  with t show ?thesis
    by (subst loop_busy_wait [where t = t]) (auto simp: poll_defs)
qed

text \<open>
  C36: A failed \<^verbatim>\<open>poll\<close> other than an interrupted one is not reported: the turn returns
  \<^verbatim>\<open>Success\<close> and calls no client function after it.
\<close>

theorem loop_poll_failure_ignored:
  assumes "steady_client C" and "loop_inv s"
    and "setup_loop P C 0 [] False s = Some (Inr (pollfds, True), t)"
    and "sys_poll P pollfds timeout_ms (world (proc t)) = ((\<lparr>sr_val = - 1, sr_errno = e\<rparr>, pollfds), W)"
    and "e \<noteq> EINTR"
  shows "wait_next_event P C timeout_ms s = Some (Inr Success, t\<lparr>proc := (proc t)\<lparr>world := W\<rparr>\<rparr>)"
proof -
  from steady_client.setup_loop_returns [OF assms(1,2), of 0 "[]" P False] assms(3)
  have "length pollfds = length (rules t)" "\<forall>p \<in> set pollfds. pfd_revents p = 0" by auto
  then have "results_loop P C 0 pollfds (t\<lparr>proc := (proc t)\<lparr>world := W\<rparr>\<rparr>) = (Inr (), t\<lparr>proc := (proc t)\<lparr>world := W\<rparr>\<rparr>)"
    by (intro results_loop_idle) simp_all
  then show ?thesis
    using assms(3,5) by (simp add: wait_next_event_def poll_and_serve_eq [OF assms(4)] Let_def bnd_Inr ret_def)
qed

theorem loop_poll_failure_ignored_witness:
  "wait_next_event (demo_kernel\<lparr>sys_poll := \<lambda>ps timeout W. ((\<lparr>sr_val = - 1, sr_errno = 22\<rparr>, ps), W)\<rparr>)
     trace_client 10 trace_loop = Some (Inr Success, trace_loop)"
  using loop_poll_failure_ignored [OF trace_loop_steady(1) trace_loop_inv trace_loop_setup,
      of "demo_kernel\<lparr>sys_poll := \<lambda>ps timeout W. ((\<lparr>sr_val = - 1, sr_errno = 22\<rparr>, ps), W)\<rparr>" 10 22
        "world (proc trace_loop)"]
  by (simp add: EINTR_def)

text \<open>
  C37: A callback that adds a rule takes the loop out of its array: with one rule, ready, whose
  callback services its descriptor and adds a rule, \<^verbatim>\<open>wait_next_event\<close> goes on to read
  \<^verbatim>\<open>pollfds[1]\<close> of a vector of one element.
\<close>

theorem loop_added_rule_undefined:
  assumes "rules s = [rule]" and "wrappers (proc s) (rule_fd rule) = Some w" and "\<not> defunct rule w"
    and "ask C (rule_interest rule) s = (Inr True, s)"
    and "sys_poll P [poll_entry rule (w_fd w) True] timeout_ms (world (proc s)) = ((v, [p]), world (proc s))"
    and "sr_val v > 0" and "pfd_revents p AND (POLLERR OR POLLNVAL) = 0" and "pfd_revents p AND pfd_events p \<noteq> 0"
    and "call C (rule_callback rule) s = (Inr (), t)" and "rules t = [rule, added]"
    and "wrappers (proc t) (rule_fd rule) = Some w'" and "wrapper_count rule w \<noteq> wrapper_count rule w'"
  shows "wait_next_event P C timeout_ms s = Some (Inl (UndefinedBehaviour ''pollfds[idx] out of range''), t)"
proof -
  from assms(7,8) have p: "\<not> poll_failed p" "\<not> hung_up p" "poll_is_ready p"
    by (auto simp: poll_failed_def hung_up_def poll_is_ready_def)
  have "setup_step P C 0 [] False s = (Inr (1, [poll_entry rule (w_fd w) True], True), s)"
    using assms(1-4) by (simp add: setup_step_eq bnd_Inr on_proc_id accessor_eq ret_def)
  then have run: "setup_loop P C 0 [] False s = Some (Inr ([poll_entry rule (w_fd w) True], True), s)"
    using assms(1) by (simp add: setup_loop_next setup_loop.simps [of P C "Suc 0"])
  have "results_step P C 0 p s = (Inr 1, t)"
    using assms(1,2,9-12) p
    by (simp add: results_step_eq serve_rule_def bnd_assoc bnd_Inr service_count_eq ret_def)
  then have "results_loop P C 0 [p] s = (Inl (UndefinedBehaviour ''pollfds[idx] out of range''), t)"
    using assms(1,10) by (simp add: results_loop_next results_loop_past)
  with run assms(6) show ?thesis
    by (simp add: wait_next_event_def poll_and_serve_eq [OF assms(5)] Let_def bnd_Inl)
qed

theorem loop_added_rule_undefined_witness:
  "\<exists>t. wait_next_event demo_kernel
     (trace_client\<lparr>call := \<lambda>c. bnd (call trace_client c) (\<lambda>_. add_rule 0 In Nothing Nothing Nothing)\<rparr>)
     10 trace_loop = Some (Inl (UndefinedBehaviour ''pollfds[idx] out of range''), t)"
proof -
  let ?C = "trace_client\<lparr>call := \<lambda>c. bnd (call trace_client c) (\<lambda>_. add_rule 0 In Nothing Nothing Nothing)\<rparr>"
  let ?w = "\<lparr>w_fd = 3, w_eof = False, w_closed = False, w_read_count = 0, w_write_count = 0\<rparr>"
  let ?rule = "\<lparr>rule_fd = 0, rule_direction = In, rule_callback = Reads 0 10,
    rule_interest = Nothing, rule_cancel = Nothing\<rparr>"
  let ?w' = "\<lparr>w_fd = 3, w_eof = False, w_closed = False, w_read_count = 1, w_write_count = 0\<rparr>"
  let ?v = "\<lparr>sr_val = 1, sr_errno = 0\<rparr>"
  let ?p = "\<lparr>pfd_fd = 3, pfd_events = POLLIN, pfd_revents = POLLIN\<rparr>"
  have ask: "ask trace_client c u = (Inr True, u)" for c u
    by (simp add: trace_client_def fd_client_def default_interest_def on_proc_id ret_def)
  obtain t where "call trace_client (Reads 0 10) trace_loop = (Inr (), t)" "rules t = rules trace_loop"
    "wrappers (proc t) 0 = Some \<lparr>w_fd = 3, w_eof = False, w_closed = False, w_read_count = 1, w_write_count = 0\<rparr>"
    using trace_loop_callback by blast
  then obtain t' added where t': "call ?C (Reads 0 10) trace_loop = (Inr (), t')" "rules t' = rules trace_loop @ [added]"
    "wrappers (proc t') 0 = Some \<lparr>w_fd = 3, w_eof = False, w_closed = False, w_read_count = 1, w_write_count = 0\<rparr>"
    by (auto simp: bnd_Inr add_rule_eq)
  show ?thesis
    by (rule exI, rule loop_added_rule_undefined [where rule = ?rule and w = ?w and w' = ?w'
          and v = ?v and p = ?p and t = t' and added = added])
      (use t' in \<open>simp_all add: ask defunct_def demo_kernel_simps poll_entry_def poll_defs wrapper_count_def\<close>)
qed

end
