(* ===== verification/Loop_Run.thy ===== *)
theory Loop_Run
  imports EventLoop
begin

text \<open>
  The life of an event loop: rules are added, turns are taken, the program uses its own
  descriptors in between, and in the end the loop is destroyed, and its rules with it. The
  destructor is the implicit one of the class: it destroys the list \<^verbatim>\<open>_rules\<close>, from the first to
  the last rule, and with each rule the FileDescriptor it holds.
\<close>

fun destroy_rules :: "('w, 'z) posix_scheme \<Rightarrow> 'c Rule list \<Rightarrow> ('w process, unit) prog" where
  "destroy_rules P [] = ret ()"
| "destroy_rules P (rule # rs) = bnd (FileDescriptor_destructor P (rule_fd rule)) (\<lambda>_. destroy_rules P rs)"

definition EventLoop_destructor :: "('w, 'z) posix_scheme \<Rightarrow> (('w, 'c) EventLoop, unit) prog" where
  "EventLoop_destructor P s =
     (let (r, p) = destroy_rules P (rules s) (proc s) in (r, s\<lparr>rules := [], proc := p\<rparr>))"

subsection \<open>Destroying the rules\<close>

lemma destroy_rules_effect:
  assumes "process_inv p" and "\<And>h. rule_uses rs h \<le> use_count p h"
  shows "\<exists>q. destroy_rules P rs p = (Inr (), q) \<and> process_inv q \<and>
    (\<forall>h. use_count q h = use_count p h - rule_uses rs h) \<and>
    (\<forall>h. rule_uses rs h < use_count p h \<longrightarrow> wrappers q h = wrappers p h)"
  using assms
proof (induction rs arbitrary: p)
  case Nil
  then show ?case by (simp add: ret_def)
next
  case (Cons rule rs)
  let ?h = "rule_fd rule" and ?p = "snd (FileDescriptor_destructor P (rule_fd rule) p)"
  have use: "use_count p ?h \<noteq> 0" using Cons.prems(2) [of ?h] by simp
  then obtain w where w: "wrappers p ?h = Some w" using process_inv_None [OF Cons.prems(1), of ?h] by auto
  note eff = destructor_effect [OF w use, of P]
  have inv: "process_inv ?p" using keeps_destructor Cons.prems(1) by (rule keepsD)
  have "rule_uses rs h \<le> use_count ?p h" for h
    using Cons.prems(2) [of h] by (auto simp: eff(1))
  from Cons.IH [OF inv this] obtain q where q: "destroy_rules P rs ?p = (Inr (), q)" "process_inv q"
    "\<And>h. use_count q h = use_count ?p h - rule_uses rs h"
    "\<And>h. rule_uses rs h < use_count ?p h \<Longrightarrow> wrappers q h = wrappers ?p h" by blast
  have "destroy_rules P (rule # rs) p = (Inr (), q)"
    using q(1) destructor_ret [OF w, of P] by (simp add: bnd_def split_beta split: sum.splits)
  moreover have "use_count q h = use_count p h - rule_uses (rule # rs) h" for h
    using q(3) [of h] by (simp add: eff(1))
  moreover have "wrappers q h = wrappers p h" if "rule_uses (rule # rs) h < use_count p h" for h
    using q(4) [of h] that by (auto simp: eff(1,2) split: if_splits)
  ultimately show ?case using q(2) by blast
qed

lemma EventLoop_destructor_effect:
  assumes "loop_inv s"
  shows "\<exists>t. EventLoop_destructor P s = (Inr (), t) \<and> rules t = [] \<and> process_inv (proc t) \<and>
    (\<forall>h. use_count (proc t) h = use_count (proc s) h - rule_uses (rules s) h) \<and>
    (\<forall>h. rule_uses (rules s) h < use_count (proc s) h \<longrightarrow> wrappers (proc t) h = wrappers (proc s) h)"
proof -
  from assms obtain q where "destroy_rules P (rules s) (proc s) = (Inr (), q)" "process_inv q"
    "\<forall>h. use_count q h = use_count (proc s) h - rule_uses (rules s) h"
    "\<forall>h. rule_uses (rules s) h < use_count (proc s) h \<longrightarrow> wrappers q h = wrappers (proc s) h"
    using destroy_rules_effect [of "proc s" "rules s" P] by (auto simp: loop_inv_def)
  then show ?thesis by (simp add: EventLoop_destructor_def)
qed

subsection \<open>Reachable loops\<close>

text \<open>
  The program adds rules for descriptors it holds, takes turns, and does what programs do with
  descriptors; it gives up no use but its own, that is, none that belongs to a rule. A turn that ends in undefined behaviour leads
  nowhere.
\<close>

inductive loop_step ::
  "('w, 'z) posix_scheme \<Rightarrow> ('w, 'c) client \<Rightarrow> ('w, 'c) EventLoop \<Rightarrow> ('w, 'c) EventLoop \<Rightarrow> bool" for P C where
  add: "rule_uses (rules s) h < use_count (proc s) h \<Longrightarrow>
    loop_step P C s (snd (add_rule h direction callback interest cancel s))"
| turn: "wait_next_event P C timeout_ms s = Some (r, t) \<Longrightarrow> \<not> undefined_behaviour r \<Longrightarrow> loop_step P C s t"
| program: "fd_step P (proc s) p \<Longrightarrow> (\<And>h. rule_uses (rules s) h \<le> use_count p h) \<Longrightarrow> loop_step P C s (s\<lparr>proc := p\<rparr>)"

lemma loop_step_inv:
  assumes "loop_client C" and "loop_step P C s t" and "loop_inv s"
  shows "loop_inv t"
  using assms(2,3)
proof (induction rule: loop_step.induct)
  case (add s h direction callback interest cancel)
  then show ?case by (auto intro: keepsD [OF add_rule_inv])
next
  case (turn timeout_ms s r t)
  with assms(1) show ?case by (auto intro: loop_client.wait_next_event_inv)
next
  case (program s p)
  then show ?case by (auto simp: loop_inv_def intro: fd_step_inv)
qed

lemma reachable_loop_inv:
  assumes "loop_client C" and "(loop_step P C)\<^sup>*\<^sup>* \<lparr>rules = [], proc = init_process W\<rparr> s"
  shows "loop_inv s"
  using assms(2)
proof (induction rule: rtranclp_induct)
  case base
  show ?case by (simp add: loop_inv_def process_inv_init)
next
  case (step y z)
  then show ?case by (blast intro: loop_step_inv [OF assms(1)])
qed

subsection \<open>Property\<close>

text \<open>
  C7: Whatever a program does with an event loop (adding rules for descriptors it holds, taking
  turns with callbacks that may throw, using, sharing and giving up its own
  descriptors in between, against any kernel whose \<^verbatim>\<open>poll\<close> fills in the array it is given): every rule's descriptor is alive; a rule can be
  added for any descriptor the program holds; the next turn ends and is not undefined, when the callbacks add no rules; and when the loop is
  destroyed nothing is thrown, each rule gives up its one use, and exactly the descriptors that only rules were holding are gone.
\<close>

theorem reachable_loops_safe:
  assumes "loop_client C" and "(loop_step P C)\<^sup>*\<^sup>* \<lparr>rules = [], proc = init_process W\<rparr> s"
    and "\<And>ps timeout W. length (snd (fst (sys_poll P ps timeout W))) = length ps"
  shows "(\<forall>rule \<in> set (rules s). wrappers (proc s) (rule_fd rule) \<noteq> None) \<and>
    (\<forall>h. rule_uses (rules s) h < use_count (proc s) h \<longrightarrow>
       fst (add_rule h direction callback interest cancel s) = Inr ()) \<and>
    (steady_client C \<longrightarrow> (\<exists>r t. wait_next_event P C timeout_ms s = Some (r, t) \<and> \<not> undefined_behaviour r \<and> loop_inv t)) \<and>
    (\<exists>t. EventLoop_destructor P s = (Inr (), t) \<and> rules t = [] \<and> process_inv (proc t) \<and>
       (\<forall>h. use_count (proc t) h + rule_uses (rules s) h = use_count (proc s) h) \<and>
       (\<forall>h. wrappers (proc t) h = (if use_count (proc s) h = rule_uses (rules s) h then None else wrappers (proc s) h)))"
proof -
  have inv: "loop_inv s" using assms(1,2) by (rule reachable_loop_inv)
  then have p: "process_inv (proc s)" and le: "rule_uses (rules s) h \<le> use_count (proc s) h" for h
    by (simp_all add: loop_inv_def)
  have live: "wrappers (proc s) (rule_fd rule) \<noteq> None" if "rule \<in> set (rules s)" for rule
    using loop_rule_live [OF inv that] by blast
  have add: "fst (add_rule h direction callback interest cancel s) = Inr ()"
    if "rule_uses (rules s) h < use_count (proc s) h" for h
  proof -
    have "0 < use_count (proc s) h" using that by simp
    with p obtain w where "wrappers (proc s) h = Some w" by (rule live_handle)
    then show ?thesis by (simp add: add_rule_eq)
  qed
  have turn: "\<exists>r t. wait_next_event P C timeout_ms s = Some (r, t) \<and> \<not> undefined_behaviour r \<and> loop_inv t" if "steady_client C"
    using steady_client.wait_next_event_returns [OF that inv assms(3)] loop_client.wait_next_event_inv [OF assms(1) inv] by blast
  obtain t where t: "EventLoop_destructor P s = (Inr (), t)" "rules t = []" "process_inv (proc t)"
    "\<And>h. use_count (proc t) h = use_count (proc s) h - rule_uses (rules s) h"
    "\<And>h. rule_uses (rules s) h < use_count (proc s) h \<Longrightarrow> wrappers (proc t) h = wrappers (proc s) h"
    using EventLoop_destructor_effect [OF inv, of P] by blast
  have "wrappers (proc t) h = (if use_count (proc s) h = rule_uses (rules s) h then None else wrappers (proc s) h)" for h
  proof (cases "use_count (proc s) h = rule_uses (rules s) h")
    case True
    then show ?thesis using process_inv_None [OF t(3), of h] t(4) [of h] by simp
  next
    case False
    then show ?thesis using t(5) [of h] le [of h] by simp
  qed
  moreover have "use_count (proc t) h + rule_uses (rules s) h = use_count (proc s) h" for h
    using t(4) [of h] le [of h] by simp
  ultimately show ?thesis using live add turn t(1-3) by blast
qed

theorem reachable_loops_safe_witness:
  "(\<exists>r t. wait_next_event demo_kernel trace_client 10 trace_loop = Some (r, t) \<and> \<not> undefined_behaviour r \<and> loop_inv t) \<and>
   (\<exists>t. EventLoop_destructor demo_kernel trace_loop = (Inr (), t) \<and> use_count (proc t) 0 = 1 \<and> wrappers (proc t) 0 \<noteq> None)"
proof -
  let ?W = "\<lparr>pipe = [1, 2], status_flags = 2, closed_fds = [], trace = []\<rparr>"
  let ?s = "\<lparr>rules = [], proc = init_process ?W\<rparr>"
  have "loop_step demo_kernel trace_client ?s (?s\<lparr>proc := trace_process\<rparr>)"
    unfolding trace_process_def by (rule loop_step.program) (auto intro: fd_step.new)
  moreover have "loop_step demo_kernel trace_client (?s\<lparr>proc := trace_process\<rparr>) trace_loop"
    unfolding trace_loop_def using trace_process_simps(2) by (auto intro: loop_step.add)
  ultimately have run: "(loop_step demo_kernel trace_client)\<^sup>*\<^sup>* ?s trace_loop" by (meson converse_rtranclp_into_rtranclp rtranclp.rtrancl_refl)
  have poll: "length (snd (fst (sys_poll demo_kernel ps timeout W))) = length ps" for ps timeout and W :: "fd_action trace_world"
    by (simp add: demo_kernel_simps)
  note safe = reachable_loops_safe [where timeout_ms = 10, OF trace_loop_steady(2) run poll, THEN conjunct2, THEN conjunct2]
  have turn: "\<exists>r t. wait_next_event demo_kernel trace_client 10 trace_loop = Some (r, t) \<and> \<not> undefined_behaviour r \<and> loop_inv t"
    by (rule safe [THEN conjunct1, rule_format, OF trace_loop_steady(1)])
  obtain t where t: "EventLoop_destructor demo_kernel trace_loop = (Inr (), t)"
    "use_count (proc t) 0 + rule_uses (rules trace_loop) 0 = use_count (proc trace_loop) 0"
    "wrappers (proc t) 0 = (if use_count (proc trace_loop) 0 = rule_uses (rules trace_loop) 0 then None else wrappers (proc trace_loop) 0)"
    using safe [THEN conjunct2] by blast
  then have "use_count (proc t) 0 = 1" "wrappers (proc t) 0 \<noteq> None" by simp_all
  with t(1) turn show ?thesis by blast
qed

end
