(* ===== verification/Address.thy ===== *)
theory Address
  imports Parser File_Descriptor
begin

text \<open>
  \<^verbatim>\<open>util/address.hh\<close> and \<^verbatim>\<open>util/address.cc\<close>. A \<^verbatim>\<open>sockaddr_storage\<close> is its 128 bytes; a
  \<^verbatim>\<open>sockaddr_in\<close> is laid out in 16 of them, its family in host byte order and its port and
  address in network byte order. The byte order of the host is a parameter (\<open>be\<close>: big endian), so
  that \<^verbatim>\<open>htobe32\<close> and \<^verbatim>\<open>be32toh\<close> mean something. The resolver functions
  \<^verbatim>\<open>getaddrinfo\<close> and \<^verbatim>\<open>getnameinfo\<close> are further fields of the kernel record; they see a
  \<^verbatim>\<open>std::string\<close> up to its first NUL.
\<close>

subsection \<open>The resolver\<close>

record addrinfo =
  ai_flags :: int
  ai_family :: int

record 'w netdb = "'w posix" +
  sys_getaddrinfo :: "string \<Rightarrow> string \<Rightarrow> addrinfo \<Rightarrow> 'w \<Rightarrow> (int \<times> (bytes \<times> nat) option) \<times> 'w"
  sys_getnameinfo :: "bytes \<Rightarrow> nat \<Rightarrow> int \<Rightarrow> 'w \<Rightarrow> (int \<times> string \<times> string) \<times> 'w"
  sys_gai_strerror :: "int \<Rightarrow> string"

definition AF_UNIX :: int where "AF_UNIX = 1"
definition AF_INET :: int where "AF_INET = 2"
definition AI_NUMERICHOST :: int where "AI_NUMERICHOST = 0x0004"
definition AI_ALL :: int where "AI_ALL = 0x0010"
definition AI_NUMERICSERV :: int where "AI_NUMERICSERV = 0x0400"
definition NI_NUMERICHOST :: int where "NI_NUMERICHOST = 1"
definition NI_NUMERICSERV :: int where "NI_NUMERICSERV = 2"

definition c_str :: "string \<Rightarrow> string" where
  "c_str s = takeWhile (\<lambda>c. c \<noteq> CHR 0x00) s"

subsection \<open>Byte order and the layout of a \<^verbatim>\<open>sockaddr_in\<close>\<close>

definition host_bytes :: "bool \<Rightarrow> 'a::len word \<Rightarrow> bytes" where
  "host_bytes be v = (if be then be_bytes v else rev (be_bytes v))"

definition host_word :: "bool \<Rightarrow> bytes \<Rightarrow> 'a::len word" where
  "host_word be bs = be_word (if be then bs else rev bs)"

definition htobe :: "bool \<Rightarrow> 'a::len word \<Rightarrow> 'a word" where
  "htobe be v = host_word be (be_bytes v)"

definition betoh :: "bool \<Rightarrow> 'a::len word \<Rightarrow> 'a word" where
  "betoh be v = be_word (host_bytes be v)"

record sockaddr_in =
  sin_family :: uint16
  sin_port :: uint16
  sin_addr :: uint32
  sin_zero :: bytes

definition sockaddr_in_default :: sockaddr_in where
  "sockaddr_in_default = \<lparr>sin_family = 0, sin_port = 0, sin_addr = 0, sin_zero = replicate 8 0\<rparr>"

definition sockaddr_in_bytes :: "bool \<Rightarrow> sockaddr_in \<Rightarrow> bytes" where
  "sockaddr_in_bytes be sa =
     host_bytes be (sin_family sa) @ host_bytes be (sin_port sa) @ host_bytes be (sin_addr sa) @ sin_zero sa"

definition sockaddr_in_of_bytes :: "bool \<Rightarrow> bytes \<Rightarrow> sockaddr_in" where
  "sockaddr_in_of_bytes be bs =
     \<lparr>sin_family = host_word be (take 2 bs), sin_port = host_word be (take 2 (drop 2 bs)),
      sin_addr = host_word be (take 4 (drop 4 bs)), sin_zero = take 8 (drop 8 bs)\<rparr>"

subsection \<open>Address\<close>

definition sizeof_storage :: nat where "sizeof_storage = 128"

definition sizeof_sockaddr_in :: nat where "sizeof_sockaddr_in = 16"

record Address =
  addr_size :: nat
  addr_storage :: bytes

text \<open>
  \<^verbatim>\<open>Address(const sockaddr *, size_t)\<close>; \<open>mem\<close> is the object the pointer points to, from
  there to its end.
\<close>

definition Address_of_sockaddr :: "bytes \<Rightarrow> nat \<Rightarrow> Address result" where
  "Address_of_sockaddr mem len =
     (if len > sizeof_storage then Inl (RuntimeError ''invalid sockaddr size'')
      else if len > length mem then Inl (UndefinedBehaviour ''memcpy past the end of the sockaddr'')
      else Inr \<lparr>addr_size = len, addr_storage = take len mem @ replicate (sizeof_storage - len) 0\<rparr>)"

text \<open>
  The same constructor given a pointer that may be null. \<^verbatim>\<open>memcpy\<close> from a null pointer is undefined in C++17, also of zero bytes;
  \<open>null_ok\<close> says that the C library defines that case, as a copy of nothing.
\<close>

definition Address_of_pointer :: "bool \<Rightarrow> bytes option \<Rightarrow> nat \<Rightarrow> Address result" where
  "Address_of_pointer null_ok addr len =
     (case addr of
        Some mem \<Rightarrow> Address_of_sockaddr mem len
      | None \<Rightarrow>
          if len > sizeof_storage then Inl (RuntimeError ''invalid sockaddr size'')
          else if len = 0 \<and> null_ok then Inr \<lparr>addr_size = 0, addr_storage = replicate sizeof_storage 0\<rparr>
          else Inl (UndefinedBehaviour ''memcpy from a null pointer''))"

definition gai_error :: "('w, 'z) netdb_scheme \<Rightarrow> string \<Rightarrow> int \<Rightarrow> exn" where
  "gai_error P attempt code = TaggedError (sys_gai_strerror P code) attempt code"

definition Address_resolve ::
  "('w, 'z) netdb_scheme \<Rightarrow> string \<Rightarrow> string \<Rightarrow> addrinfo \<Rightarrow> ('w process, Address) prog" where
  "Address_resolve P node service hints =
     bnd (syscall (sys_getaddrinfo P (c_str node) (c_str service) hints)) (\<lambda>(gai_ret, resolved_address).
     if gai_ret \<noteq> 0
     then throw (gai_error P (''getaddrinfo('' @ node @ '', '' @ service @ '')'') gai_ret)
     else case resolved_address of
            None \<Rightarrow> throw (RuntimeError ''getaddrinfo returned successfully but with no results'')
          | Some (ai_addr, ai_addrlen) \<Rightarrow> lift_result (Address_of_sockaddr ai_addr ai_addrlen))"

definition make_hints :: "int \<Rightarrow> int \<Rightarrow> addrinfo" where
  "make_hints flags family = \<lparr>ai_flags = flags, ai_family = family\<rparr>"

definition Address_of_name :: "('w, 'z) netdb_scheme \<Rightarrow> string \<Rightarrow> string \<Rightarrow> ('w process, Address) prog" where
  "Address_of_name P hostname service = Address_resolve P hostname service (make_hints AI_ALL AF_INET)"

definition Address_of_ip :: "('w, 'z) netdb_scheme \<Rightarrow> string \<Rightarrow> uint16 \<Rightarrow> ('w process, Address) prog" where
  "Address_of_ip P ip port =
     Address_resolve P ip (string_of_nat (unat port))
       (make_hints (AI_NUMERICHOST OR AI_NUMERICSERV) AF_INET)"

text \<open>\<^verbatim>\<open>std::stoi\<close> in base 10.\<close>

definition is_space :: "char \<Rightarrow> bool" where
  "is_space c \<longleftrightarrow> of_char c \<in> {9, 10, 11, 12, 13, 32 :: nat}"

definition is_digit :: "char \<Rightarrow> bool" where
  "is_digit c \<longleftrightarrow> 48 \<le> (of_char c :: nat) \<and> (of_char c :: nat) \<le> 57"

definition decimal :: "string \<Rightarrow> nat" where
  "decimal ds = foldl (\<lambda>n c. 10 * n + (of_char c - 48)) 0 ds"

definition stoi :: "string \<Rightarrow> int result" where
  "stoi s =
     (let s = dropWhile is_space s;
          negative = (case s of c # _ \<Rightarrow> c = CHR ''-'' | [] \<Rightarrow> False);
          s = (case s of c # cs \<Rightarrow> if c = CHR ''-'' \<or> c = CHR ''+'' then cs else s | [] \<Rightarrow> s);
          ds = takeWhile is_digit s;
          v = (if negative then - int (decimal ds) else int (decimal ds)) in
      if ds = [] then Inl (InvalidArgument ''stoi'')
      else if v < - (2 ^ 31) \<or> v \<ge> 2 ^ 31 then Inl (OutOfRange ''stoi'')
      else Inr v)"

definition Address_ip_port :: "('w, 'z) netdb_scheme \<Rightarrow> Address \<Rightarrow> ('w process, string \<times> uint16) prog" where
  "Address_ip_port P a =
     bnd (syscall (sys_getnameinfo P (addr_storage a) (addr_size a) (NI_NUMERICHOST OR NI_NUMERICSERV)))
       (\<lambda>(gni_ret, ip, port).
     if gni_ret \<noteq> 0 then throw (gai_error P ''getnameinfo'' gni_ret)
     else bnd (lift_result (stoi port)) (\<lambda>n. ret (ip, word_of_int n)))"

definition Address_ip :: "('w, 'z) netdb_scheme \<Rightarrow> Address \<Rightarrow> ('w process, string) prog" where
  "Address_ip P a = bnd (Address_ip_port P a) (\<lambda>(ip, port). ret ip)"

definition Address_port :: "('w, 'z) netdb_scheme \<Rightarrow> Address \<Rightarrow> ('w process, uint16) prog" where
  "Address_port P a = bnd (Address_ip_port P a) (\<lambda>(ip, port). ret port)"

definition Address_to_string :: "('w, 'z) netdb_scheme \<Rightarrow> Address \<Rightarrow> ('w process, string) prog" where
  "Address_to_string P a =
     bnd (Address_ip_port P a) (\<lambda>(ip, port). ret (ip @ '':'' @ string_of_nat (unat port)))"

definition Address_ipv4_numeric :: "bool \<Rightarrow> Address \<Rightarrow> uint32 result" where
  "Address_ipv4_numeric be a =
     (if (host_word be (take 2 (addr_storage a)) :: uint16) \<noteq> word_of_int AF_INET \<or> addr_size a \<noteq> sizeof_sockaddr_in
      then Inl (RuntimeError ''ipv4_numeric called on non-IPV4 address'')
      else Inr (betoh be (sin_addr (sockaddr_in_of_bytes be (take (addr_size a) (addr_storage a))))))"

definition Address_from_ipv4_numeric :: "bool \<Rightarrow> uint32 \<Rightarrow> Address result" where
  "Address_from_ipv4_numeric be ip_address =
     (let ipv4_addr = sockaddr_in_default\<lparr>sin_family := word_of_int AF_INET, sin_addr := htobe be ip_address\<rparr> in
      Address_of_sockaddr (sockaddr_in_bytes be ipv4_addr) sizeof_sockaddr_in)"

definition Address_equal :: "Address \<Rightarrow> Address \<Rightarrow> bool" where
  "Address_equal a b \<longleftrightarrow>
     (if addr_size a \<noteq> addr_size b then False
      else take (addr_size a) (addr_storage a) = take (addr_size a) (addr_storage b))"

subsection \<open>Lemmas\<close>

lemma sizeof_simps [simp]: "sizeof TYPE(16 word) = 2" "sizeof TYPE(32 word) = 4"
  by (simp_all add: sizeof_def)

lemma host_bytes_length [simp]: "length (host_bytes be (v :: 'a::len word)) = sizeof TYPE('a word)"
  by (simp add: host_bytes_def)

lemma host_word_host_bytes: "8 dvd LENGTH('a) \<Longrightarrow> host_word be (host_bytes be v) = (v :: 'a::len word)"
  by (simp add: host_bytes_def host_word_def be_word_be_bytes)

lemma host_bytes_host_word:
  "8 dvd LENGTH('a::len) \<Longrightarrow> length bs = sizeof TYPE('a word) \<Longrightarrow> host_bytes be (host_word be bs :: 'a word) = bs"
  by (simp add: host_bytes_def host_word_def be_bytes_be_word)

text \<open>What \<^verbatim>\<open>htobe\<close> stores is in network byte order, on either kind of host, and \<^verbatim>\<open>betoh\<close> undoes it.\<close>

lemma host_bytes_htobe: "8 dvd LENGTH('a) \<Longrightarrow> host_bytes be (htobe be v) = be_bytes (v :: 'a::len word)"
  by (simp add: htobe_def host_bytes_host_word)

lemma betoh_htobe: "8 dvd LENGTH('a) \<Longrightarrow> betoh be (htobe be v) = (v :: 'a::len word)"
  by (simp add: betoh_def host_bytes_htobe be_word_be_bytes)

lemma htobe_betoh: "8 dvd LENGTH('a) \<Longrightarrow> htobe be (betoh be v) = (v :: 'a::len word)"
  by (simp add: betoh_def htobe_def be_bytes_be_word host_word_host_bytes)

lemma sockaddr_in_bytes_length [simp]: "length (sin_zero sa) = 8 \<Longrightarrow> length (sockaddr_in_bytes be sa) = 16"
  by (simp add: sockaddr_in_bytes_def)

lemma sockaddr_in_of_bytes_inverse:
  "length (sin_zero sa) = 8 \<Longrightarrow> sockaddr_in_of_bytes be (sockaddr_in_bytes be sa) = sa"
  by (simp add: sockaddr_in_of_bytes_def sockaddr_in_bytes_def host_word_host_bytes)

lemma sockaddr_in_bytes_inverse:
  assumes "length bs = 16"
  shows "sockaddr_in_bytes be (sockaddr_in_of_bytes be bs) = bs"
proof -
  have "take 2 bs @ take 2 (drop 2 bs) @ take 4 (drop 4 bs) @ take 8 (drop 8 bs) = bs"
    using assms
    by (intro nth_equalityI) (auto simp: nth_append, intro arg_cong [where f = "(!) bs"], arith)
  with assms show ?thesis
    by (simp add: sockaddr_in_of_bytes_def sockaddr_in_bytes_def host_bytes_host_word)
qed

definition Address_inv :: "Address \<Rightarrow> bool" where
  "Address_inv a \<longleftrightarrow>
     addr_size a \<le> sizeof_storage \<and> length (addr_storage a) = sizeof_storage \<and>
     (\<forall>b \<in> set (drop (addr_size a) (addr_storage a)). b = 0)"

lemma Address_of_sockaddr_Inr:
  "Address_of_sockaddr mem len = Inr a \<longleftrightarrow>
     len \<le> sizeof_storage \<and> len \<le> length mem \<and>
     a = \<lparr>addr_size = len, addr_storage = take len mem @ replicate (sizeof_storage - len) 0\<rparr>"
  by (auto simp: Address_of_sockaddr_def)

lemma Address_of_sockaddr_inv: "Address_of_sockaddr mem len = Inr a \<Longrightarrow> Address_inv a"
  by (auto simp: Address_of_sockaddr_Inr Address_inv_def)

lemma Address_of_null:
  "Address_of_pointer True None 0 = Inr \<lparr>addr_size = 0, addr_storage = replicate 128 0\<rparr>"
  "Address_of_pointer False None 0 = Inl (UndefinedBehaviour ''memcpy from a null pointer'')"
  by (simp_all add: Address_of_pointer_def sizeof_storage_def)

lemma Address_storage_split:
  assumes "Address_inv a"
  shows "addr_storage a = take (addr_size a) (addr_storage a) @ replicate (sizeof_storage - addr_size a) 0"
proof -
  from assms have "drop (addr_size a) (addr_storage a) = replicate (length (drop (addr_size a) (addr_storage a))) 0"
    unfolding Address_inv_def by (intro replicate_length_same [symmetric]) blast
  with assms show ?thesis
    by (metis Address_inv_def append_take_drop_id length_drop)
qed

lemma Address_equal_iff:
  assumes "Address_inv a" and "Address_inv b"
  shows "Address_equal a b \<longleftrightarrow> a = b"
proof
  assume "Address_equal a b"
  then have "addr_size a = addr_size b" "take (addr_size a) (addr_storage a) = take (addr_size a) (addr_storage b)"
    by (auto simp: Address_equal_def split: if_splits)
  then show "a = b"
    using Address_storage_split [OF assms(1)] Address_storage_split [OF assms(2)] by (metis Address.equality old.unit.exhaust)
qed (simp add: Address_equal_def)

subsection \<open>Decimal notation and back\<close>

lemma decimal_snoc: "decimal (ds @ [c]) = 10 * decimal ds + (of_char c - 48)"
  by (simp add: decimal_def)

lemma string_of_nat_digits: "set (string_of_nat n) \<subseteq> {c. is_digit c}" "string_of_nat n \<noteq> []" "decimal (string_of_nat n) = n"
proof (induction n rule: string_of_nat.induct)
  case (1 n)
  have digit: "of_char (char_of (48 + k) :: char) = 48 + k" if "k < 10" for k :: nat
    using that by simp
  {
    case 1
    with "1.IH"(1) digit show ?case by (subst string_of_nat.simps) (auto simp: is_digit_def)
  next
    case 2
    show ?case by (subst string_of_nat.simps) simp
  next
    case 3
    with "1.IH"(3) digit show ?case
      by (subst string_of_nat.simps) (auto simp: decimal_snoc, simp add: decimal_def)
  }
qed

lemma digit_facts: "is_digit c \<Longrightarrow> \<not> is_space c" "is_digit c \<Longrightarrow> c \<noteq> CHR ''-''" "is_digit c \<Longrightarrow> c \<noteq> CHR ''+''"
  "is_digit c \<Longrightarrow> c \<noteq> CHR 0x00"
  by (auto simp: is_digit_def is_space_def)

lemma stoi_string_of_nat:
  assumes "n < 2 ^ 31"
  shows "stoi (string_of_nat n) = Inr (int n)"
proof -
  note d = string_of_nat_digits [of n]
  obtain c cs where s: "string_of_nat n = c # cs" using d(2) by (cases "string_of_nat n") auto
  with d(1) have c: "is_digit c" by auto
  have "takeWhile is_digit (string_of_nat n) = string_of_nat n"
    using d(1) by (auto simp: takeWhile_eq_all_conv)
  moreover have "dropWhile is_space (string_of_nat n) = string_of_nat n"
    using c by (simp add: s digit_facts)
  ultimately show ?thesis
    using assms d(3) digit_facts [OF c] s by (simp add: stoi_def Let_def)
qed

lemma c_str_id: "CHR 0x00 \<notin> set s \<Longrightarrow> c_str s = s"
  unfolding c_str_def by (rule takeWhile_eq_all_conv [THEN iffD2]) auto

lemma no_nul_string_of_nat: "CHR 0x00 \<notin> set (string_of_nat n)"
  using string_of_nat_digits(1) [of n] digit_facts(4) by auto

subsection \<open>What the code relies on in the resolver\<close>

text \<open>
  \<^verbatim>\<open>getaddrinfo\<close> with \<^verbatim>\<open>AI_NUMERICHOST | AI_NUMERICSERV\<close> on a dotted quad and a decimal
  port returns the \<^verbatim>\<open>sockaddr_in\<close> they denote; \<^verbatim>\<open>getnameinfo\<close> with
  \<^verbatim>\<open>NI_NUMERICHOST | NI_NUMERICSERV\<close> prints a \<^verbatim>\<open>sockaddr_in\<close> back.
\<close>

definition dotted_quad :: "byte \<Rightarrow> byte \<Rightarrow> byte \<Rightarrow> byte \<Rightarrow> string" where
  "dotted_quad a b c d =
     string_of_nat (unat a) @ ''.'' @ string_of_nat (unat b) @ ''.'' @
     string_of_nat (unat c) @ ''.'' @ string_of_nat (unat d)"

definition inet_sockaddr :: "bool \<Rightarrow> bytes \<Rightarrow> uint16 \<Rightarrow> bytes" where
  "inet_sockaddr be quad port =
     sockaddr_in_bytes be (sockaddr_in_default\<lparr>sin_family := 2, sin_port := htobe be port,
       sin_addr := htobe be (be_word quad)\<rparr>)"

definition numeric_getaddrinfo :: "bool \<Rightarrow> ('w, 'z) netdb_scheme \<Rightarrow> bool" where
  "numeric_getaddrinfo be P \<longleftrightarrow>
     (\<forall>a b c d port W.
        fst (sys_getaddrinfo P (dotted_quad a b c d) (string_of_nat (unat port)) \<lparr>ai_flags = 0x404, ai_family = 2\<rparr> W) =
          (0, Some (inet_sockaddr be [a, b, c, d] port, 16)))"

definition numeric_getnameinfo :: "bool \<Rightarrow> ('w, 'z) netdb_scheme \<Rightarrow> bool" where
  "numeric_getnameinfo be P \<longleftrightarrow>
     (\<forall>a b c d port mem W. take 16 mem = inet_sockaddr be [a, b, c, d] port \<longrightarrow>
        fst (sys_getnameinfo P mem 16 3 W) = (0, dotted_quad a b c d, string_of_nat (unat port)))"

lemma no_nul_dotted_quad: "CHR 0x00 \<notin> set (dotted_quad a b c d)"
  by (simp add: dotted_quad_def no_nul_string_of_nat)

lemma inet_sockaddr_length [simp]: "length (inet_sockaddr be quad port) = 16"
  by (simp add: inet_sockaddr_def sockaddr_in_default_def)

lemma inet_sockaddr_parts:
  shows "host_word be (take 2 (inet_sockaddr be quad port)) = (2 :: uint16)"
    and "betoh be (sin_addr (sockaddr_in_of_bytes be (inet_sockaddr be quad port))) = be_word quad"
  by (simp add: inet_sockaddr_def sockaddr_in_default_def sockaddr_in_bytes_def host_word_host_bytes)
    (simp add: inet_sockaddr_def sockaddr_in_default_def sockaddr_in_of_bytes_inverse betoh_htobe)

lemma Address_of_ip_numeric:
  assumes "numeric_getaddrinfo be P"
  shows "fst (Address_of_ip P (dotted_quad a b c d) port s) =
    Inr \<lparr>addr_size = 16, addr_storage = inet_sockaddr be [a, b, c, d] port @ replicate 112 0\<rparr>"
proof -
  have "(AI_NUMERICHOST OR AI_NUMERICSERV) = 0x404"
    by (simp add: AI_NUMERICHOST_def AI_NUMERICSERV_def)
  moreover obtain W where
    "sys_getaddrinfo P (dotted_quad a b c d) (string_of_nat (unat port)) \<lparr>ai_flags = 0x404, ai_family = 2\<rparr> (world s) =
       ((0, Some (inet_sockaddr be [a, b, c, d] port, 16)), W)"
    using assms unfolding numeric_getaddrinfo_def by (metis prod.collapse)
  moreover have "Address_of_sockaddr (inet_sockaddr be [a, b, c, d] port) 16 =
      Inr \<lparr>addr_size = 16, addr_storage = inet_sockaddr be [a, b, c, d] port @ replicate 112 0\<rparr>"
    by (simp add: Address_of_sockaddr_def sizeof_storage_def)
  ultimately show ?thesis
    by (simp add: Address_of_ip_def Address_resolve_def make_hints_def AF_INET_def bnd_Inr syscall_eq
        c_str_id no_nul_dotted_quad no_nul_string_of_nat lift_result_def)
qed

lemma ip_port_numeric:
  assumes "numeric_getnameinfo be P" and "take 16 (addr_storage x) = inet_sockaddr be [a, b, c, d] port"
    and "addr_size x = 16"
  shows "fst (Address_ip_port P x s) = Inr (dotted_quad a b c d, port)"
proof -
  have flags: "(NI_NUMERICHOST OR NI_NUMERICSERV) = 3" by (simp add: NI_NUMERICHOST_def NI_NUMERICSERV_def)
  obtain W where "sys_getnameinfo P (addr_storage x) 16 3 (world s) =
      ((0, dotted_quad a b c d, string_of_nat (unat port)), W)"
    using assms(1,2) unfolding numeric_getnameinfo_def by (metis prod.collapse)
  moreover have "stoi (string_of_nat (unat port)) = Inr (int (unat port))"
    using unsigned_less [of port, where 'a = nat] by (intro stoi_string_of_nat) simp
  ultimately show ?thesis
    using assms(3) by (simp add: Address_ip_port_def flags bnd_Inr syscall_eq ret_def)
qed

text \<open>A resolver that keeps both promises.\<close>

definition demo_netdb :: "bool \<Rightarrow> 'w netdb" where
  "demo_netdb be =
     \<lparr>sys_close = (\<lambda>fd W. (\<lparr>sr_val = 0, sr_errno = 0\<rparr>, W)),
      sys_read = (\<lambda>fd buf W. ((\<lparr>sr_val = 0, sr_errno = 0\<rparr>, buf), W)),
      sys_writev = (\<lambda>fd iov W. (\<lparr>sr_val = 0, sr_errno = 0\<rparr>, W)),
      sys_fcntl = (\<lambda>fd cmd W. (\<lparr>sr_val = 0, sr_errno = 0\<rparr>, W)),
      sys_poll = (\<lambda>pfds timeout W. ((\<lparr>sr_val = 0, sr_errno = 0\<rparr>, pfds), W)),
      sys_strerror = (\<lambda>_. ''error''),
      sys_getaddrinfo = (\<lambda>node service hints W.
        ((case stoi service of
            Inr port \<Rightarrow>
              (0, Some (inet_sockaddr be
                 (let n1 = takeWhile is_digit node; r1 = tl (dropWhile is_digit node);
                      n2 = takeWhile is_digit r1; r2 = tl (dropWhile is_digit r1);
                      n3 = takeWhile is_digit r2; r3 = tl (dropWhile is_digit r2) in
                  map (\<lambda>n. of_nat (decimal n)) [n1, n2, n3, r3]) (word_of_int port), 16))
          | Inl _ \<Rightarrow> (- 8, None)), W)),
      sys_getnameinfo = (\<lambda>mem len flags W.
        (let sa = sockaddr_in_of_bytes be (take 16 mem); q = host_bytes be (sin_addr sa) in
          (0, dotted_quad (q ! 0) (q ! 1) (q ! 2) (q ! 3), string_of_nat (unat (betoh be (sin_port sa)))), W)),
      sys_gai_strerror = (\<lambda>_. ''error'')\<rparr>"

lemma takeWhile_number:
  "takeWhile is_digit (string_of_nat n @ ''.'' @ rest) = string_of_nat n"
  "dropWhile is_digit (string_of_nat n @ ''.'' @ rest) = ''.'' @ rest"
  using string_of_nat_digits(1) [of n]
  by (auto simp: takeWhile_append dropWhile_append is_digit_def)

lemma demo_getaddrinfo: "numeric_getaddrinfo be (demo_netdb be)"
proof -
  have port: "stoi (string_of_nat (unat port)) = Inr (int (unat port))" for port :: uint16
    using unsigned_less [of port, where 'a = nat] by (intro stoi_string_of_nat) simp
  show ?thesis
    by (simp add: numeric_getaddrinfo_def demo_netdb_def port dotted_quad_def Let_def
        takeWhile_number [simplified] string_of_nat_digits(3))
qed

lemma demo_getnameinfo: "numeric_getnameinfo be (demo_netdb be)"
  unfolding numeric_getnameinfo_def
  by (auto simp: demo_netdb_def Let_def inet_sockaddr_def sockaddr_in_default_def sockaddr_in_of_bytes_inverse
      host_bytes_htobe betoh_htobe be_bytes_be_word)

definition ipv4_sockaddr :: "bool \<Rightarrow> uint32 \<Rightarrow> sockaddr_in" where
  "ipv4_sockaddr be ip = \<lparr>sin_family = 2, sin_port = 0, sin_addr = htobe be ip, sin_zero = replicate 8 0\<rparr>"

lemma from_ipv4_numeric_eq:
  "Address_from_ipv4_numeric be ip =
     Inr \<lparr>addr_size = 16, addr_storage = sockaddr_in_bytes be (ipv4_sockaddr be ip) @ replicate 112 0\<rparr>"
  by (simp add: Address_from_ipv4_numeric_def sockaddr_in_default_def Address_of_sockaddr_def
      sizeof_storage_def sizeof_sockaddr_in_def AF_INET_def ipv4_sockaddr_def)

lemma ipv4_numeric_Inr:
  "Address_ipv4_numeric be a = Inr ip \<longleftrightarrow>
     addr_size a = 16 \<and> host_word be (take 2 (addr_storage a)) = (2 :: uint16) \<and>
     sin_addr (sockaddr_in_of_bytes be (take 16 (addr_storage a))) = htobe be ip"
  by (auto simp: Address_ipv4_numeric_def sizeof_sockaddr_in_def AF_INET_def betoh_htobe htobe_betoh)

lemma ipv4_numeric_from: 
  "Address_ipv4_numeric be \<lparr>addr_size = 16, addr_storage = sockaddr_in_bytes be (ipv4_sockaddr be ip) @ rest\<rparr> = Inr ip"
proof -
  have "take 2 (sockaddr_in_bytes be (ipv4_sockaddr be ip)) = host_bytes be (2 :: uint16)"
    by (simp add: sockaddr_in_bytes_def ipv4_sockaddr_def)
  moreover have "length (sockaddr_in_bytes be (ipv4_sockaddr be ip)) = 16"
    by (simp add: ipv4_sockaddr_def)
  moreover have "sockaddr_in_of_bytes be (sockaddr_in_bytes be (ipv4_sockaddr be ip)) = ipv4_sockaddr be ip"
    by (simp add: sockaddr_in_of_bytes_inverse ipv4_sockaddr_def)
  ultimately show ?thesis
    by (simp add: ipv4_numeric_Inr host_word_host_bytes) (simp add: ipv4_sockaddr_def)
qed

lemma from_ipv4_numeric_unique:
  assumes inv: "Address_inv a" and num: "Address_ipv4_numeric be a = Inr ip"
    and port: "take 2 (drop 2 (addr_storage a)) = [0, 0]"
    and zero: "take 8 (drop 8 (addr_storage a)) = replicate 8 0"
  shows "Address_from_ipv4_numeric be ip = Inr a"
proof -
  let ?bs = "take 16 (addr_storage a)"
  from inv have len: "length ?bs = 16" by (simp add: Address_inv_def sizeof_storage_def)
  from num have num': "addr_size a = 16" "host_word be (take 2 (addr_storage a)) = (2 :: uint16)"
    "sin_addr (sockaddr_in_of_bytes be ?bs) = htobe be ip"
    by (simp_all add: ipv4_numeric_Inr)
  have parts: "take 2 ?bs = take 2 (addr_storage a)" "take 2 (drop 2 ?bs) = take 2 (drop 2 (addr_storage a))"
    "take 8 (drop 8 ?bs) = take 8 (drop 8 (addr_storage a))"
    by (simp_all add: take_drop min_def)
  have "host_word be [0, 0] = (0 :: uint16)" by (simp add: host_word_def be_word_def)
  then have "sockaddr_in_of_bytes be ?bs = ipv4_sockaddr be ip"
    using num'(2,3) port zero
    by (auto simp: sockaddr_in_of_bytes_def parts [simplified] ipv4_sockaddr_def intro!: sockaddr_in.equality)
  with sockaddr_in_bytes_inverse [OF len, of be]
  have "?bs = sockaddr_in_bytes be (ipv4_sockaddr be ip)" by simp
  with Address_storage_split [OF inv] num'(1) show ?thesis
    by (auto simp: from_ipv4_numeric_eq sizeof_storage_def intro!: Address.equality)
qed

subsection \<open>Properties\<close>

text \<open>
  C30: \<^verbatim>\<open>from_ipv4_numeric\<close> succeeds for every number, on hosts of either byte order; the
  four bytes at the place of the address are the number in network byte order, and
  \<^verbatim>\<open>ipv4_numeric\<close> returns the number. Conversely, an IPv4 address without a port that has
  a number is the one \<^verbatim>\<open>from_ipv4_numeric\<close> makes of it.
\<close>

theorem ipv4_numeric_round_trip:
  "(\<exists>a. Address_from_ipv4_numeric be ip = Inr a \<and> addr_size a = 16 \<and>
        take 4 (drop 4 (addr_storage a)) = NetUnparser_u32 [] ip \<and> Address_ipv4_numeric be a = Inr ip) \<and>
   (\<forall>a. Address_inv a \<and> Address_ipv4_numeric be a = Inr ip \<and>
        take 2 (drop 2 (addr_storage a)) = [0, 0] \<and> take 8 (drop 8 (addr_storage a)) = replicate 8 0 \<longrightarrow>
        Address_from_ipv4_numeric be ip = Inr a)"
proof -
  have "take 4 (drop 4 (sockaddr_in_bytes be (ipv4_sockaddr be ip) @ replicate 112 0)) = NetUnparser_u32 [] ip"
    by (simp add: sockaddr_in_bytes_def ipv4_sockaddr_def host_bytes_htobe codec_funs unparse_int_append)
  then show ?thesis
    using from_ipv4_numeric_unique ipv4_numeric_from [of be ip] by (auto simp: from_ipv4_numeric_eq)
qed

theorem ipv4_numeric_round_trip_witness:
  "\<exists>a. Address_from_ipv4_numeric False 0x12470097 = Inr a \<and> Address_ipv4_numeric False a = Inr 0x12470097"
  using ipv4_numeric_round_trip [of False "0x12470097"] by auto

text \<open>
  C29: With a resolver that treats numeric hosts and ports as documented, \<^verbatim>\<open>Address(ip, port)\<close> of any
  dotted quad and port succeeds, its \<^verbatim>\<open>ipv4_numeric\<close> is the number the four octets spell, and
  \<^verbatim>\<open>ip_port\<close>, \<^verbatim>\<open>ip\<close>, \<^verbatim>\<open>port\<close> and \<^verbatim>\<open>to_string\<close> give the quad and the port back.
\<close>

theorem address_of_quad:
  assumes "numeric_getaddrinfo be P" and "numeric_getnameinfo be P"
  shows "\<exists>x. fst (Address_of_ip P (dotted_quad a b c d) port s) = Inr x \<and>
    Address_ipv4_numeric be x = Inr (be_word [a, b, c, d]) \<and>
    fst (Address_ip_port P x t) = Inr (dotted_quad a b c d, port) \<and>
    fst (Address_ip P x t) = Inr (dotted_quad a b c d) \<and> fst (Address_port P x t) = Inr port \<and>
    fst (Address_to_string P x t) = Inr (dotted_quad a b c d @ '':'' @ string_of_nat (unat port))"
proof -
  let ?x = "\<lparr>addr_size = 16, addr_storage = inet_sockaddr be [a, b, c, d] port @ replicate 112 0\<rparr>"
  have ip: "fst (Address_ip_port P ?x t) = Inr (dotted_quad a b c d, port)"
    using assms(2) by (rule ip_port_numeric) simp_all
  then obtain u where "Address_ip_port P ?x t = (Inr (dotted_quad a b c d, port), u)" by (metis prod.collapse)
  moreover have "Address_ipv4_numeric be ?x = Inr (be_word [a, b, c, d])"
    by (simp add: Address_ipv4_numeric_def sizeof_sockaddr_in_def AF_INET_def inet_sockaddr_parts)
  ultimately show ?thesis
    using Address_of_ip_numeric [OF assms(1)] ip
    by (intro exI [of _ ?x]) (simp add: Address_ip_def Address_port_def Address_to_string_def bnd_Inr ret_def)
qed

theorem address_of_quad_witness:
  "\<exists>x. fst (Address_of_ip (demo_netdb False) (dotted_quad 18 71 0 151) 53 (init_process ())) = Inr x \<and>
       Address_ipv4_numeric False x = Inr 0x12470097"
  using address_of_quad [OF demo_getaddrinfo demo_getnameinfo, where a = 18 and b = 71 and c = 0 and d = 151
      and port = 53 and s = "init_process ()" and t = "init_process ()"]
  by (auto simp: be_word_def)

text \<open>
  The constructor from a raw address throws exactly when it does not fit into a
  \<^verbatim>\<open>sockaddr_storage\<close>, and two addresses made by it are equal under \<^verbatim>\<open>operator==\<close> exactly when
  they have the same length and the same bytes, which is when they are the same object
  value: the unused tail of the storage never matters.
\<close>

theorem address_equality:
  assumes "len \<le> length mem" and "len' \<le> length mem'"
  shows "(is_ok (Address_of_sockaddr mem len) \<longleftrightarrow> len \<le> 128) \<and>
    (\<forall>a b. Address_of_sockaddr mem len = Inr a \<and> Address_of_sockaddr mem' len' = Inr b \<longrightarrow>
       (Address_equal a b \<longleftrightarrow> take len mem = take len' mem') \<and> (Address_equal a b \<longleftrightarrow> a = b))"
proof -
  have "is_ok (Address_of_sockaddr mem len) \<longleftrightarrow> len \<le> 128"
    using assms(1) by (simp add: Address_of_sockaddr_def sizeof_storage_def)
  moreover have "Address_equal a b \<longleftrightarrow> take len mem = take len' mem'" "Address_equal a b \<longleftrightarrow> a = b"
    if ab: "Address_of_sockaddr mem len = Inr a" "Address_of_sockaddr mem' len' = Inr b" for a b
  proof -
    show "Address_equal a b \<longleftrightarrow> a = b"
      using ab by (intro Address_equal_iff Address_of_sockaddr_inv)
    from ab have "addr_size a = len" "addr_size b = len'"
      "take len (addr_storage a) = take len mem" "take len' (addr_storage b) = take len' mem'"
      by (auto simp: Address_of_sockaddr_Inr)
    moreover have "len = len'" if "take len mem = take len' mem'"
      using arg_cong [OF that, of length] assms by simp
    ultimately show "Address_equal a b \<longleftrightarrow> take len mem = take len' mem'"
      by (auto simp: Address_equal_def)
  qed
  ultimately show ?thesis by blast
qed

theorem address_equality_witness:
  "\<exists>a b. Address_of_sockaddr [2, 0, 0, 80] 4 = Inr a \<and> Address_of_sockaddr [2, 0, 0, 80, 7] 4 = Inr b \<and>
     Address_equal a b \<and> a = b"
  using address_equality [of 4 "[2, 0, 0, 80]" 4 "[2, 0, 0, 80, 7]"]
  by (simp add: Address_of_sockaddr_def sizeof_storage_def)

end
