(* ===== verification/Socket.thy ===== *)
theory Socket
  imports Address
begin

text \<open>
  \<^verbatim>\<open>util/socket.hh\<close> and \<^verbatim>\<open>util/socket.cc\<close>. A socket of any of the classes is a
  FileDescriptor, so an object is a handle; the classes differ in the domain and type their
  constructors demand. A constructor that throws after its FileDescriptor base was built
  destroys that base, which gives up the use of the descriptor. The socket calls are further
  fields of the kernel record; an address the kernel fills in is an array of 128 bytes.
\<close>

subsection \<open>The socket calls\<close>

record 'w sockets = "'w netdb" +
  sys_socket :: "int \<Rightarrow> int \<Rightarrow> int \<Rightarrow> 'w \<Rightarrow> sysret \<times> 'w"
  sys_getsockopt :: "int \<Rightarrow> int \<Rightarrow> int \<Rightarrow> 'w \<Rightarrow> (sysret \<times> int \<times> nat) \<times> 'w"
  sys_setsockopt :: "int \<Rightarrow> int \<Rightarrow> int \<Rightarrow> int \<Rightarrow> 'w \<Rightarrow> sysret \<times> 'w"
  sys_getsockname :: "int \<Rightarrow> bytes \<Rightarrow> nat \<Rightarrow> 'w \<Rightarrow> (sysret \<times> bytes \<times> nat) \<times> 'w"
  sys_getpeername :: "int \<Rightarrow> bytes \<Rightarrow> nat \<Rightarrow> 'w \<Rightarrow> (sysret \<times> bytes \<times> nat) \<times> 'w"
  sys_bind :: "int \<Rightarrow> bytes \<Rightarrow> nat \<Rightarrow> 'w \<Rightarrow> sysret \<times> 'w"
  sys_connect :: "int \<Rightarrow> bytes \<Rightarrow> nat \<Rightarrow> 'w \<Rightarrow> sysret \<times> 'w"
  sys_shutdown :: "int \<Rightarrow> int \<Rightarrow> 'w \<Rightarrow> sysret \<times> 'w"
  sys_recvfrom :: "int \<Rightarrow> bytes \<Rightarrow> int \<Rightarrow> bytes \<Rightarrow> nat \<Rightarrow> 'w \<Rightarrow> (sysret \<times> bytes \<times> bytes \<times> nat) \<times> 'w"
  sys_sendmsg :: "int \<Rightarrow> bytes option \<Rightarrow> nat \<Rightarrow> iovec list \<Rightarrow> int \<Rightarrow> 'w \<Rightarrow> sysret \<times> 'w"
  sys_listen :: "int \<Rightarrow> int \<Rightarrow> 'w \<Rightarrow> sysret \<times> 'w"
  sys_accept :: "int \<Rightarrow> 'w \<Rightarrow> sysret \<times> 'w"
  memcpy_null :: bool

text \<open>\<^term>\<open>memcpy_null P\<close>: the C library defines a \<^verbatim>\<open>memcpy\<close> of zero bytes from a null pointer.\<close>

definition SOCK_STREAM :: int where "SOCK_STREAM = 1"
definition SOCK_DGRAM :: int where "SOCK_DGRAM = 2"
definition SOL_SOCKET :: int where "SOL_SOCKET = 1"
definition SO_REUSEADDR :: int where "SO_REUSEADDR = 2"
definition SO_TYPE :: int where "SO_TYPE = 3"
definition SO_DOMAIN :: int where "SO_DOMAIN = 39"
definition SHUT_RD :: int where "SHUT_RD = 0"
definition SHUT_WR :: int where "SHUT_WR = 1"
definition SHUT_RDWR :: int where "SHUT_RDWR = 2"
definition MSG_TRUNC :: int where "MSG_TRUNC = 0x20"

definition sizeof_int :: nat where "sizeof_int = 4"

text \<open>A value-initialised \<^verbatim>\<open>Address::Raw\<close>.\<close>

definition Raw_default :: bytes where
  "Raw_default = replicate sizeof_storage 0"

subsection \<open>Socket\<close>

definition Socket_new :: "('w, 'z) sockets_scheme \<Rightarrow> int \<Rightarrow> int \<Rightarrow> ('w process, handle) prog" where
  "Socket_new P domain type =
     bnd (syscall (sys_socket P domain type 0)) (\<lambda>r.
     bnd (lift_result (SystemCall ''socket'' (sr_val r) (sr_errno r) 0)) (\<lambda>fd.
     FileDescriptor_new fd))"

definition verify_option ::
  "('w, 'z) sockets_scheme \<Rightarrow> handle \<Rightarrow> int \<Rightarrow> int \<Rightarrow> string \<Rightarrow> ('w process, unit) prog" where
  "verify_option P h option_name expected message =
     bnd (FileDescriptor_fd_num h) (\<lambda>fd.
     bnd (syscall (sys_getsockopt P fd SOL_SOCKET option_name)) (\<lambda>(r, actual_value, len).
     bnd (lift_result (SystemCall ''getsockopt'' (sr_val r) (sr_errno r) 0)) (\<lambda>_.
     if len \<noteq> sizeof_int \<or> actual_value \<noteq> expected then throw (RuntimeError message) else ret ())))"

definition Socket_of_fd :: "('w, 'z) sockets_scheme \<Rightarrow> handle \<Rightarrow> int \<Rightarrow> int \<Rightarrow> ('w process, handle) prog" where
  "Socket_of_fd P h domain type =
     with_base P h
       (bnd (verify_option P h SO_DOMAIN domain ''socket domain mismatch'') (\<lambda>_.
        verify_option P h SO_TYPE type ''socket type mismatch''))"

definition Socket_get_address ::
  "handle \<Rightarrow> string \<Rightarrow> (int \<Rightarrow> bytes \<Rightarrow> nat \<Rightarrow> 'w \<Rightarrow> (sysret \<times> bytes \<times> nat) \<times> 'w) \<Rightarrow> ('w process, Address) prog" where
  "Socket_get_address h name_of_function function_to_call =
     bnd (FileDescriptor_fd_num h) (\<lambda>fd.
     bnd (syscall (function_to_call fd Raw_default sizeof_storage)) (\<lambda>(r, address, len).
     bnd (lift_result (SystemCall name_of_function (sr_val r) (sr_errno r) 0)) (\<lambda>_.
     lift_result (Address_of_sockaddr address len))))"

definition Socket_local_address :: "('w, 'z) sockets_scheme \<Rightarrow> handle \<Rightarrow> ('w process, Address) prog" where
  "Socket_local_address P h = Socket_get_address h ''getsockname'' (sys_getsockname P)"

definition Socket_peer_address :: "('w, 'z) sockets_scheme \<Rightarrow> handle \<Rightarrow> ('w process, Address) prog" where
  "Socket_peer_address P h = Socket_get_address h ''getpeername'' (sys_getpeername P)"

definition Socket_bind :: "('w, 'z) sockets_scheme \<Rightarrow> handle \<Rightarrow> Address \<Rightarrow> ('w process, unit) prog" where
  "Socket_bind P h address =
     bnd (FileDescriptor_fd_num h) (\<lambda>fd.
     bnd (syscall (sys_bind P fd (addr_storage address) (addr_size address))) (\<lambda>r.
     bnd (lift_result (SystemCall ''bind'' (sr_val r) (sr_errno r) 0)) (\<lambda>_. ret ())))"

definition Socket_connect :: "('w, 'z) sockets_scheme \<Rightarrow> handle \<Rightarrow> Address \<Rightarrow> ('w process, unit) prog" where
  "Socket_connect P h address =
     bnd (FileDescriptor_fd_num h) (\<lambda>fd.
     bnd (syscall (sys_connect P fd (addr_storage address) (addr_size address))) (\<lambda>r.
     bnd (lift_result (SystemCall ''connect'' (sr_val r) (sr_errno r) 0)) (\<lambda>_. ret ())))"

definition Socket_shutdown :: "('w, 'z) sockets_scheme \<Rightarrow> handle \<Rightarrow> int \<Rightarrow> ('w process, unit) prog" where
  "Socket_shutdown P h how =
     bnd (FileDescriptor_fd_num h) (\<lambda>fd.
     bnd (syscall (sys_shutdown P fd how)) (\<lambda>r.
     bnd (lift_result (SystemCall ''shutdown'' (sr_val r) (sr_errno r) 0)) (\<lambda>_.
     if how = SHUT_RD then FileDescriptor_register_read h
     else if how = SHUT_WR then FileDescriptor_register_write h
     else if how = SHUT_RDWR
     then bnd (FileDescriptor_register_read h) (\<lambda>_. FileDescriptor_register_write h)
     else throw (RuntimeError ''Socket::shutdown() called with invalid `how`''))))"

definition Socket_setsockopt :: "('w, 'z) sockets_scheme \<Rightarrow> handle \<Rightarrow> int \<Rightarrow> int \<Rightarrow> int \<Rightarrow> ('w process, unit) prog" where
  "Socket_setsockopt P h level option_name option_value =
     bnd (FileDescriptor_fd_num h) (\<lambda>fd.
     bnd (syscall (sys_setsockopt P fd level option_name option_value)) (\<lambda>r.
     bnd (lift_result (SystemCall ''setsockopt'' (sr_val r) (sr_errno r) 0)) (\<lambda>_. ret ())))"

definition Socket_set_reuseaddr :: "('w, 'z) sockets_scheme \<Rightarrow> handle \<Rightarrow> ('w process, unit) prog" where
  "Socket_set_reuseaddr P h = Socket_setsockopt P h SOL_SOCKET SO_REUSEADDR 1"

subsection \<open>UDPSocket\<close>

definition UDPSocket_new :: "('w, 'z) sockets_scheme \<Rightarrow> ('w process, handle) prog" where
  "UDPSocket_new P = Socket_new P AF_INET SOCK_DGRAM"

definition UDPSocket_of_fd :: "('w, 'z) sockets_scheme \<Rightarrow> handle \<Rightarrow> ('w process, handle) prog" where
  "UDPSocket_of_fd P h = Socket_of_fd P h AF_INET SOCK_DGRAM"

record received_datagram =
  source_address :: Address
  payload :: bytes

text \<open>
  \<^verbatim>\<open>recv(datagram, mtu)\<close>: the datagram of the caller is an argument and, if the call returns, the
  result; what an exception leaves in it is not modelled.
\<close>

definition UDPSocket_recv_into ::
  "('w, 'z) sockets_scheme \<Rightarrow> handle \<Rightarrow> received_datagram \<Rightarrow> nat \<Rightarrow> ('w process, received_datagram) prog" where
  "UDPSocket_recv_into P h datagram mtu =
     bnd (lift_result (string_resize mtu (payload datagram))) (\<lambda>buf.
     bnd (FileDescriptor_fd_num h) (\<lambda>fd.
     bnd (syscall (sys_recvfrom P fd buf MSG_TRUNC Raw_default sizeof_storage)) (\<lambda>(r, buf, datagram_source_address, fromlen).
     bnd (lift_result (SystemCall ''recvfrom'' (narrow_int (sr_val r)) (sr_errno r) 0)) (\<lambda>recv_len.
     if recv_len > int mtu then throw (RuntimeError ''recvfrom (oversized datagram)'')
     else
       bnd (FileDescriptor_register_read h) (\<lambda>_.
       bnd (lift_result (Address_of_sockaddr datagram_source_address fromlen)) (\<lambda>source.
       bnd (lift_result (string_resize (size_of_ssize recv_len) buf)) (\<lambda>buf.
       ret \<lparr>source_address = source, payload = buf\<rparr>)))))))"

definition UDPSocket_recv :: "('w, 'z) sockets_scheme \<Rightarrow> handle \<Rightarrow> nat \<Rightarrow> ('w process, received_datagram) prog" where
  "UDPSocket_recv P h mtu =
     bnd (lift_result (Address_of_pointer (memcpy_null P) None 0)) (\<lambda>nowhere.
     UDPSocket_recv_into P h \<lparr>source_address = nowhere, payload = []\<rparr> mtu)"

text \<open>The default \<^verbatim>\<open>mtu\<close> of \<^verbatim>\<open>recv\<close>.\<close>

definition default_mtu :: nat where
  "default_mtu = 65536"

definition sendmsg_helper ::
  "('w, 'z) sockets_scheme \<Rightarrow> int \<Rightarrow> bytes option \<Rightarrow> nat \<Rightarrow> BufferViewList \<Rightarrow> ('w process, unit) prog" where
  "sendmsg_helper P fd_num destination_address destination_address_len data =
     (let iovecs = BufferViewList_as_iovecs data in
      bnd (syscall (sys_sendmsg P fd_num destination_address destination_address_len iovecs 0)) (\<lambda>r.
      bnd (lift_result (SystemCall ''sendmsg'' (narrow_int (sr_val r)) (sr_errno r) 0)) (\<lambda>bytes_sent.
      if size_of_ssize bytes_sent \<noteq> BufferViewList_size data
      then throw (RuntimeError ''datagram payload too big for sendmsg()'')
      else ret ())))"

definition UDPSocket_sendto :: "('w, 'z) sockets_scheme \<Rightarrow> handle \<Rightarrow> Address \<Rightarrow> BufferViewList \<Rightarrow> ('w process, unit) prog" where
  "UDPSocket_sendto P h destination data =
     bnd (FileDescriptor_fd_num h) (\<lambda>fd.
     bnd (sendmsg_helper P fd (Some (addr_storage destination)) (addr_size destination) data) (\<lambda>_.
     FileDescriptor_register_write h))"

definition UDPSocket_send :: "('w, 'z) sockets_scheme \<Rightarrow> handle \<Rightarrow> BufferViewList \<Rightarrow> ('w process, unit) prog" where
  "UDPSocket_send P h data =
     bnd (FileDescriptor_fd_num h) (\<lambda>fd.
     bnd (sendmsg_helper P fd None 0 data) (\<lambda>_.
     FileDescriptor_register_write h))"

subsection \<open>TCPSocket and LocalStreamSocket\<close>

definition TCPSocket_new :: "('w, 'z) sockets_scheme \<Rightarrow> ('w process, handle) prog" where
  "TCPSocket_new P = Socket_new P AF_INET SOCK_STREAM"

definition TCPSocket_of_fd :: "('w, 'z) sockets_scheme \<Rightarrow> handle \<Rightarrow> ('w process, handle) prog" where
  "TCPSocket_of_fd P h = Socket_of_fd P h AF_INET SOCK_STREAM"

definition TCPSocket_listen :: "('w, 'z) sockets_scheme \<Rightarrow> handle \<Rightarrow> int \<Rightarrow> ('w process, unit) prog" where
  "TCPSocket_listen P h backlog =
     bnd (FileDescriptor_fd_num h) (\<lambda>fd.
     bnd (syscall (sys_listen P fd backlog)) (\<lambda>r.
     bnd (lift_result (SystemCall ''listen'' (sr_val r) (sr_errno r) 0)) (\<lambda>_. ret ())))"

definition TCPSocket_accept :: "('w, 'z) sockets_scheme \<Rightarrow> handle \<Rightarrow> ('w process, handle) prog" where
  "TCPSocket_accept P h =
     bnd (FileDescriptor_register_read h) (\<lambda>_.
     bnd (FileDescriptor_fd_num h) (\<lambda>fd.
     bnd (syscall (sys_accept P fd)) (\<lambda>r.
     bnd (lift_result (SystemCall ''accept'' (sr_val r) (sr_errno r) 0)) (\<lambda>new_fd.
     bnd (FileDescriptor_new new_fd) (\<lambda>new.
     TCPSocket_of_fd P new)))))"

definition LocalStreamSocket_of_fd :: "('w, 'z) sockets_scheme \<Rightarrow> handle \<Rightarrow> ('w process, handle) prog" where
  "LocalStreamSocket_of_fd P h = Socket_of_fd P h AF_UNIX SOCK_STREAM"

subsection \<open>The operations keep the contract of a descriptor operation\<close>

lemma keeps_sendmsg_helper [fd_keeps]:
  "keeps process_inv (sendmsg_helper P fd dest len data)"
  "keeps (rest_is h s) (sendmsg_helper P fd dest len data)"
  unfolding sendmsg_helper_def Let_def by (intro keeps_intros fd_keeps)+

interpretation sock_get_address: fd_operation "\<lambda>h. Socket_get_address h name f" for name f
  unfolding Socket_get_address_def by unfold_locales (intro keeps_intros fd_keeps)+

interpretation sock_bind: fd_operation "\<lambda>h. Socket_bind P h address" for P address
  unfolding Socket_bind_def by unfold_locales (intro keeps_intros fd_keeps)+

interpretation sock_connect: fd_operation "\<lambda>h. Socket_connect P h address" for P address
  unfolding Socket_connect_def by unfold_locales (intro keeps_intros fd_keeps)+

interpretation sock_shutdown: fd_operation "\<lambda>h. Socket_shutdown P h how" for P how
  unfolding Socket_shutdown_def by unfold_locales (intro keeps_intros fd_keeps)+

interpretation sock_setsockopt: fd_operation "\<lambda>h. Socket_setsockopt P h level opt v" for P level opt v
  unfolding Socket_setsockopt_def by unfold_locales (intro keeps_intros fd_keeps)+

interpretation sock_recv: fd_operation "\<lambda>h. UDPSocket_recv_into P h datagram mtu" for P datagram mtu
  unfolding UDPSocket_recv_into_def by unfold_locales (intro keeps_intros fd_keeps)+

interpretation sock_sendto: fd_operation "\<lambda>h. UDPSocket_sendto P h destination data" for P destination data
  unfolding UDPSocket_sendto_def by unfold_locales (intro keeps_intros fd_keeps)+

interpretation sock_send: fd_operation "\<lambda>h. UDPSocket_send P h data" for P data
  unfolding UDPSocket_send_def by unfold_locales (intro keeps_intros fd_keeps)+

interpretation sock_listen: fd_operation "\<lambda>h. TCPSocket_listen P h backlog" for P backlog
  unfolding TCPSocket_listen_def by unfold_locales (intro keeps_intros fd_keeps)+

interpretation sock_verify: fd_operation "\<lambda>h. verify_option P h opt expected message" for P opt expected message
  unfolding verify_option_def by unfold_locales (intro keeps_intros fd_keeps)+

subsection \<open>Constructors own their descriptor\<close>

lemma safe_verify_option [safe_intros]: "safe_at h (verify_option P h opt expected message)"
  unfolding verify_option_def fd_accessor_defs by (intro safe_intros)

lemma Socket_of_fd_result:
  assumes "process_inv s" and "wrappers s h = Some w" and "Socket_of_fd P h domain type s = (r, t)"
  shows "process_inv t" and "\<And>h'. h' \<noteq> h \<Longrightarrow> wrappers t h' = wrappers s h'"
    and "next_handle t = next_handle s"
    and "case r of Inl e \<Rightarrow> use_count t = (use_count s)(h := use_count s h - 1)
         | Inr h' \<Rightarrow> h' = h \<and> use_count t = use_count s"
    and "\<not> undefined_behaviour r"
  using with_base_result [OF assms(1,2) _ _ _ assms(3) [unfolded Socket_of_fd_def]]
  by (simp_all add: keeps_bnd sock_verify.oper_inv sock_verify.oper_rest safe_bnd safe_verify_option)

lemma verify_option_eq:
  assumes "wrappers s h = Some w" and "sys_getsockopt P (w_fd w) SOL_SOCKET opt (world s) = ((r, v, l), W)"
  shows "verify_option P h opt expected message s =
    (if \<not> call_ok r then Inl (UnixError ''getsockopt'' (sr_errno r))
     else if l \<noteq> 4 \<or> v \<noteq> expected then Inl (RuntimeError message) else Inr (), s\<lparr>world := W\<rparr>)"
  using assms
  by (auto simp: verify_option_def accessor_eq bnd_Inr syscall_eq SystemCall_def call_ok_def sizeof_int_def
      throw_def ret_def)

lemma sendmsg_helper_eq:
  assumes "sys_sendmsg P fd dest len (BufferViewList_as_iovecs data) 0 (world s) = (r, W)"
    and "- 1 \<le> sr_val r" and "sr_val r < 2 ^ 31" and "sr_val r = - 1 \<longrightarrow> sr_errno r \<noteq> 0"
  shows "sendmsg_helper P fd dest len data s =
    (if sr_val r < 0 then Inl (UnixError ''sendmsg'' (sr_errno r))
     else if nat (sr_val r) \<noteq> BufferViewList_size data
     then Inl (RuntimeError ''datagram payload too big for sendmsg()'') else Inr (), s\<lparr>world := W\<rparr>)"
proof -
  have "narrow_int (sr_val r) = sr_val r" using assms(2,3) by (intro narrow_int_id) auto
  with assms show ?thesis
    by (auto simp: sendmsg_helper_def Let_def bnd_Inr syscall_eq SystemCall_def throw_def ret_def
        size_of_ssize_nonneg)
qed

lemma TCPSocket_accept_result:
  assumes inv: "process_inv s" and w: "wrappers s h = Some w"
    and run: "TCPSocket_accept P h s = (r, t)"
  shows "process_inv t \<and> wrappers t h = Some (w\<lparr>w_read_count := w_read_count w + 1\<rparr>) \<and>
    \<not> undefined_behaviour r \<and>
    (case r of Inl e \<Rightarrow> use_count t = use_count s
     | Inr new \<Rightarrow> new = next_handle s \<and> new \<noteq> h \<and> use_count t = (use_count s)(new := 1))"
proof -
  let ?w = "w\<lparr>w_read_count := w_read_count w + 1\<rparr>"
  obtain v W where sys: "sys_accept P (w_fd w) (world s) = (v, W)" by (cases "sys_accept P (w_fd w) (world s)")
  let ?s = "s\<lparr>wrappers := (wrappers s)(h := Some ?w), world := W\<rparr>"
  from process_inv_Some [OF inv w] have hw: "wrapper_inv ?w" "h < next_handle s" by (auto simp: wrapper_inv_def)
  from process_inv_update [OF inv w hw(1)] have inv': "process_inv ?s" by (simp add: process_inv_def)
  have run': "TCPSocket_accept P h s =
      (if call_ok v then bnd (FileDescriptor_new (sr_val v)) (TCPSocket_of_fd P) ?s
       else (Inl (UnixError ''accept'' (sr_errno v)), ?s))"
    using w sys
    by (auto simp: TCPSocket_accept_def bnd_Inr register_read_eq accessor_eq syscall_eq SystemCall_def call_ok_def throw_def)
  show ?thesis
  proof (cases "call_ok v \<and> 0 \<le> sr_val v")
    case False
    then have "(\<exists>e. r = Inl e \<and> \<not> is_undefined e) \<and> t = ?s"
      using run run' by (auto simp: FileDescriptor_new_eq bnd_def split: if_splits)
    with inv' show ?thesis by auto
  next
    case True
    let ?n = "next_handle s"
    obtain u where new: "FileDescriptor_new (sr_val v) ?s = (Inr ?n, u)"
      and u: "use_count u = (use_count s)(?n := 1)" "wrappers u h = Some ?w" "next_handle u = Suc ?n"
      using True hw(2) by (auto simp: FileDescriptor_new_eq)
    obtain wn where wn: "wrappers u ?n = Some wn" using new True by (auto simp: FileDescriptor_new_eq)
    have inv_u: "process_inv u" using keepsD' [OF keeps_new inv' new] .
    have of_fd: "Socket_of_fd P ?n AF_INET SOCK_STREAM u = (r, t)"
      using run run' new True by (simp add: bnd_Inr TCPSocket_of_fd_def)
    note res = Socket_of_fd_result [OF inv_u wn of_fd]
    have "(use_count s)(?n := 0) = use_count s" using next_handle_free [OF inv] by auto
    with res u hw(2) show ?thesis by (auto split: sum.splits)
  qed
qed

lemma recv_into_eq:
  assumes w: "wrappers s h = Some w" and mtu: "mtu \<le> max_size"
    and sys: "sys_recvfrom P (w_fd w) (take mtu (payload d) @ replicate (mtu - length (payload d)) 0) 0x20
      (replicate 128 0) 128 (world s) = ((r, buf, addr, fromlen), W)"
    and answer: "- 1 \<le> sr_val r" "sr_val r < 2 ^ 31" "sr_val r = - 1 \<longrightarrow> sr_errno r \<noteq> 0"
    and filled: "length buf = mtu" "length addr = 128" "fromlen \<le> 128"
  shows "UDPSocket_recv_into P h d mtu s =
    (if sr_val r < 0 then (Inl (UnixError ''recvfrom'' (sr_errno r)), s\<lparr>world := W\<rparr>)
     else if sr_val r > int mtu then (Inl (RuntimeError ''recvfrom (oversized datagram)''), s\<lparr>world := W\<rparr>)
     else (Inr \<lparr>source_address = \<lparr>addr_size = fromlen, addr_storage = take fromlen addr @ replicate (128 - fromlen) 0\<rparr>,
                 payload = take (nat (sr_val r)) buf\<rparr>,
           s\<lparr>world := W, wrappers := (wrappers s)(h := Some (w\<lparr>w_read_count := w_read_count w + 1\<rparr>))\<rparr>))"
proof -
  have "narrow_int (sr_val r) = sr_val r" using answer by (intro narrow_int_id) auto
  moreover have "Address_of_sockaddr addr fromlen =
      Inr \<lparr>addr_size = fromlen, addr_storage = take fromlen addr @ replicate (128 - fromlen) 0\<rparr>"
    using filled by (simp add: Address_of_sockaddr_def sizeof_storage_def)
  moreover have "string_resize mtu (payload d) = Inr (take mtu (payload d) @ replicate (mtu - length (payload d)) 0)"
    using mtu by (rule string_resize_ok)
  moreover have "string_resize (size_of_ssize (sr_val r)) buf = Inr (take (nat (sr_val r)) buf)"
    if "0 \<le> sr_val r" "sr_val r \<le> int mtu"
    using that filled(1) mtu answer(2) by (simp add: size_of_ssize_nonneg string_resize_ok)
  ultimately show ?thesis
    using w sys answer
    by (auto simp: UDPSocket_recv_into_def bnd_Inr accessor_eq syscall_eq SystemCall_def MSG_TRUNC_def
        Raw_default_def sizeof_storage_def throw_def ret_def register_read_eq)
qed

text \<open>
  \<^verbatim>\<open>recv(mtu)\<close> makes an empty datagram from a null pointer first. Where the C library does not define that \<^verbatim>\<open>memcpy\<close>, every call is
  undefined before anything is received.
\<close>

lemma recv_null_pointer:
  "UDPSocket_recv P h mtu s =
    (if memcpy_null P
     then UDPSocket_recv_into P h \<lparr>source_address = \<lparr>addr_size = 0, addr_storage = replicate 128 0\<rparr>, payload = []\<rparr> mtu s
     else (Inl (UndefinedBehaviour ''memcpy from a null pointer''), s))"
  by (simp add: UDPSocket_recv_def Address_of_null throw_def)

lemma shutdown_eq:
  assumes "wrappers s h = Some w" and "sys_shutdown P (w_fd w) how (world s) = (r, W)"
  shows "Socket_shutdown P h how s =
    (if sr_val r < 0 \<and> sr_errno r \<noteq> 0 then (Inl (UnixError ''shutdown'' (sr_errno r)), s\<lparr>world := W\<rparr>)
     else if how \<in> {0, 1, 2}
     then (Inr (), s\<lparr>world := W, wrappers := (wrappers s)(h := Some
            (w\<lparr>w_read_count := w_read_count w + (if how \<in> {0, 2} then 1 else 0),
               w_write_count := w_write_count w + (if how \<in> {1, 2} then 1 else 0)\<rparr>))\<rparr>)
     else (Inl (RuntimeError ''Socket::shutdown() called with invalid `how`''), s\<lparr>world := W\<rparr>))"
  using assms
  by (auto simp: Socket_shutdown_def bnd_Inr accessor_eq syscall_eq SystemCall_def SHUT_RD_def SHUT_WR_def
      SHUT_RDWR_def register_read_eq register_write_eq throw_def)

text \<open>
  A small network: sockets are TCP sockets over IPv4, a connection to accept is number 7, and a datagram of
  three bytes is waiting; \<^verbatim>\<open>sendmsg\<close> takes at most eight bytes.
\<close>

definition demo_sockets :: "unit sockets" where
  "demo_sockets = netdb.extend (demo_netdb False) (sockets.fields
     (\<lambda>domain type protocol W. (\<lparr>sr_val = 5, sr_errno = 0\<rparr>, W))
     (\<lambda>fd level opt W. ((\<lparr>sr_val = 0, sr_errno = 0\<rparr>, if opt = 39 then 2 else 1, 4), W))
     (\<lambda>fd level opt v W. (\<lparr>sr_val = 0, sr_errno = 0\<rparr>, W))
     (\<lambda>fd mem len W. ((\<lparr>sr_val = 0, sr_errno = 0\<rparr>, mem, 16), W))
     (\<lambda>fd mem len W. ((\<lparr>sr_val = 0, sr_errno = 0\<rparr>, mem, 16), W))
     (\<lambda>fd mem len W. (\<lparr>sr_val = 0, sr_errno = 0\<rparr>, W))
     (\<lambda>fd mem len W. (\<lparr>sr_val = 0, sr_errno = 0\<rparr>, W))
     (\<lambda>fd how W. (\<lparr>sr_val = 0, sr_errno = 0\<rparr>, W))
     (\<lambda>fd buf flags mem len W. ((\<lparr>sr_val = 3, sr_errno = 0\<rparr>, take (length buf) ([7, 8, 9] @ drop 3 buf), mem, 16), W))
     (\<lambda>fd dest len iov flags W. (\<lparr>sr_val = int (min 8 (length (iovec_bytes iov))), sr_errno = 0\<rparr>, W))
     (\<lambda>fd backlog W. (\<lparr>sr_val = 0, sr_errno = 0\<rparr>, W))
     (\<lambda>fd W. (\<lparr>sr_val = 7, sr_errno = 0\<rparr>, W)) True)"

lemmas demo_sockets_simps = demo_sockets_def netdb.defs sockets.defs

definition demo_sock_process :: "unit process" where
  "demo_sock_process = snd (FileDescriptor_new 5 (init_process ()))"

lemma demo_sock_process_simps [simp]:
  "wrappers demo_sock_process 0 =
     Some \<lparr>w_fd = 5, w_eof = False, w_closed = False, w_read_count = 0, w_write_count = 0\<rparr>"
  "use_count demo_sock_process 0 = 1" "process_inv demo_sock_process" "next_handle demo_sock_process = 1"
  using keepsD [OF keeps_new process_inv_init, of 5 "()"]
  by (simp_all add: demo_sock_process_def FileDescriptor_new_eq init_process_def)

subsection \<open>Properties\<close>

text \<open>
  C33: Every \<^verbatim>\<open>Address\<close> the library makes, by whichever constructor or operation (a raw address, a
  name or numeric address given to the resolver, a number, the local or peer address of a
  socket, the sender of a datagram), is well-formed: at most 128 bytes long, in a storage of
  exactly 128 bytes, whose tail is zero.
\<close>

theorem addresses_well_formed:
  "(Address_of_sockaddr mem len = Inr a \<longrightarrow> Address_inv a) \<and>
   (Address_of_name P host service s = (Inr a, t) \<longrightarrow> Address_inv a) \<and>
   (Address_of_ip P ip port s = (Inr a, t) \<longrightarrow> Address_inv a) \<and>
   (Address_from_ipv4_numeric be n = Inr a \<longrightarrow> Address_inv a) \<and>
   (Socket_local_address P h s = (Inr a, t) \<longrightarrow> Address_inv a) \<and>
   (Socket_peer_address P h s = (Inr a, t) \<longrightarrow> Address_inv a) \<and>
   (UDPSocket_recv P h mtu s = (Inr d, t) \<longrightarrow> Address_inv (source_address d))"
proof -
  have resolve: "Address_resolve P node service hints s = (Inr a, t) \<Longrightarrow> Address_inv a" for node service hints
    by (auto simp: Address_resolve_def bnd_eq_Inr lift_result_def throw_def split: if_splits option.splits prod.splits
        intro: Address_of_sockaddr_inv)
  have get: "Socket_get_address h name f s = (Inr a, t) \<Longrightarrow> Address_inv a" for name and f :: "int \<Rightarrow> bytes \<Rightarrow> nat \<Rightarrow> 'a \<Rightarrow> (sysret \<times> bytes \<times> nat) \<times> 'a"
    by (auto simp: Socket_get_address_def bnd_eq_Inr lift_result_def intro: Address_of_sockaddr_inv split: prod.splits)
  have recv: "UDPSocket_recv P h mtu s = (Inr d, t) \<Longrightarrow> Address_inv (source_address d)"
    by (auto simp: UDPSocket_recv_def UDPSocket_recv_into_def bnd_eq_Inr lift_result_def throw_def ret_def
        intro: Address_of_sockaddr_inv split: if_splits prod.splits)
  show ?thesis
    using resolve get recv Address_of_sockaddr_inv
    unfolding Address_of_name_def Address_of_ip_def Address_from_ipv4_numeric_def Let_def Socket_local_address_def
      Socket_peer_address_def by blast
qed

theorem addresses_well_formed_witness:
  "(\<exists>a. Address_of_sockaddr [2, 0, 0, 80, 7] 4 = Inr a \<and> Address_inv a) \<and>
   (\<exists>a t. Socket_local_address demo_sockets 0 demo_sock_process = (Inr a, t) \<and> Address_inv a)"
proof -
  have "is_ok (fst (Socket_local_address demo_sockets 0 demo_sock_process))"
    by (simp add: Socket_local_address_def Socket_get_address_def bnd_Inr accessor_eq syscall_def Let_def lift_result_def
        SystemCall_def demo_sockets_simps Address_of_sockaddr_def Raw_default_def sizeof_storage_def split_beta)
  then obtain a t where loc: "Socket_local_address demo_sockets 0 demo_sock_process = (Inr a, t)"
    by (metis is_ok_iff prod.collapse)
  obtain b where raw: "Address_of_sockaddr [2, 0, 0, 80, 7] 4 = Inr b" by (simp add: Address_of_sockaddr_def sizeof_storage_def)
  note wf = addresses_well_formed [of "[2, 0, 0, 80, 7]" 4 _ demo_sockets "[]" "[]" demo_sock_process t "[]" 0 False 0 0 0]
  from wf [of b] wf [of a] raw loc show ?thesis by blast
qed

text \<open>
  C28: The constructor that takes over a descriptor returns a socket exactly when the kernel
  reports the demanded domain and type for it, and then holds the use it was given; otherwise
  it throws, and that use is given up (the descriptor is closed if it was the last), so that no
  descriptor leaks.
\<close>

theorem socket_of_fd_spec:
  assumes "process_inv s" and "wrappers s h = Some w"
    and "sys_getsockopt P (w_fd w) 1 39 (world s) = ((r1, actual_domain, len1), W1)"
    and "sys_getsockopt P (w_fd w) 1 3 W1 = ((r2, actual_type, len2), W2)"
    and "Socket_of_fd P h domain type s = (r, t)"
  shows "process_inv t \<and> \<not> undefined_behaviour r \<and>
    (is_ok r \<longleftrightarrow> call_ok r1 \<and> len1 = 4 \<and> actual_domain = domain \<and> call_ok r2 \<and> len2 = 4 \<and> actual_type = type) \<and>
    (case r of
       Inr h' \<Rightarrow> h' = h \<and> use_count t = use_count s
     | Inl e \<Rightarrow> use_count t = (use_count s)(h := use_count s h - 1) \<and> (use_count s h = 1 \<longrightarrow> wrappers t h = None))"
proof -
  note res = Socket_of_fd_result [OF assms(1,2,5)]
  have v1: "verify_option P h SO_DOMAIN domain m s =
      (if \<not> call_ok r1 then Inl (UnixError ''getsockopt'' (sr_errno r1))
       else if len1 \<noteq> 4 \<or> actual_domain \<noteq> domain then Inl (RuntimeError m) else Inr (), s\<lparr>world := W1\<rparr>)" for m
    using assms(2,3) by (intro verify_option_eq) (simp_all add: SOL_SOCKET_def SO_DOMAIN_def)
  have v2: "verify_option P h SO_TYPE type m (s\<lparr>world := W1\<rparr>) =
      (if \<not> call_ok r2 then Inl (UnixError ''getsockopt'' (sr_errno r2))
       else if len2 \<noteq> 4 \<or> actual_type \<noteq> type then Inl (RuntimeError m) else Inr (), s\<lparr>world := W2\<rparr>)" for m
    using verify_option_eq [of "s\<lparr>world := W1\<rparr>" h w P SO_TYPE r2 actual_type len2 W2 type m] assms(2,4)
    by (simp add: SOL_SOCKET_def SO_TYPE_def)
  let ?body = "bnd (verify_option P h SO_DOMAIN domain ''socket domain mismatch'') (\<lambda>_.
        verify_option P h SO_TYPE type ''socket type mismatch'')"
  let ?good = "call_ok r1 \<and> len1 = 4 \<and> actual_domain = domain \<and> call_ok r2 \<and> len2 = 4 \<and> actual_type = type"
  have "?good \<Longrightarrow> ?body s = (Inr (), s\<lparr>world := W2\<rparr>)" by (simp add: bnd_def v1 v2)
  moreover have "\<not> ?good \<Longrightarrow> \<exists>e u. ?body s = (Inl e, u)" by (auto simp: bnd_def v1 v2)
  ultimately have ok: "is_ok r \<longleftrightarrow> ?good"
    using assms(5) with_base_ok [of ?body s _ P h] with_base_bad [of ?body s _ _ P h]
    unfolding Socket_of_fd_def by (metis fst_conv is_ok_simps(1))
  have "use_count t = (use_count s)(h := use_count s h - 1) \<Longrightarrow> use_count s h = 1 \<Longrightarrow> wrappers t h = None"
    using process_inv_None [OF res(1), of h] by simp
  with res(1,4,5) ok show ?thesis by (auto split: sum.splits)
qed

theorem socket_of_fd_spec_witness:
  "fst (Socket_of_fd demo_sockets 0 2 1 demo_sock_process) = Inr 0 \<and>
   \<not> is_ok (fst (Socket_of_fd demo_sockets 0 2 2 demo_sock_process))"
proof -
  have opt: "sys_getsockopt demo_sockets 5 1 39 () = ((\<lparr>sr_val = 0, sr_errno = 0\<rparr>, 2, 4), ())"
    "sys_getsockopt demo_sockets 5 1 3 () = ((\<lparr>sr_val = 0, sr_errno = 0\<rparr>, 1, 4), ())"
    by (simp_all add: demo_sockets_simps)
  note spec = socket_of_fd_spec [OF demo_sock_process_simps(3,1), of demo_sockets, simplified, OF opt,
      OF prod.collapse [symmetric]]
  from spec [of 2 1] spec [of 2 2] show ?thesis
    by (auto simp: call_ok_def split: sum.splits)
qed

text \<open>
  C25: \<^verbatim>\<open>accept\<close> counts a read of the listening socket in every case, and otherwise leaves it alone.
  When it returns, the result is a new descriptor with one use; when it throws, every use
  count is what it was: a connection that was accepted and then rejected by the constructor
  does not leak.
\<close>

theorem accept_spec:
  assumes inv: "process_inv s" and w: "wrappers s h = Some w"
    and run: "TCPSocket_accept P h s = (r, t)"
  shows "process_inv t \<and> wrappers t h = Some (w\<lparr>w_read_count := w_read_count w + 1\<rparr>) \<and>
    \<not> undefined_behaviour r \<and>
    (case r of Inl e \<Rightarrow> use_count t = use_count s
     | Inr new \<Rightarrow> new = next_handle s \<and> new \<noteq> h \<and> use_count t = (use_count s)(new := 1))"
  using assms by (rule TCPSocket_accept_result)

theorem accept_spec_witness:
  "process_inv (snd (TCPSocket_accept demo_sockets 0 demo_sock_process))"
  using accept_spec [OF demo_sock_process_simps(3,1) prod.collapse [symmetric], of demo_sockets] by blast

text \<open>
  C26: \<^verbatim>\<open>UDPSocket::recv\<close>, for every answer of \<^verbatim>\<open>recvfrom\<close> with \<^verbatim>\<open>MSG_TRUNC\<close>: an error is
  thrown; a datagram longer than \<^verbatim>\<open>mtu\<close>, of which only a part was copied, is never returned but
  thrown, and not counted as a read; any other datagram is returned whole, with the address
  of its sender, and counted.
\<close>

theorem recv_spec:
  assumes w: "wrappers s h = Some w" and mtu: "mtu \<le> max_size"
    and sys: "sys_recvfrom P (w_fd w) (take mtu (payload d) @ replicate (mtu - length (payload d)) 0) 0x20
      (replicate 128 0) 128 (world s) = ((r, buf, addr, fromlen), W)"
    and answer: "- 1 \<le> sr_val r" "sr_val r < 2 ^ 31" "sr_val r = - 1 \<longrightarrow> sr_errno r \<noteq> 0"
    and filled: "length buf = mtu" "length addr = 128" "fromlen \<le> 128"
  shows "UDPSocket_recv_into P h d mtu s =
    (if sr_val r < 0 then (Inl (UnixError ''recvfrom'' (sr_errno r)), s\<lparr>world := W\<rparr>)
     else if sr_val r > int mtu then (Inl (RuntimeError ''recvfrom (oversized datagram)''), s\<lparr>world := W\<rparr>)
     else (Inr \<lparr>source_address = \<lparr>addr_size = fromlen, addr_storage = take fromlen addr @ replicate (128 - fromlen) 0\<rparr>,
                 payload = take (nat (sr_val r)) buf\<rparr>,
           s\<lparr>world := W, wrappers := (wrappers s)(h := Some (w\<lparr>w_read_count := w_read_count w + 1\<rparr>))\<rparr>))"
  using assms by (rule recv_into_eq)

theorem recv_spec_witness:
  "fst (UDPSocket_recv_into demo_sockets 0 \<lparr>source_address = \<lparr>addr_size = 0, addr_storage = replicate 128 0\<rparr>, payload = []\<rparr>
     4 demo_sock_process) =
     Inr \<lparr>source_address = \<lparr>addr_size = 16, addr_storage = replicate 128 0\<rparr>, payload = [7, 8, 9]\<rparr>"
proof -
  have four: "replicate 4 (0 :: byte) = [0, 0, 0, 0]" by (simp add: numeral_eq_Suc)
  show ?thesis
    by (subst recv_spec [OF demo_sock_process_simps(1), where r = "\<lparr>sr_val = 3, sr_errno = 0\<rparr>"
          and buf = "[7, 8, 9, 0]" and addr = "replicate 128 0" and fromlen = 16 and W = "()"])
      (simp_all add: max_size_def demo_sockets_simps four flip: replicate_add)
qed

text \<open>
  C27: \<^verbatim>\<open>UDPSocket::sendto\<close> hands \<^verbatim>\<open>sendmsg\<close> the destination and, as one message, exactly the bytes
  of the payload; it returns exactly when the kernel took all of them, and then, and only
  then, counts a write.
\<close>

theorem sendto_spec:
  assumes "wrappers s h = Some w"
    and "sys_sendmsg P (w_fd w) (Some (addr_storage destination)) (addr_size destination)
      (BufferViewList_as_iovecs data) 0 (world s) = (r, W)"
    and "- 1 \<le> sr_val r" and "sr_val r < 2 ^ 31" and "sr_val r = - 1 \<longrightarrow> sr_errno r \<noteq> 0"
  shows "iovec_bytes (BufferViewList_as_iovecs data) = concat (views data) \<and>
    UDPSocket_sendto P h destination data s =
      (if sr_val r = int (length (concat (views data)))
       then (Inr (), s\<lparr>world := W, wrappers := (wrappers s)(h := Some (w\<lparr>w_write_count := w_write_count w + 1\<rparr>))\<rparr>)
       else (Inl (if sr_val r < 0 then UnixError ''sendmsg'' (sr_errno r)
                  else RuntimeError ''datagram payload too big for sendmsg()''), s\<lparr>world := W\<rparr>))"
proof -
  have "BufferViewList_size data = length (concat (views data))" by (rule vlist.size_of_contents) simp
  with assms(1) sendmsg_helper_eq [OF assms(2-5)] show ?thesis
    by (auto simp: UDPSocket_sendto_def bnd_def accessor_eq register_write_eq iovec_bytes_as_iovecs)
qed

theorem sendto_spec_witness:
  "is_ok (fst (UDPSocket_sendto demo_sockets 0 \<lparr>addr_size = 16, addr_storage = replicate 128 0\<rparr>
     (BufferViewList_of_string [1, 2, 3]) demo_sock_process))"
  using sendto_spec [OF demo_sock_process_simps(1), where P = demo_sockets
      and destination = "\<lparr>addr_size = 16, addr_storage = replicate 128 0\<rparr>"
      and data = "BufferViewList_of_string [1, 2, 3]" and r = "\<lparr>sr_val = 3, sr_errno = 0\<rparr>" and W = "()"]
  by (simp add: demo_sockets_simps iovec_bytes_as_iovecs BufferViewList_of_string_def)

text \<open>
  \<^verbatim>\<open>shutdown\<close> counts a read for \<^verbatim>\<open>SHUT_RD\<close>, a write for \<^verbatim>\<open>SHUT_WR\<close> and both for \<^verbatim>\<open>SHUT_RDWR\<close>, so
  that an event loop sees the descriptor serviced; a failed call is thrown, and so is any
  other value of \<^verbatim>\<open>how\<close> (after the system call was made).
\<close>

theorem shutdown_spec:
  assumes "wrappers s h = Some w" and "sys_shutdown P (w_fd w) how (world s) = (r, W)"
  shows "Socket_shutdown P h how s =
    (if sr_val r < 0 \<and> sr_errno r \<noteq> 0 then (Inl (UnixError ''shutdown'' (sr_errno r)), s\<lparr>world := W\<rparr>)
     else if how \<in> {0, 1, 2}
     then (Inr (), s\<lparr>world := W, wrappers := (wrappers s)(h := Some
            (w\<lparr>w_read_count := w_read_count w + (if how \<in> {0, 2} then 1 else 0),
               w_write_count := w_write_count w + (if how \<in> {1, 2} then 1 else 0)\<rparr>))\<rparr>)
     else (Inl (RuntimeError ''Socket::shutdown() called with invalid `how`''), s\<lparr>world := W\<rparr>))"
  using assms by (rule shutdown_eq)

theorem shutdown_spec_witness:
  "Socket_shutdown demo_sockets 0 2 demo_sock_process =
     (Inr (), demo_sock_process\<lparr>wrappers := (wrappers demo_sock_process)(0 := Some
       \<lparr>w_fd = 5, w_eof = False, w_closed = False, w_read_count = 1, w_write_count = 1\<rparr>)\<rparr>)"
  using shutdown_spec [OF demo_sock_process_simps(1), of demo_sockets 2 "\<lparr>sr_val = 0, sr_errno = 0\<rparr>" "()"]
  by (simp add: demo_sockets_simps)

end
