(* ===== verification/Scope.thy ===== *)
theory Scope
  imports Socket
begin

text \<open>
  Programs over sockets. A socket that is a local variable is destroyed at the end of its block,
  whether the rest of the block returns or throws (\<open>scoped\<close>). A program is \<open>tidy\<close> when, on
  whatever kernel, it leaves every use count of a descriptor as it was and never has undefined
  behaviour; the rules below show it part by part, in the way the program is composed.
\<close>

subsection \<open>Local variables\<close>

definition scoped :: "('w, 'z) posix_scheme \<Rightarrow> handle \<Rightarrow> ('w process, 'a) prog \<Rightarrow> ('w process, 'a) prog" where
  "scoped P h m s =
     (case m s of (r, t) \<Rightarrow>
        (case FileDescriptor_destructor P h t of (Inl e, u) \<Rightarrow> (Inl e, u) | (Inr _, u) \<Rightarrow> (r, u)))"

text \<open>
  \<^verbatim>\<open>try { m } catch (...) { return EXIT_FAILURE; }\<close> in a \<^verbatim>\<open>main\<close> function; undefined behaviour is not an
  exception that could be caught.
\<close>

definition catch_all :: "('s, int) prog \<Rightarrow> ('s, int) prog" where
  "catch_all m = try_catch m (\<lambda>e. if is_undefined e then throw e else ret 1)"

lemma scoped_result:
  assumes "m s = (r, t)" and "process_inv t" and "0 < use_count t h"
  shows "\<exists>u. scoped P h m s = (r, u) \<and> FileDescriptor_destructor P h t = (Inr (), u) \<and> process_inv u \<and>
    use_count u = (use_count t)(h := use_count t h - 1)"
proof -
  obtain w where w: "wrappers t h = Some w" using live_handle [OF assms(2,3)] .
  obtain q u where d: "FileDescriptor_destructor P h t = (q, u)" by (cases "FileDescriptor_destructor P h t")
  have "process_inv u" using keepsD' [OF keeps_destructor assms(2) d] .
  with d w assms(1,3) destructor_ret [OF w, of P] destructor_effect(1) [OF w, of P] show ?thesis
    by (auto simp: scoped_def)
qed

subsection \<open>Tidy programs\<close>

definition tidy :: "(handle \<Rightarrow> nat) \<Rightarrow> ('w process, 'a) prog \<Rightarrow> bool" where
  "tidy counts m \<longleftrightarrow>
     (\<forall>s r t. process_inv s \<and> use_count s = counts \<and> m s = (r, t) \<longrightarrow>
        process_inv t \<and> use_count t = counts \<and> \<not> undefined_behaviour r)"

text \<open>A constructor: it returns a handle that was not in use, now with one use, or throws and leaves none.\<close>

definition acquires :: "(handle \<Rightarrow> nat) \<Rightarrow> ('w process, handle) prog \<Rightarrow> bool" where
  "acquires counts m \<longleftrightarrow>
     (\<forall>s r t. process_inv s \<and> use_count s = counts \<and> m s = (r, t) \<longrightarrow>
        process_inv t \<and>
        (case r of Inl e \<Rightarrow> use_count t = counts \<and> \<not> is_undefined e
         | Inr h \<Rightarrow> counts h = 0 \<and> use_count t = counts(h := 1)))"

named_theorems tidy_intros

lemma tidyI:
  "(\<And>s r t. process_inv s \<Longrightarrow> use_count s = c \<Longrightarrow> m s = (r, t) \<Longrightarrow>
      process_inv t \<and> use_count t = c \<and> \<not> undefined_behaviour r) \<Longrightarrow> tidy c m"
  unfolding tidy_def by blast

lemma tidyD:
  "tidy c m \<Longrightarrow> process_inv s \<Longrightarrow> use_count s = c \<Longrightarrow> m s = (r, t) \<Longrightarrow>
     process_inv t \<and> use_count t = c \<and> \<not> undefined_behaviour r"
  unfolding tidy_def by blast

lemma acquiresI:
  "(\<And>s r t. process_inv s \<Longrightarrow> use_count s = c \<Longrightarrow> m s = (r, t) \<Longrightarrow>
      process_inv t \<and> (case r of Inl e \<Rightarrow> use_count t = c \<and> \<not> is_undefined e
                      | Inr h \<Rightarrow> c h = 0 \<and> use_count t = c(h := 1))) \<Longrightarrow> acquires c m"
  unfolding acquires_def by blast

lemma acquiresD:
  "acquires c m \<Longrightarrow> process_inv s \<Longrightarrow> use_count s = c \<Longrightarrow> m s = (r, t) \<Longrightarrow>
     process_inv t \<and> (case r of Inl e \<Rightarrow> use_count t = c \<and> \<not> is_undefined e
                      | Inr h \<Rightarrow> c h = 0 \<and> use_count t = c(h := 1))"
  unfolding acquires_def by blast

lemma tidy_ret [tidy_intros]: "tidy c (ret x)"
  by (simp add: tidy_def ret_def)

lemma tidy_throw [tidy_intros]: "\<not> is_undefined e \<Longrightarrow> tidy c (throw e)"
  by (simp add: tidy_def throw_def)

lemma tidy_lift: "\<not> undefined_behaviour r \<Longrightarrow> tidy c (lift_result r)"
  by (simp add: tidy_def lift_result_def)

lemma tidy_SystemCall [tidy_intros]: "tidy c (lift_result (SystemCall a v e m))"
  by (rule tidy_lift) (simp add: SystemCall_def)

lemma tidy_bnd [tidy_intros]:
  assumes "tidy c m" and "\<And>x. tidy c (f x)"
  shows "tidy c (bnd m f)"
proof (rule tidyI)
  fix s r t assume s: "process_inv s" "use_count s = c" and run: "bnd m f s = (r, t)"
  obtain q u where m: "m s = (q, u)" by (cases "m s")
  note u = tidyD [OF assms(1) s m]
  show "process_inv t \<and> use_count t = c \<and> \<not> undefined_behaviour r"
  proof (cases q)
    case (Inl e)
    with m run u show ?thesis by (auto simp: bnd_def)
  next
    case (Inr x)
    with m run have "f x u = (r, t)" by (simp add: bnd_def)
    with u show ?thesis using tidyD [OF assms(2)] by blast
  qed
qed

text \<open>A system call, with what is known of its answer.\<close>

lemma tidy_bnd_syscall:
  assumes "\<And>W x W'. f W = (x, W') \<Longrightarrow> tidy c (k x)"
  shows "tidy c (bnd (syscall f) k)"
proof (rule tidyI)
  fix s r t assume s: "process_inv s" "use_count s = c" and run: "bnd (syscall f) k s = (r, t)"
  obtain x W where f: "f (world s) = (x, W)" by (cases "f (world s)")
  have "process_inv (s\<lparr>world := W\<rparr>)" "use_count (s\<lparr>world := W\<rparr>) = c" using s by (simp_all add: process_inv_def)
  moreover have "k x (s\<lparr>world := W\<rparr>) = (r, t)" using run by (simp add: bnd_Inr syscall_eq f)
  ultimately show "process_inv t \<and> use_count t = c \<and> \<not> undefined_behaviour r"
    by (rule tidyD [OF assms [OF f]])
qed

lemma tidy_syscall [tidy_intros]: "tidy c (syscall f)"
  using tidy_bnd_syscall [of f c ret] by (simp add: tidy_ret bnd_def ret_def tidy_def syscall_def split_beta Let_def)

lemma tidy_if [tidy_intros]: "(b \<Longrightarrow> tidy c m) \<Longrightarrow> (\<not> b \<Longrightarrow> tidy c n) \<Longrightarrow> tidy c (if b then m else n)"
  by simp

lemma tidy_case_prod [tidy_intros]: "(\<And>a b. tidy c (f a b)) \<Longrightarrow> tidy c (case x of (a, b) \<Rightarrow> f a b)"
  by (cases x) simp

lemma tidy_scoped [tidy_intros]:
  assumes "acquires c m" and "\<And>h. c h = 0 \<Longrightarrow> tidy (c(h := 1)) (k h)"
  shows "tidy c (bnd m (\<lambda>h. scoped P h (k h)))"
proof (rule tidyI)
  fix s r t assume s: "process_inv s" "use_count s = c" and run: "bnd m (\<lambda>h. scoped P h (k h)) s = (r, t)"
  obtain q u where m: "m s = (q, u)" by (cases "m s")
  note acq = acquiresD [OF assms(1) s m]
  show "process_inv t \<and> use_count t = c \<and> \<not> undefined_behaviour r"
  proof (cases q)
    case (Inl e)
    with m run acq show ?thesis by (auto simp: bnd_Inl)
  next
    case (Inr h)
    with acq have u: "process_inv u" "c h = 0" "use_count u = c(h := 1)" by simp_all
    obtain q' v where k: "k h u = (q', v)" by (cases "k h u")
    note v = tidyD [OF assms(2) [OF u(2)] u(1,3) k]
    with scoped_result [where m = "k h" and h = h, OF k] obtain x where
      x: "scoped P h (k h) u = (q', x)" "process_inv x" "use_count x = (use_count v)(h := use_count v h - 1)"
      by fastforce
    have "(c(h := 1))(h := 0) = c" using u(2) by auto
    with x v m run Inr show ?thesis by (simp add: bnd_Inr)
  qed
qed

context fd_operation begin

lemma oper_tidy:
  assumes "safe_at h (oper h)" and "0 < c h"
  shows "tidy c (oper h)"
proof (rule tidyI)
  fix s r t assume s: "process_inv s" "use_count s = c" and run: "oper h s = (r, t)"
  from s assms(2) obtain w where "wrappers s h = Some w" by (auto elim!: live_handle)
  with safe_at_defined [OF assms(1), of s] run have "\<not> undefined_behaviour r" by simp
  with s oper_result(1) [OF s(1) run] oper_live [OF s(1) run]
  show "process_inv t \<and> use_count t = c \<and> \<not> undefined_behaviour r" by simp
qed

end

subsection \<open>The socket operations\<close>

lemma safe_Address_of_sockaddr:
  "len \<le> length mem \<or> sizeof_storage \<le> length mem \<Longrightarrow> safe_at h (lift_result (Address_of_sockaddr mem len))"
  by (auto simp: safe_at_def lift_result_def Address_of_sockaddr_def)

lemma safe_calls [safe_intros]:
  "safe_at h (Socket_bind P h address)" "safe_at h (Socket_connect P h address)"
  "safe_at h (TCPSocket_listen P h backlog)" "safe_at h (Socket_shutdown P h how)"
  unfolding Socket_bind_def Socket_connect_def TCPSocket_listen_def Socket_shutdown_def fd_accessor_defs
  by (intro safe_intros; simp)+

lemma safe_sendmsg_helper [safe_intros]: "safe_at h (sendmsg_helper P fd dest len data)"
  unfolding sendmsg_helper_def Let_def by (intro safe_intros; simp)

lemma safe_send [safe_intros]:
  "safe_at h (UDPSocket_sendto P h destination data)" "safe_at h (UDPSocket_send P h data)"
  unfolding UDPSocket_sendto_def UDPSocket_send_def fd_accessor_defs by (intro safe_intros)+

text \<open>
  What is assumed of a kernel's use of arrays: an array of the caller keeps its size, and a length the resolver
  reports is that of the address it reports.
\<close>

definition keeps_arrays :: "('w, 'z) sockets_scheme \<Rightarrow> bool" where
  "keeps_arrays P \<longleftrightarrow>
     (\<forall>node service hints W ret mem len W'.
        sys_getaddrinfo P node service hints W = ((ret, Some (mem, len)), W') \<longrightarrow> len \<le> length mem) \<and>
     (\<forall>fd buf flags mem len W r buf' mem' len' W'.
        sys_recvfrom P fd buf flags mem len W = ((r, buf', mem', len'), W') \<longrightarrow> length mem' = length mem)"

lemma tidy_Address_of_sockaddr:
  "len \<le> length mem \<or> sizeof_storage \<le> length mem \<Longrightarrow> tidy c (lift_result (Address_of_sockaddr mem len))"
  by (rule tidy_lift) (auto simp: Address_of_sockaddr_def)

lemma tidy_resolve:
  assumes "keeps_arrays P"
  shows "tidy c (Address_resolve P node service hints)"
  unfolding Address_resolve_def
proof (rule tidy_bnd_syscall, clarify)
  fix W gai_ret found W' assume call: "sys_getaddrinfo P (c_str node) (c_str service) hints W = ((gai_ret, found), W')"
  have "tidy c (lift_result (Address_of_sockaddr mem len))" if "found = Some (mem, len)" for mem len
    using assms call that unfolding keeps_arrays_def by (intro tidy_Address_of_sockaddr) blast
  then show "tidy c (if gai_ret \<noteq> 0 then throw (gai_error P (''getaddrinfo('' @ node @ '', '' @ service @ '')'') gai_ret)
      else case found of None \<Rightarrow> throw (RuntimeError ''getaddrinfo returned successfully but with no results'')
           | Some (ai_addr, ai_addrlen) \<Rightarrow> lift_result (Address_of_sockaddr ai_addr ai_addrlen))"
    by (cases found) (auto simp: gai_error_def intro: tidy_throw)
qed

lemma tidy_Address_of_ip [tidy_intros]: "keeps_arrays P \<Longrightarrow> tidy c (Address_of_ip P ip port)"
  unfolding Address_of_ip_def by (rule tidy_resolve)

interpretation fd_number: fd_operation FileDescriptor_fd_num
  by unfold_locales (intro fd_keeps)+

interpretation fd_register_read: fd_operation FileDescriptor_register_read
  by unfold_locales (intro fd_keeps)+

lemma tidy_accessors [tidy_intros]:
  "0 < c h \<Longrightarrow> tidy c (FileDescriptor_fd_num h)" "0 < c h \<Longrightarrow> tidy c (FileDescriptor_register_read h)"
  by (rule fd_number.oper_tidy fd_register_read.oper_tidy;
      simp add: fd_accessor_defs safe_bnd safe_get_wrapper safe_ret safe_modify_wrapper)+

lemma tidy_string_resize [tidy_intros]: "tidy c (lift_result (string_resize n s))"
  by (rule tidy_lift) (simp add: string_resize_def)

lemma tidy_recv [tidy_intros]:
  assumes "keeps_arrays P" and "0 < c h" and "memcpy_null P"
  shows "tidy c (UDPSocket_recv P h mtu)"
proof -
  have arr: "length mem' = sizeof_storage"
    if "sys_recvfrom P fd buf MSG_TRUNC Raw_default sizeof_storage W = ((r, buf', mem', len'), W')" for fd buf W r buf' mem' len' W'
    using assms(1) that unfolding keeps_arrays_def by (metis Raw_default_def length_replicate)
  have "tidy c (UDPSocket_recv_into P h d mtu)" for d
    unfolding UDPSocket_recv_into_def
  proof (intro tidy_bnd [OF tidy_string_resize] tidy_bnd [OF tidy_accessors(1) [where c = c and h = h, OF assms(2)]] tidy_bnd_syscall, clarify)
    fix buf fd W r buf' from_addr fromlen W'
    assume "sys_recvfrom P fd buf MSG_TRUNC Raw_default sizeof_storage W = ((r, buf', from_addr, fromlen), W')"
    then have "length from_addr = sizeof_storage" by (rule arr)
    with assms(2) show "tidy c (bnd (lift_result (SystemCall ''recvfrom'' (narrow_int (sr_val r)) (sr_errno r) 0)) (\<lambda>recv_len.
        if recv_len > int mtu then throw (RuntimeError ''recvfrom (oversized datagram)'')
        else bnd (FileDescriptor_register_read h) (\<lambda>_.
          bnd (lift_result (Address_of_sockaddr from_addr fromlen)) (\<lambda>source.
          bnd (lift_result (string_resize (size_of_ssize recv_len) buf')) (\<lambda>buf.
          ret \<lparr>source_address = source, payload = buf\<rparr>)))))"
      by (intro tidy_intros tidy_Address_of_sockaddr) simp_all
  qed
  with assms(3) show ?thesis by (simp add: UDPSocket_recv_def Address_of_null)
qed

lemmas tidy_operations [tidy_intros] =
  fd_close.oper_tidy [OF safe_close] fd_read.oper_tidy [OF safe_read] fd_write.oper_tidy [OF safe_write]
  sock_bind.oper_tidy [OF safe_calls(1)] sock_connect.oper_tidy [OF safe_calls(2)]
  sock_listen.oper_tidy [OF safe_calls(3)] sock_shutdown.oper_tidy [OF safe_calls(4)]
  sock_sendto.oper_tidy [OF safe_send(1)] sock_send.oper_tidy [OF safe_send(2)]

lemma tidy_read_write [tidy_intros]:
  "0 < c h \<Longrightarrow> tidy c (FileDescriptor_read P h limit)"
  "0 < c h \<Longrightarrow> tidy c (FileDescriptor_write_string P h str write_all)"
  unfolding FileDescriptor_read_def FileDescriptor_write_string_def by (intro tidy_operations; simp)+

subsection \<open>The constructors\<close>

lemma acquires_of_fd:
  assumes "\<And>s. tidy c (m :: ('w process, int) prog)"
  shows "acquires c (bnd m (\<lambda>fd. FileDescriptor_new fd))"
proof (rule acquiresI)
  fix s r t assume s: "process_inv s" "use_count s = c" and run: "bnd m (\<lambda>fd. FileDescriptor_new fd) s = (r, t)"
  obtain q u where m: "m s = (q, u)" by (cases "m s")
  note u = tidyD [OF assms s m]
  show "process_inv t \<and> (case r of Inl e \<Rightarrow> use_count t = c \<and> \<not> is_undefined e
                      | Inr h \<Rightarrow> c h = 0 \<and> use_count t = c(h := 1))"
  proof (cases q)
    case (Inl e)
    with m run u show ?thesis by (auto simp: bnd_Inl)
  next
    case (Inr fd)
    with m run have new: "FileDescriptor_new fd u = (r, t)" by (simp add: bnd_Inr)
    have "process_inv t" using keepsD' [OF keeps_new _ new] u by blast
    with new u next_handle_free [of u] show ?thesis by (auto simp: FileDescriptor_new_eq split: if_splits)
  qed
qed

lemma acquires_Socket_new: "acquires c (Socket_new P domain type)"
proof -
  have "Socket_new P domain type =
      bnd (bnd (syscall (sys_socket P domain type 0)) (\<lambda>r. lift_result (SystemCall ''socket'' (sr_val r) (sr_errno r) 0)))
        FileDescriptor_new"
    unfolding Socket_new_def bnd_assoc ..
  then show ?thesis by (simp add: acquires_of_fd tidy_bnd tidy_syscall tidy_SystemCall)
qed

lemma acquires_accept:
  assumes "0 < c h"
  shows "acquires c (TCPSocket_accept P h)"
proof (rule acquiresI)
  fix s r t assume s: "process_inv s" "use_count s = c" and run: "TCPSocket_accept P h s = (r, t)"
  from s assms obtain w where w: "wrappers s h = Some w" by (auto elim!: live_handle)
  from TCPSocket_accept_result [OF s(1) w run] s next_handle_free [OF s(1)]
  show "process_inv t \<and> (case r of Inl e \<Rightarrow> use_count t = c \<and> \<not> is_undefined e
                      | Inr h \<Rightarrow> c h = 0 \<and> use_count t = c(h := 1))"
    by (auto split: sum.splits)
qed

lemma acquires_local: "acquires c (bnd (FileDescriptor_new fd) (\<lambda>h. LocalStreamSocket_of_fd P h))"
proof (rule acquiresI)
  fix s r t assume s: "process_inv s" "use_count s = c"
    and run: "bnd (FileDescriptor_new fd) (\<lambda>h. LocalStreamSocket_of_fd P h) s = (r, t)"
  obtain q u where new: "FileDescriptor_new fd s = (q, u)" by (cases "FileDescriptor_new fd s")
  have u: "process_inv u" using keepsD' [OF keeps_new s(1) new] .
  show "process_inv t \<and> (case r of Inl e \<Rightarrow> use_count t = c \<and> \<not> is_undefined e
                      | Inr h \<Rightarrow> c h = 0 \<and> use_count t = c(h := 1))"
  proof (cases "fd < 0")
    case True
    with new run s show ?thesis by (auto simp: FileDescriptor_new_eq bnd_def)
  next
    case False
    then obtain w where q: "q = Inr (next_handle s)" "wrappers u (next_handle s) = Some w"
      and cu: "use_count u = c(next_handle s := 1)"
      using new s(2) by (auto simp: FileDescriptor_new_eq)
    have "Socket_of_fd P (next_handle s) AF_UNIX SOCK_STREAM u = (r, t)"
      using run new q by (simp add: bnd_Inr LocalStreamSocket_of_fd_def)
    note res = Socket_of_fd_result [OF u q(2) this]
    have "c (next_handle s) = 0" using next_handle_free [OF s(1)] s(2) by auto
    moreover from this have "(c(next_handle s := 1))(next_handle s := 0) = c" by auto
    ultimately show ?thesis using res cu by (auto split: sum.splits)
  qed
qed

end
