(* ===== verification/Random_Generator.thy ===== *)
theory Random_Generator
  imports File_Descriptor
begin

text \<open>
  \<^verbatim>\<open>get_random_generator\<close> of \<^verbatim>\<open>util/util.cc\<close>. The entropy source behind \<^verbatim>\<open>std::random_device\<close> is a
  parameter; a reading is a word, or an exception when the source fails. \<^verbatim>\<open>std::seed_seq\<close> and the
  constructor of \<^verbatim>\<open>std::mt19937\<close> from a seed sequence are modelled as the C++ standard defines
  them.
\<close>

subsection \<open>The entropy source\<close>

definition random_device :: "('w \<Rightarrow> uint32 result \<times> 'w) \<Rightarrow> ('w process, uint32) prog" where
  "random_device rd = bnd (syscall rd) lift_result"

text \<open>\<^verbatim>\<open>std::generate\<close> over an array: one reading per element, from the first to the last.\<close>

fun generate_words :: "('w \<Rightarrow> uint32 result \<times> 'w) \<Rightarrow> nat \<Rightarrow> ('w process, uint32 list) prog" where
  "generate_words rd 0 = ret []"
| "generate_words rd (Suc n) =
     bnd (random_device rd) (\<lambda>x. bnd (generate_words rd n) (\<lambda>xs. ret (x # xs)))"

subsection \<open>Seed sequences\<close>

definition seed_mix :: "uint32 \<Rightarrow> uint32" where
  "seed_mix x = x XOR drop_bit 27 x"

definition seed_t :: "nat \<Rightarrow> nat" where
  "seed_t n = (if n \<ge> 623 then 11 else if n \<ge> 68 then 7 else if n \<ge> 39 then 5 else if n \<ge> 7 then 3 else (n - 1) div 2)"

definition seed_p :: "nat \<Rightarrow> nat" where
  "seed_p n = (n - seed_t n) div 2"

definition seed_q :: "nat \<Rightarrow> nat" where
  "seed_q n = seed_p n + seed_t n"

text \<open>One step of the two passes over the array \<open>b\<close>; \<open>v\<close> is the seed. The index before 0 is the last.\<close>

definition seed_step1 :: "uint32 list \<Rightarrow> nat \<Rightarrow> uint32 list \<Rightarrow> uint32 list" where
  "seed_step1 v k b =
     (let n = length b; s = length v;
          i = k mod n; ip = (k + seed_p n) mod n; iq = (k + seed_q n) mod n;
          r1 = 1664525 * seed_mix (b ! i XOR b ! ip XOR b ! ((k + n - 1) mod n));
          r2 = r1 + (if k = 0 then of_nat s else if k \<le> s then of_nat i + v ! (k - 1) else of_nat i);
          b = b[ip := b ! ip + r1];
          b = b[iq := b ! iq + r2]
      in b[i := r2])"

definition seed_step2 :: "nat \<Rightarrow> uint32 list \<Rightarrow> uint32 list" where
  "seed_step2 k b =
     (let n = length b;
          i = k mod n; ip = (k + seed_p n) mod n; iq = (k + seed_q n) mod n;
          r3 = 1566083941 * seed_mix (b ! i + b ! ip + b ! ((k + n - 1) mod n));
          r4 = r3 - of_nat i;
          b = b[ip := b ! ip XOR r3];
          b = b[iq := b ! iq XOR r4]
      in b[i := r4])"

definition seed_seq_generate :: "uint32 list \<Rightarrow> nat \<Rightarrow> uint32 list" where
  "seed_seq_generate v n =
     (if n = 0 then []
      else
        let m = max (length v + 1) n;
            b = replicate n 0x8b8b8b8b;
            b = fold (seed_step1 v) [0..<m] b
        in fold seed_step2 [m..<m + n] b)"

subsection \<open>mt19937\<close>

definition state_size :: nat where
  "state_size = 624"

record mt19937 =
  mt_state :: "uint32 list"
  mt_index :: nat

text \<open>
  The constructor. A state whose only used bits (the top bit of the first word and all of the others) are zero
  would stay zero for ever; it is replaced.
\<close>

definition degenerate :: "uint32 list \<Rightarrow> bool" where
  "degenerate x \<longleftrightarrow> x ! 0 AND 0x80000000 = 0 \<and> (\<forall>y \<in> set (tl x). y = 0)"

definition mt19937_of_seed_seq :: "uint32 list \<Rightarrow> mt19937" where
  "mt19937_of_seed_seq seed =
     (let x = seed_seq_generate seed state_size in
      \<lparr>mt_state = (if degenerate x then x[0 := 0x80000000] else x), mt_index = state_size\<rparr>)"

definition get_random_generator :: "('w \<Rightarrow> uint32 result \<times> 'w) \<Rightarrow> ('w process, mt19937) prog" where
  "get_random_generator rd =
     bnd (generate_words rd state_size) (\<lambda>seed_data.
     ret (mt19937_of_seed_seq seed_data))"

subsection \<open>Lemmas\<close>

definition mt_wf :: "mt19937 \<Rightarrow> bool" where
  "mt_wf g \<longleftrightarrow> length (mt_state g) = 624 \<and> mt_index g = 624 \<and> \<not> degenerate (mt_state g)"

lemma seed_steps_length [simp]: "length (seed_step1 v k b) = length b" "length (seed_step2 k b) = length b"
  by (simp_all add: seed_step1_def seed_step2_def Let_def)

lemma fold_length:
  assumes "\<And>k b. length (f k b) = length b"
  shows "length (fold f ks b) = length b"
  using assms by (induction ks arbitrary: b) simp_all

lemma seed_seq_generate_length [simp]: "length (seed_seq_generate v n) = n"
  by (simp add: seed_seq_generate_def Let_def fold_length)

lemma mt19937_of_seed_seq_wf: "mt_wf (mt19937_of_seed_seq v)"
proof -
  let ?x = "seed_seq_generate v state_size"
  obtain y ys where x: "?x = y # ys" by (cases ?x) (use seed_seq_generate_length [of v state_size] in \<open>auto simp: state_size_def\<close>)
  have "\<not> degenerate (?x[0 := 0x80000000])" unfolding x by (simp add: degenerate_def)
  then show ?thesis
    by (simp add: mt_wf_def mt19937_of_seed_seq_def Let_def state_size_def)
qed

lemma get_random_generator_wf: "get_random_generator rd s = (Inr g, t) \<Longrightarrow> mt_wf g"
  by (auto simp: get_random_generator_def bnd_eq_Inr ret_def mt19937_of_seed_seq_wf)

end
