(* ===== verification/Loopback.thy ===== *)
theory Loopback
  imports Scope Random_Generator
begin

text \<open>
  The kernel the socket examples run on: the documented behaviour of the socket calls between
  sockets of one host, as far as the examples use it. \<open>net W\<close> is the kernel's table of sockets
  in the world \<open>W\<close>, by descriptor. Each predicate says what one call does in the situations in
  which it must succeed; what the kernel does in any other situation is left open. Descriptors,
  ephemeral addresses and the pieces in which a stream accepts data are the kernel's choice.

  Programs are then verified with triples over the configuration of the process and the kernel
  together: use counts, open descriptors, table of sockets.
\<close>

subsection \<open>The table of sockets\<close>

datatype ksock =
    KStream
  | KNamed bytes
  | KListening bytes "int list"
  | KWaiting
  | KConn int int bytes
  | KDgram "bytes option" "bytes option" "(bytes \<times> bytes) list"

text \<open>
  A stream socket is new, has a local address, listens (with the clients that wait), waits to be
  accepted, or is connected (its domain, its peer, the bytes that wait to be read). A
  datagram socket has perhaps a local address, perhaps a peer's address, and a queue of
  datagrams with their senders.
\<close>

type_synonym sockets_table = "int \<Rightarrow> ksock option"

definition dgram_names :: "sockets_table \<Rightarrow> bytes set" where
  "dgram_names K = {a. \<exists>fd peer q. K fd = Some (KDgram (Some a) peer q)}"

definition stream_names :: "sockets_table \<Rightarrow> bytes set" where
  "stream_names K = {a. \<exists>fd. K fd = Some (KNamed a) \<or> (\<exists>q. K fd = Some (KListening a q))}"

lemma dgram_names_new:
  assumes "K fd = None"
  shows "dgram_names (K(fd \<mapsto> KDgram None peer q)) = dgram_names K"
    and "dgram_names (K(fd \<mapsto> KDgram (Some a) peer q)) = insert a (dgram_names K)"
  unfolding dgram_names_def using assms by (auto split: if_splits) (metis option.distinct(1))+

lemma stream_names_new:
  assumes "K fd = None"
  shows "stream_names (K(fd \<mapsto> KStream)) = stream_names K"
  unfolding stream_names_def using assms by (auto split: if_splits) (metis option.distinct(1))+

text \<open>127.0.0.1 and a port as a \<^verbatim>\<open>sockaddr_in\<close>; the addresses the kernel gives to sockets that have none.\<close>

definition loopback_address :: "bool \<Rightarrow> uint16 \<Rightarrow> bytes" where
  "loopback_address be port = inet_sockaddr be [127, 0, 0, 1] port"

definition ephemeral :: "bool \<Rightarrow> sockets_table \<Rightarrow> bytes set" where
  "ephemeral be K =
     {a. \<exists>port. 32768 \<le> unat port \<and> unat port \<le> 60999 \<and> a = loopback_address be port \<and> a \<notin> dgram_names K}"

text \<open>The socket that a local address belongs to.\<close>

definition receives_at :: "sockets_table \<Rightarrow> bytes \<Rightarrow> int \<Rightarrow> bool" where
  "receives_at K a fd \<longleftrightarrow>
     (\<exists>peer q. K fd = Some (KDgram (Some a) peer q)) \<and>
     (\<forall>fd' peer q. K fd' = Some (KDgram (Some a) peer q) \<longrightarrow> fd' = fd)"

definition listens_at :: "sockets_table \<Rightarrow> bytes \<Rightarrow> int \<Rightarrow> bool" where
  "listens_at K a fd \<longleftrightarrow>
     (\<exists>q. K fd = Some (KListening a q)) \<and> (\<forall>fd' q. K fd' = Some (KListening a q) \<longrightarrow> fd' = fd)"

record 'w host_kernel = "'w sockets" +
  sys_socketpair :: "int \<Rightarrow> int \<Rightarrow> int \<Rightarrow> 'w \<Rightarrow> (sysret \<times> int \<times> int) \<times> 'w"
  sys_random_device :: "'w \<Rightarrow> uint32 result \<times> 'w"

abbreviation returns :: "int \<Rightarrow> sysret" where
  "returns v \<equiv> \<lparr>sr_val = v, sr_errno = 0\<rparr>"

subsection \<open>What the calls do\<close>

definition k_socket :: "('w, 'z) host_kernel_scheme \<Rightarrow> ('w \<Rightarrow> sockets_table) \<Rightarrow> bool" where
  "k_socket P net \<longleftrightarrow>
     (\<forall>type k W. (type, k) \<in> {(1, KStream), (2, KDgram None None [])} \<longrightarrow>
        (\<exists>fd W'. sys_socket P 2 type 0 W = (returns fd, W') \<and> 0 \<le> fd \<and> net W fd = None \<and>
           net W' = (net W)(fd \<mapsto> k)))"

text \<open>\<^verbatim>\<open>bind\<close> to a port of 127.0.0.1 that is not privileged (\<^verbatim>\<open>ip(7)\<close>) and not in use.\<close>

definition k_bind :: "bool \<Rightarrow> ('w, 'z) host_kernel_scheme \<Rightarrow> ('w \<Rightarrow> sockets_table) \<Rightarrow> bool" where
  "k_bind be P net \<longleftrightarrow>
     (\<forall>fd mem port W. take 16 mem = loopback_address be port \<and> 1024 \<le> unat port \<longrightarrow>
        (\<forall>peer q. net W fd = Some (KDgram None peer q) \<and> take 16 mem \<notin> dgram_names (net W) \<longrightarrow>
           (\<exists>W'. sys_bind P fd mem 16 W = (returns 0, W') \<and>
              net W' = (net W)(fd \<mapsto> KDgram (Some (take 16 mem)) peer q))) \<and>
        (net W fd = Some KStream \<and> take 16 mem \<notin> stream_names (net W) \<longrightarrow>
           (\<exists>W'. sys_bind P fd mem 16 W = (returns 0, W') \<and> net W' = (net W)(fd \<mapsto> KNamed (take 16 mem)))))"

definition k_recvfrom :: "('w, 'z) host_kernel_scheme \<Rightarrow> ('w \<Rightarrow> sockets_table) \<Rightarrow> bool" where
  "k_recvfrom P net \<longleftrightarrow>
     (\<forall>fd buf mem W name peer src data q.
        net W fd = Some (KDgram name peer ((src, data) # q)) \<and> length src \<le> length mem \<longrightarrow>
        (\<exists>W'. sys_recvfrom P fd buf 0x20 mem (length mem) W =
             ((returns (int (length data)), take (length buf) (data @ drop (length data) buf),
               src @ drop (length src) mem, length src), W') \<and>
           net W' = (net W)(fd \<mapsto> KDgram name peer q)))"

definition k_connect :: "('w, 'z) host_kernel_scheme \<Rightarrow> ('w \<Rightarrow> sockets_table) \<Rightarrow> bool" where
  "k_connect P net \<longleftrightarrow>
     (\<forall>fd mem W.
        (\<forall>name peer. net W fd = Some (KDgram (Some name) peer []) \<longrightarrow>
           (\<exists>W'. sys_connect P fd mem 16 W = (returns 0, W') \<and>
              net W' = (net W)(fd \<mapsto> KDgram (Some name) (Some (take 16 mem)) []))) \<and>
        (\<forall>l. net W fd = Some KStream \<and> listens_at (net W) (take 16 mem) l \<and> net W l = Some (KListening (take 16 mem) []) \<longrightarrow>
           (\<exists>W'. sys_connect P fd mem 16 W = (returns 0, W') \<and>
              net W' = (net W)(fd \<mapsto> KWaiting, l \<mapsto> KListening (take 16 mem) [fd]))))"

definition k_listen :: "('w, 'z) host_kernel_scheme \<Rightarrow> ('w \<Rightarrow> sockets_table) \<Rightarrow> bool" where
  "k_listen P net \<longleftrightarrow>
     (\<forall>fd a backlog W. net W fd = Some (KNamed a) \<and> 0 < backlog \<longrightarrow>
        (\<exists>W'. sys_listen P fd backlog W = (returns 0, W') \<and> net W' = (net W)(fd \<mapsto> KListening a [])))"

definition k_accept :: "('w, 'z) host_kernel_scheme \<Rightarrow> ('w \<Rightarrow> sockets_table) \<Rightarrow> bool" where
  "k_accept P net \<longleftrightarrow>
     (\<forall>l a c q W. net W l = Some (KListening a (c # q)) \<and> net W c = Some KWaiting \<longrightarrow>
        (\<exists>fd W'. sys_accept P l W = (returns fd, W') \<and> 0 \<le> fd \<and> net W fd = None \<and>
           net W' = (net W)(l \<mapsto> KListening a q, c \<mapsto> KConn 2 fd [], fd \<mapsto> KConn 2 c [])))"

definition k_socketpair :: "('w, 'z) host_kernel_scheme \<Rightarrow> ('w \<Rightarrow> sockets_table) \<Rightarrow> bool" where
  "k_socketpair P net \<longleftrightarrow>
     (\<forall>W. \<exists>a b W'. sys_socketpair P 1 1 0 W = ((returns 0, a, b), W') \<and> 0 \<le> a \<and> 0 \<le> b \<and> a \<noteq> b \<and>
        net W a = None \<and> net W b = None \<and> net W' = (net W)(a \<mapsto> KConn 1 b [], b \<mapsto> KConn 1 a []))"

definition k_getsockopt :: "('w, 'z) host_kernel_scheme \<Rightarrow> ('w \<Rightarrow> sockets_table) \<Rightarrow> bool" where
  "k_getsockopt P net \<longleftrightarrow>
     (\<forall>fd domain peer X W. net W fd = Some (KConn domain peer X) \<longrightarrow>
        (\<exists>W'. sys_getsockopt P fd 1 39 W = ((returns 0, domain, 4), W') \<and> net W' = net W) \<and>
        (\<exists>W'. sys_getsockopt P fd 1 3 W = ((returns 0, 1, 4), W') \<and> net W' = net W))"

text \<open>
  A connected stream accepts a part of the data, not empty unless the data is, and gives back what waits. An array that is not
  valid may be refused.
\<close>

definition k_writev :: "('w, 'z) host_kernel_scheme \<Rightarrow> ('w \<Rightarrow> sockets_table) \<Rightarrow> bool" where
  "k_writev P net \<longleftrightarrow>
     (\<forall>a b domain X Y iov W. net W a = Some (KConn domain b X) \<and> net W b = Some (KConn domain a Y) \<and> a \<noteq> b \<longrightarrow>
        (\<exists>k W'. sys_writev P a iov W = (returns (int k), W') \<and>
           k \<le> length (iovec_bytes iov) \<and> k \<le> 0x7ffff000 \<and> (iovec_bytes iov \<noteq> [] \<longrightarrow> 0 < k) \<and>
           net W' = (net W)(b \<mapsto> KConn domain a (Y @ take k (iovec_bytes iov)))) \<or>
        \<not> iov_valid iov \<and> (\<exists>e W'. sys_writev P a iov W = (\<lparr>sr_val = - 1, sr_errno = e\<rparr>, W') \<and> e \<noteq> 0 \<and> net W' = net W))"

definition k_read :: "('w, 'z) host_kernel_scheme \<Rightarrow> ('w \<Rightarrow> sockets_table) \<Rightarrow> bool" where
  "k_read P net \<longleftrightarrow>
     (\<forall>a b domain X buf W. net W a = Some (KConn domain b X) \<and> X \<noteq> [] \<longrightarrow>
        (\<exists>W'. sys_read P a buf W =
             ((returns (int (min (length X) (length buf))), take (length buf) X @ drop (length X) buf), W') \<and>
           net W' = (net W)(a \<mapsto> KConn domain b (drop (length buf) X))))"

definition k_shutdown :: "('w, 'z) host_kernel_scheme \<Rightarrow> ('w \<Rightarrow> sockets_table) \<Rightarrow> bool" where
  "k_shutdown P net \<longleftrightarrow>
     (\<forall>fd domain peer X W. net W fd = Some (KConn domain peer X) \<longrightarrow>
        (\<exists>W'. sys_shutdown P fd 2 W = (returns 0, W') \<and> net W' = net W))"

definition k_close :: "('w, 'z) host_kernel_scheme \<Rightarrow> ('w \<Rightarrow> sockets_table) \<Rightarrow> bool" where
  "k_close P net \<longleftrightarrow>
     (\<forall>fd W. net W fd \<noteq> None \<longrightarrow> (\<exists>W'. sys_close P fd W = (returns 0, W') \<and> net W' = (net W)(fd := None)))"

text \<open>The resolver and the entropy source do not touch the sockets, and the entropy source works.\<close>

definition k_services :: "bool \<Rightarrow> ('w, 'z) host_kernel_scheme \<Rightarrow> ('w \<Rightarrow> sockets_table) \<Rightarrow> bool" where
  "k_services be P net \<longleftrightarrow> numeric_getaddrinfo be P \<and>
     (\<forall>node service hints W. net (snd (sys_getaddrinfo P node service hints W)) = net W) \<and>
     (\<forall>W. \<exists>v W'. sys_random_device P W = (Inr v, W') \<and> net W' = net W)"

definition loopback :: "bool \<Rightarrow> ('w, 'z) host_kernel_scheme \<Rightarrow> ('w \<Rightarrow> sockets_table) \<Rightarrow> bool" where
  "loopback be P net \<longleftrightarrow>
     k_socket P net \<and> k_bind be P net \<and> k_recvfrom P net \<and> k_connect P net \<and> k_listen P net \<and>
     k_accept P net \<and> k_socketpair P net \<and> k_getsockopt P net \<and> k_writev P net \<and> k_read P net \<and>
     k_shutdown P net \<and> k_close P net \<and> k_services be P net"

lemma loopbackD:
  assumes "loopback be P net"
  shows "k_socket P net" "k_bind be P net" "k_recvfrom P net" "k_connect P net" "k_listen P net"
    "k_accept P net" "k_socketpair P net" "k_getsockopt P net" "k_writev P net" "k_read P net"
    "k_shutdown P net" "k_close P net" "k_services be P net"
  using assms by (simp_all add: loopback_def)

text \<open>
  \<^verbatim>\<open>udp(7)\<close> promises no delivery, so this is no part of \<open>loopback\<close> but a condition on the kernel of its own: no small datagram (256 bytes are
  the smallest receive buffer of \<^verbatim>\<open>socket(7)\<close>) is lost on its way to an unconnected socket of the host at which nothing else waits. A sender
  without an address gets a new one.
\<close>

definition no_datagram_lost :: "bool \<Rightarrow> ('w, 'z) host_kernel_scheme \<Rightarrow> ('w \<Rightarrow> sockets_table) \<Rightarrow> bool" where
  "no_datagram_lost be P net \<longleftrightarrow>
     (\<forall>fd dest len iov W name peer q to receiver.
        net W fd = Some (KDgram name peer q) \<and>
        (case dest of Some mem \<Rightarrow> len = 16 \<and> to = take 16 mem | None \<Rightarrow> len = 0 \<and> peer = Some to) \<and>
        receives_at (net W) to receiver \<and> receiver \<noteq> fd \<and> net W receiver = Some (KDgram (Some to) None []) \<and>
        (name = None \<longrightarrow> ephemeral be (net W) \<noteq> {}) \<and> iov_valid iov \<and> length (iovec_bytes iov) \<le> 256 \<longrightarrow>
        (\<exists>src W'. sys_sendmsg P fd dest len iov 0 W = (returns (int (length (iovec_bytes iov))), W') \<and>
           (case name of Some a \<Rightarrow> src = a | None \<Rightarrow> src \<in> ephemeral be (net W)) \<and>
           net W' = (net W)(fd \<mapsto> KDgram (Some src) peer q,
                            receiver \<mapsto> KDgram (Some to) None [(src, iovec_bytes iov)])))"

subsection \<open>Configurations and triples\<close>

definition open_fds :: "'w process \<Rightarrow> handle \<Rightarrow> int option" where
  "open_fds s h = (case wrappers s h of None \<Rightarrow> None | Some w \<Rightarrow> if w_closed w then None else Some (w_fd w))"

record config =
  counts :: "handle \<Rightarrow> nat"
  fds :: "handle \<Rightarrow> int option"
  table :: sockets_table

definition config_of :: "('w \<Rightarrow> sockets_table) \<Rightarrow> 'w process \<Rightarrow> config" where
  "config_of net s = \<lparr>counts = use_count s, fds = open_fds s, table = net (world s)\<rparr>"

text \<open>
  \<open>triple net C m Q\<close>: started in a well-formed state with configuration \<open>C\<close>, the program \<open>m\<close> returns, in a well-formed
  state, a value and a configuration related by \<open>Q\<close>.
\<close>

definition triple ::
  "('w \<Rightarrow> sockets_table) \<Rightarrow> config \<Rightarrow> ('w process, 'a) prog \<Rightarrow> ('a \<Rightarrow> config \<Rightarrow> bool) \<Rightarrow> bool" where
  "triple net C m Q \<longleftrightarrow>
     (\<forall>s. process_inv s \<and> config_of net s = C \<longrightarrow>
        (\<exists>x t. m s = (Inr x, t) \<and> process_inv t \<and> Q x (config_of net t)))"

lemma tripleI:
  "(\<And>s. process_inv s \<Longrightarrow> config_of net s = C \<Longrightarrow> \<exists>x t. m s = (Inr x, t) \<and> process_inv t \<and> Q x (config_of net t)) \<Longrightarrow>
     triple net C m Q"
  unfolding triple_def by blast

lemma tripleE:
  assumes "triple net C m Q" and "process_inv s" and "config_of net s = C"
  obtains x t where "m s = (Inr x, t)" "process_inv t" "Q x (config_of net t)"
  using assms unfolding triple_def by blast

lemma triple_ret: "Q x C \<Longrightarrow> triple net C (ret x) Q"
  by (auto simp: triple_def ret_def)

lemma triple_bnd:
  assumes "triple net C m R" and "\<And>x C'. R x C' \<Longrightarrow> triple net C' (f x) Q"
  shows "triple net C (bnd m f) Q"
proof (rule tripleI)
  fix s :: "'a process" assume s: "process_inv s" "config_of net s = C"
  obtain x t where m: "m s = (Inr x, t)" "process_inv t" "R x (config_of net t)"
    using assms(1) s by (rule tripleE)
  obtain y u where "f x t = (Inr y, u)" "process_inv u" "Q y (config_of net u)"
    using assms(2) [OF m(3)] m(2) refl by (rule tripleE)
  with m(1) show "\<exists>y u. bnd m f s = (Inr y, u) \<and> process_inv u \<and> Q y (config_of net u)"
    by (simp add: bnd_Inr)
qed

lemma triple_conseq: "triple net C m R \<Longrightarrow> (\<And>x C'. R x C' \<Longrightarrow> Q x C') \<Longrightarrow> triple net C m Q"
  unfolding triple_def by blast

subsection \<open>The operations\<close>

lemma open_fdsD: "open_fds s h = Some fd \<Longrightarrow> \<exists>w. wrappers s h = Some w \<and> w_fd w = fd \<and> \<not> w_closed w"
  by (auto simp: open_fds_def split: option.splits if_splits)

lemma open_fds_world [simp]: "open_fds (s\<lparr>world := W\<rparr>) = open_fds s"
  by (simp add: open_fds_def fun_eq_iff)

lemma config_of_sel [simp]:
  "counts (config_of net s) = use_count s" "fds (config_of net s) = open_fds s" "table (config_of net s) = net (world s)"
  by (simp_all add: config_of_def)

lemma config_of_world [simp]: "config_of net (s\<lparr>world := W\<rparr>) = (config_of net s)\<lparr>table := net W\<rparr>"
  by (auto simp: config_of_def open_fds_def)

text \<open>A step that counts a read or a write, or sets the end-of-file flag, does not change the configuration.\<close>

lemma config_of_counter:
  assumes "wrappers s h = Some w" and "w_fd w' = w_fd w" and "w_closed w' = w_closed w"
  shows "config_of net (s\<lparr>world := W, wrappers := (wrappers s)(h \<mapsto> w')\<rparr>) = (config_of net s)\<lparr>table := net W\<rparr>"
    and "config_of net (s\<lparr>wrappers := (wrappers s)(h \<mapsto> w')\<rparr>) = config_of net s"
  using assms by (auto simp: config_of_def open_fds_def fun_eq_iff)

lemma process_inv_counter:
  assumes "process_inv s" and "wrappers s h = Some w" and "w_fd w' = w_fd w" and "w_closed w' = w_closed w"
    and "w_eof w \<longrightarrow> w_eof w'"
  shows "process_inv (s\<lparr>world := W, wrappers := (wrappers s)(h \<mapsto> w')\<rparr>)"
proof -
  have "wrapper_inv w'" using process_inv_Some [OF assms(1,2)] assms(3-) by (auto simp: wrapper_inv_def)
  from process_inv_update [OF assms(1,2) this] show ?thesis by (simp add: process_inv_def)
qed

lemma process_inv_world [simp]: "process_inv (s\<lparr>world := W\<rparr>) = process_inv s"
  by (simp add: process_inv_def)

lemma triple_syscall:
  assumes "\<And>W. net W = table C \<Longrightarrow> \<exists>x W'. f W = (x, W') \<and> R x (net W')"
    and "\<And>x K. R x K \<Longrightarrow> triple net (C\<lparr>table := K\<rparr>) (k x) Q"
  shows "triple net C (bnd (syscall f) k) Q"
proof (rule triple_bnd)
  show "triple net C (syscall f) (\<lambda>x C'. \<exists>K. R x K \<and> C' = C\<lparr>table := K\<rparr>)"
  proof (rule tripleI)
    fix s :: "'a process" assume s: "process_inv s" "config_of net s = C"
    then obtain x W where f: "f (world s) = (x, W)" "R x (net W)" using assms(1) [of "world s"] by auto
    then have "syscall f s = (Inr x, s\<lparr>world := W\<rparr>)" by (simp add: syscall_eq)
    with s f(2) show "\<exists>x t. syscall f s = (Inr x, t) \<and> process_inv t \<and> (\<exists>K. R x K \<and> config_of net t = C\<lparr>table := K\<rparr>)"
      by (intro exI [of _ x] exI [of _ "s\<lparr>world := W\<rparr>"]) auto
  qed
qed (use assms(2) in blast)

lemma triple_fd_num:
  assumes "fds C h = Some fd" and "triple net C (k fd) Q"
  shows "triple net C (bnd (FileDescriptor_fd_num h) k) Q"
proof (rule tripleI)
  fix s :: "'a process" assume s: "process_inv s" "config_of net s = C"
  with assms(1) obtain w where "wrappers s h = Some w" "w_fd w = fd" by (auto dest!: open_fdsD)
  with tripleE [OF assms(2) s] show "\<exists>x t. bnd (FileDescriptor_fd_num h) k s = (Inr x, t) \<and> process_inv t \<and> Q x (config_of net t)"
    by (metis accessor_eq(3) bnd_Inr)
qed

lemma triple_register:
  assumes "fds C h = Some fd"
  shows "triple net C (FileDescriptor_register_read h) (\<lambda>_ C'. C' = C)"
    and "triple net C (FileDescriptor_register_write h) (\<lambda>_ C'. C' = C)"
proof -
  have "process_inv (s\<lparr>wrappers := (wrappers s)(h \<mapsto> w')\<rparr>)"
    if "process_inv s" "wrappers s h = Some w" "w_fd w' = w_fd w" "w_closed w' = w_closed w" "w_eof w \<longrightarrow> w_eof w'" for s :: "'a process" and w w'
    using process_inv_counter [OF that, of "world s"] by simp
  with assms show "triple net C (FileDescriptor_register_read h) (\<lambda>_ C'. C' = C)"
    "triple net C (FileDescriptor_register_write h) (\<lambda>_ C'. C' = C)"
    by (auto intro!: tripleI dest!: open_fdsD simp: register_read_eq register_write_eq config_of_counter(2))
qed

text \<open>The shape of \<^verbatim>\<open>bind\<close>, \<^verbatim>\<open>connect\<close>, \<^verbatim>\<open>listen\<close> and \<^verbatim>\<open>shutdown\<close>: a call on the descriptor, its check, and the rest.\<close>

lemma triple_call:
  assumes "fds C h = Some fd"
    and "\<And>W. net W = table C \<Longrightarrow> \<exists>W'. f fd W = (returns 0, W') \<and> net W' = K"
    and "triple net (C\<lparr>table := K\<rparr>) (k 0) Q"
  shows "triple net C (bnd (FileDescriptor_fd_num h) (\<lambda>fd. bnd (syscall (f fd)) (\<lambda>r.
           bnd (lift_result (SystemCall name (sr_val r) (sr_errno r) 0)) k))) Q"
proof (rule triple_fd_num [OF assms(1)], rule triple_syscall [where R = "\<lambda>x K'. x = returns 0 \<and> K' = K"])
  fix W assume "net W = table C"
  with assms(2) show "\<exists>x W'. f fd W = (x, W') \<and> x = returns 0 \<and> net W' = K" by blast
next
  fix x K' assume "x = returns 0 \<and> K' = K"
  with assms(3) show "triple net (C\<lparr>table := K'\<rparr>) (bnd (lift_result (SystemCall name (sr_val x) (sr_errno x) 0)) k) Q"
    by (simp add: SystemCall_def)
qed

lemma triple_new:
  assumes "0 \<le> fd"
  shows "triple net C (FileDescriptor_new fd) (\<lambda>h C'. counts C h = 0 \<and> fds C h = None \<and>
    C' = C\<lparr>counts := (counts C)(h := 1), fds := (fds C)(h \<mapsto> fd)\<rparr>)"
proof (rule tripleI)
  fix s :: "'a process" assume s: "process_inv s" "config_of net s = C"
  let ?n = "next_handle s"
  let ?t = "s\<lparr>wrappers := (wrappers s)(?n := Some
      \<lparr>w_fd = fd, w_eof = False, w_closed = False, w_read_count = 0, w_write_count = 0\<rparr>),
      use_count := (use_count s)(?n := 1), next_handle := Suc ?n\<rparr>"
  have new: "FileDescriptor_new fd s = (Inr ?n, ?t)" using assms by (simp add: FileDescriptor_new_eq)
  have "config_of net ?t = C\<lparr>counts := (counts C)(?n := 1), fds := (fds C)(?n \<mapsto> fd)\<rparr>"
    unfolding s(2) [symmetric] by (auto simp: config_of_def open_fds_def fun_eq_iff)
  moreover have "counts C ?n = 0" "fds C ?n = None"
    unfolding s(2) [symmetric] using next_handle_free [OF s(1)] by (simp_all add: open_fds_def)
  ultimately show "\<exists>h t. FileDescriptor_new fd s = (Inr h, t) \<and> process_inv t \<and> counts C h = 0 \<and> fds C h = None \<and>
      config_of net t = C\<lparr>counts := (counts C)(h := 1), fds := (fds C)(h \<mapsto> fd)\<rparr>"
    using new keepsD' [OF keeps_new s(1) new] by blast
qed

lemma triple_socket:
  assumes "k_socket P net" and "(type, k) \<in> {(1, KStream), (2, KDgram None None [])}"
  shows "triple net C (Socket_new P 2 type) (\<lambda>h C'. counts C h = 0 \<and> fds C h = None \<and>
    (\<exists>fd. table C fd = None \<and> C' = C\<lparr>counts := (counts C)(h := 1), fds := (fds C)(h \<mapsto> fd), table := (table C)(fd \<mapsto> k)\<rparr>))"
  unfolding Socket_new_def
proof (rule triple_syscall [where R = "\<lambda>r K. \<exists>fd. r = returns fd \<and> 0 \<le> fd \<and> table C fd = None \<and> K = (table C)(fd \<mapsto> k)"])
  fix W assume "net W = table C"
  with assms show "\<exists>x W'. sys_socket P 2 type 0 W = (x, W') \<and>
      (\<exists>fd. x = returns fd \<and> 0 \<le> fd \<and> table C fd = None \<and> net W' = (table C)(fd \<mapsto> k))"
    unfolding k_socket_def by metis
next
  fix r K assume "\<exists>fd. r = returns fd \<and> 0 \<le> fd \<and> table C fd = None \<and> K = (table C)(fd \<mapsto> k)"
  then show "triple net (C\<lparr>table := K\<rparr>) (bnd (lift_result (SystemCall ''socket'' (sr_val r) (sr_errno r) 0)) FileDescriptor_new)
      (\<lambda>h C'. counts C h = 0 \<and> fds C h = None \<and>
        (\<exists>fd. table C fd = None \<and> C' = C\<lparr>counts := (counts C)(h := 1), fds := (fds C)(h \<mapsto> fd), table := (table C)(fd \<mapsto> k)\<rparr>))"
    by (auto simp: SystemCall_def intro!: triple_conseq [OF triple_new])
qed

subsection \<open>Closing\<close>

text \<open>What the end of a block does to the configuration.\<close>

definition release :: "handle \<Rightarrow> config \<Rightarrow> config" where
  "release h C = C\<lparr>counts := (counts C)(h := 0), fds := (fds C)(h := None),
     table := (case fds C h of None \<Rightarrow> table C | Some fd \<Rightarrow> (table C)(fd := None))\<rparr>"

lemma destructor_world:
  assumes w: "wrappers t h = Some w" and one: "use_count t h = 1"
  shows "world (snd (FileDescriptor_destructor P h t)) =
    (if w_closed w then world t else snd (sys_close P (w_fd w) (world t)))"
proof -
  obtain r v where d: "FDWrapper_destructor P h t = (r, v)" by (cases "FDWrapper_destructor P h t")
  from destructor_last [OF w _ d] one have eq: "world (snd (FileDescriptor_destructor P h t)) = world v" by simp
  show ?thesis
  proof (cases "w_closed w")
    case True
    with eq d FDWrapper_destructor_closed [OF w, of P] show ?thesis by simp
  next
    case False
    with eq d FDWrapper_destructor_open(1) [OF w False, of P] show ?thesis
      by (metis prod.collapse snd_conv)
  qed
qed

lemma triple_scoped:
  assumes close: "k_close P net"
    and body: "triple net C m (\<lambda>x C'. counts C' h = 1 \<and> (\<forall>fd. fds C' h = Some fd \<longrightarrow> table C' fd \<noteq> None) \<and> Q x (release h C'))"
  shows "triple net C (scoped P h m) Q"
proof (rule tripleI)
  fix s :: "'a process" assume s: "process_inv s" "config_of net s = C"
  obtain x t where m: "m s = (Inr x, t)" "process_inv t" "use_count t h = 1"
    "\<forall>fd. open_fds t h = Some fd \<longrightarrow> net (world t) fd \<noteq> None" "Q x (release h (config_of net t))"
    using tripleE [OF body s] unfolding config_of_sel by blast
  from live_handle [OF m(2), of h] m(3) obtain w where w: "wrappers t h = Some w" by auto
  from scoped_result [where m = m, OF m(1,2), of h P] m(3) obtain u where
    u: "scoped P h m s = (Inr x, u)" "FileDescriptor_destructor P h t = (Inr (), u)" "process_inv u" by auto
  from u(2) destructor_effect [OF w, of P] m(3) have eff: "use_count u = (use_count t)(h := 0)"
    "wrappers u = (wrappers t)(h := None)" by simp_all
  have "net (world u) = (case open_fds t h of None \<Rightarrow> net (world t) | Some fd \<Rightarrow> (net (world t))(fd := None))"
  proof (cases "w_closed w")
    case True
    with u(2) destructor_world [OF w m(3), of P] w show ?thesis by (simp add: open_fds_def)
  next
    case False
    with w have fd: "open_fds t h = Some (w_fd w)" by (simp add: open_fds_def)
    with m(4) close obtain W where "sys_close P (w_fd w) (world t) = (returns 0, W)" "net W = (net (world t))(w_fd w := None)"
      unfolding k_close_def by blast
    with False u(2) destructor_world [OF w m(3), of P] fd show ?thesis by simp
  qed
  moreover have "open_fds u = (open_fds t)(h := None)"
    using eff(2) by (simp add: open_fds_def fun_eq_iff)
  ultimately have "config_of net u = release h (config_of net t)"
    using eff(1) by (simp add: config_of_def release_def cong: option.case_cong)
  with u m(5) show "\<exists>x t. scoped P h m s = (Inr x, t) \<and> process_inv t \<and> Q x (config_of net t)" by auto
qed

lemma triple_close:
  assumes close: "k_close P net" and C: "fds C h = Some fd" "table C fd \<noteq> None"
  shows "triple net C (FileDescriptor_close P h)
    (\<lambda>_ C'. C' = C\<lparr>fds := (fds C)(h := None), table := (table C)(fd := None)\<rparr>)"
proof (rule tripleI)
  fix s :: "'a process" assume s: "process_inv s" "config_of net s = C"
  with C obtain w where w: "wrappers s h = Some w" "w_fd w = fd" by (auto dest!: open_fdsD)
  have "net (world s) fd \<noteq> None" using C(2) s(2) by auto
  with close obtain W where W: "sys_close P fd (world s) = (returns 0, W)" "net W = (net (world s))(fd := None)"
    unfolding k_close_def by blast
  let ?t = "s\<lparr>world := W, wrappers := (wrappers s)(h \<mapsto> w\<lparr>w_eof := True, w_closed := True\<rparr>)\<rparr>"
  have run: "FileDescriptor_close P h s = (Inr (), ?t)"
    using FDWrapper_close_eq [OF w(1), of P] W(1) w(2) by (simp add: FileDescriptor_close_def)
  have "config_of net ?t = C\<lparr>fds := (fds C)(h := None), table := (table C)(fd := None)\<rparr>"
    unfolding s(2) [symmetric] by (auto simp: config_of_def open_fds_def W(2) fun_eq_iff)
  with run fd_close.oper_result(1) [OF s(1) run]
  show "\<exists>x t. FileDescriptor_close P h s = (Inr x, t) \<and> process_inv t \<and>
      config_of net t = C\<lparr>fds := (fds C)(h := None), table := (table C)(fd := None)\<rparr>" by blast
qed

subsection \<open>Addresses and datagrams\<close>

lemma Address_resolve_state:
  "snd (Address_resolve P node service hints s) =
     s\<lparr>world := snd (sys_getaddrinfo P (c_str node) (c_str service) hints (world s))\<rparr>"
  by (auto simp: Address_resolve_def bnd_def syscall_def throw_def lift_result_def Let_def split: prod.splits option.splits)

lemma loopback_quad: "''127.0.0.1'' = dotted_quad 127 0 0 1"
  by code_simp

lemma triple_address:
  assumes "k_services be P net"
  shows "triple net C (Address_of_ip P ''127.0.0.1'' port)
    (\<lambda>x C'. C' = C \<and> addr_size x = 16 \<and> take 16 (addr_storage x) = loopback_address be port)"
proof (rule tripleI)
  fix s :: "'a process" assume s: "process_inv s" "config_of net s = C"
  let ?x = "\<lparr>addr_size = 16, addr_storage = loopback_address be port @ replicate 112 0\<rparr>"
  have "fst (Address_of_ip P ''127.0.0.1'' port s) = Inr ?x"
    using assms Address_of_ip_numeric [of be P 127 0 0 1 port s]
    unfolding loopback_quad loopback_address_def k_services_def by blast
  moreover obtain W where W: "snd (Address_of_ip P ''127.0.0.1'' port s) = s\<lparr>world := W\<rparr>" "net W = net (world s)"
    using assms unfolding Address_of_ip_def Address_resolve_state k_services_def by blast
  ultimately have run: "Address_of_ip P ''127.0.0.1'' port s = (Inr ?x, s\<lparr>world := W\<rparr>)"
    by (metis prod.collapse)
  have "config_of net (s\<lparr>world := W\<rparr>) = C" unfolding s(2) [symmetric] config_of_world W(2) by simp
  with run s(1) show "\<exists>x t. Address_of_ip P ''127.0.0.1'' port s = (Inr x, t) \<and> process_inv t \<and>
      config_of net t = C \<and> addr_size x = 16 \<and> take 16 (addr_storage x) = loopback_address be port"
    by (intro exI [of _ ?x] exI [of _ "s\<lparr>world := W\<rparr>"]) (simp add: loopback_address_def)
qed

lemma triple_bnd_address:
  assumes "k_services be P net"
    and "\<And>x. addr_size x = 16 \<Longrightarrow> take 16 (addr_storage x) = loopback_address be port \<Longrightarrow> triple net C (f x) Q"
  shows "triple net C (bnd (Address_of_ip P ''127.0.0.1'' port) f) Q"
  using assms(2) by (auto intro: triple_bnd [OF triple_address [OF assms(1)]])

text \<open>The table after a datagram was sent from \<open>fd\<close> with source \<open>src\<close> to \<open>receiver\<close>.\<close>

definition delivered :: "bool \<Rightarrow> sockets_table \<Rightarrow> int \<Rightarrow> int \<Rightarrow> bytes \<Rightarrow> bytes \<Rightarrow> sockets_table \<Rightarrow> bool" where
  "delivered be K fd receiver src data K' \<longleftrightarrow>
     (\<exists>name peer q to. K fd = Some (KDgram name peer q) \<and> K receiver = Some (KDgram (Some to) None []) \<and>
        (case name of Some a \<Rightarrow> src = a | None \<Rightarrow> src \<in> ephemeral be K) \<and>
        K' = K(fd \<mapsto> KDgram (Some src) peer q, receiver \<mapsto> KDgram (Some to) None [(src, data)]))"

lemma triple_sendmsg:
  assumes k: "no_datagram_lost be P net" and fd: "fds C h = Some fd" "receiver \<noteq> fd"
    and table: "table C fd = Some (KDgram name peer q)" "table C receiver = Some (KDgram (Some to) None [])"
    and dest: "case dest of Some mem \<Rightarrow> len = 16 \<and> to = take 16 mem | None \<Rightarrow> len = 0 \<and> peer = Some to"
    and recv: "receives_at (table C) to receiver" and eph: "name = None \<longrightarrow> ephemeral be (table C) \<noteq> {}"
    and data: "length data \<le> 256"
  shows "triple net C (bnd (FileDescriptor_fd_num h) (\<lambda>fd.
      bnd (sendmsg_helper P fd dest len (BufferViewList_of_string data)) (\<lambda>_. FileDescriptor_register_write h)))
    (\<lambda>_ C'. \<exists>src K'. delivered be (table C) fd receiver src data K' \<and> C' = C\<lparr>table := K'\<rparr>)"
proof (rule triple_fd_num [OF fd(1)], rule triple_bnd)
  let ?b = "BufferViewList_of_string data"
  have bytes: "iovec_bytes (BufferViewList_as_iovecs ?b) = data" "BufferViewList_size ?b = length data"
    using vlist.size_of_contents [of ?b] by (simp_all add: iovec_bytes_as_iovecs BufferViewList_of_string_def)
  show "triple net C (sendmsg_helper P fd dest len ?b)
      (\<lambda>_ C'. \<exists>src K'. delivered be (table C) fd receiver src data K' \<and> C' = C\<lparr>table := K'\<rparr>)"
  proof (rule tripleI)
    fix s :: "'a process" assume s: "process_inv s" "config_of net s = C"
    then have eq: "table C = net (world s)" by auto
    note send = k [unfolded no_datagram_lost_def, rule_format, where W = "world s" and fd = fd and name = name and peer = peer
        and q = q and dest = dest and len = len and to = to and receiver = receiver
        and iov = "BufferViewList_as_iovecs ?b", unfolded bytes(1)]
    have "iov_valid (BufferViewList_as_iovecs ?b)" using data by (intro iov_valid_string) simp
    with send table dest fd(2) recv eph data obtain src W where
      W: "sys_sendmsg P fd dest len (BufferViewList_as_iovecs ?b) 0 (world s) = (returns (int (length data)), W)"
      "case name of Some a \<Rightarrow> src = a | None \<Rightarrow> src \<in> ephemeral be (net (world s))"
      "net W = (net (world s))(fd \<mapsto> KDgram (Some src) peer q, receiver \<mapsto> KDgram (Some to) None [(src, data)])"
      unfolding eq by blast
    have "sendmsg_helper P fd dest len ?b s = (Inr (), s\<lparr>world := W\<rparr>)"
      using sendmsg_helper_eq [OF W(1)] data bytes(2) by simp
    moreover have "delivered be (table C) fd receiver src data (net W)"
      using table W(2,3) unfolding delivered_def eq by blast
    ultimately show "\<exists>x t. sendmsg_helper P fd dest len ?b s = (Inr x, t) \<and> process_inv t \<and>
        (\<exists>src K'. delivered be (table C) fd receiver src data K' \<and> config_of net t = C\<lparr>table := K'\<rparr>)"
      using s by auto
  qed
next
  fix x C' assume "\<exists>src K'. delivered be (table C) fd receiver src data K' \<and> C' = C\<lparr>table := K'\<rparr>"
  moreover from this have "fds C' h = Some fd" using fd(1) by auto
  ultimately show "triple net C' (FileDescriptor_register_write h)
      (\<lambda>_ C'. \<exists>src K'. delivered be (table C) fd receiver src data K' \<and> C' = C\<lparr>table := K'\<rparr>)"
    by (auto intro: triple_conseq [OF triple_register(2)])
qed

lemma triple_recv:
  assumes k: "k_recvfrom P net" and fd: "fds C h = Some fd"
    and table: "table C fd = Some (KDgram name peer ((src, data) # q))" and len: "length src = 16" "length data \<le> mtu" "mtu < 2 ^ 31"
    and null: "memcpy_null P"
  shows "triple net C (UDPSocket_recv P h mtu)
    (\<lambda>d C'. payload d = data \<and> addr_size (source_address d) = 16 \<and> take 16 (addr_storage (source_address d)) = src \<and>
       C' = C\<lparr>table := (table C)(fd \<mapsto> KDgram name peer q)\<rparr>)"
proof (rule tripleI)
  fix s :: "'a process" assume s: "process_inv s" "config_of net s = C"
  with fd obtain w where w: "wrappers s h = Some w" "w_fd w = fd" by (auto dest!: open_fdsD)
  from s table have tab: "net (world s) fd = Some (KDgram name peer ((src, data) # q))" by auto
  let ?buf = "take mtu (data @ drop (length data) (replicate mtu 0))"
  let ?addr = "src @ drop 16 (replicate 128 0)"
  let ?d = "\<lparr>source_address = \<lparr>addr_size = 0, addr_storage = replicate 128 0\<rparr>, payload = []\<rparr>"
  note recv = k [unfolded k_recvfrom_def, rule_format, where W = "world s" and fd = fd and name = name and peer = peer
      and src = src and data = data and q = q and mem = "replicate 128 0" and buf = "replicate mtu 0",
      unfolded length_replicate len(1)]
  from recv tab obtain W where
    W: "sys_recvfrom P fd (replicate mtu 0) 0x20 (replicate 128 0) 128 (world s) =
      ((returns (int (length data)), ?buf, ?addr, 16), W)"
    "net W = (net (world s))(fd \<mapsto> KDgram name peer q)"
    by auto
  let ?t = "s\<lparr>world := W, wrappers := (wrappers s)(h := Some (w\<lparr>w_read_count := w_read_count w + 1\<rparr>))\<rparr>"
  let ?r = "\<lparr>source_address = \<lparr>addr_size = 16, addr_storage = take 16 ?addr @ replicate (128 - 16) 0\<rparr>,
      payload = take (nat (int (length data))) ?buf\<rparr>"
  have run: "UDPSocket_recv_into P h ?d mtu s = (Inr ?r, ?t)"
    by (subst recv_into_eq [OF w(1), where r = "returns (int (length data))" and buf = ?buf and addr = ?addr and fromlen = 16 and W = W])
      (use W(1) w(2) len in \<open>simp_all add: max_size_def min_def\<close>)
  have "UDPSocket_recv P h mtu s = (Inr ?r, ?t)" using run null by (simp add: recv_null_pointer)
  moreover have "process_inv ?t" using s(1) w(1) by (rule process_inv_counter) simp_all
  moreover have "config_of net ?t = C\<lparr>table := (table C)(fd \<mapsto> KDgram name peer q)\<rparr>"
    by (subst config_of_counter(1) [OF w(1)]) (simp_all add: s(2) [symmetric] W(2))
  ultimately show "\<exists>d t. UDPSocket_recv P h mtu s = (Inr d, t) \<and> process_inv t \<and> payload d = data \<and>
      addr_size (source_address d) = 16 \<and> take 16 (addr_storage (source_address d)) = src \<and>
      config_of net t = C\<lparr>table := (table C)(fd \<mapsto> KDgram name peer q)\<rparr>"
    using len by (intro exI [of _ ?r] exI [of _ ?t]) simp
qed

subsection \<open>Streams\<close>

lemma triple_bind:
  assumes "k_bind be P net" and "fds C h = Some fd" and "addr_size x = 16"
    and "take 16 (addr_storage x) = a \<and> a = loopback_address be port \<and> 1024 \<le> unat port"
    and "table C fd = Some (KDgram None peer q) \<and> a \<notin> dgram_names (table C) \<and> k = KDgram (Some a) peer q \<or>
         table C fd = Some KStream \<and> a \<notin> stream_names (table C) \<and> k = KNamed a"
  shows "triple net C (Socket_bind P h x) (\<lambda>_ C'. C' = C\<lparr>table := (table C)(fd \<mapsto> k)\<rparr>)"
  unfolding Socket_bind_def assms(3)
proof (rule triple_call [OF assms(2)])
  fix W assume "net W = table C"
  with assms(1,4,5) show "\<exists>W'. sys_bind P fd (addr_storage x) 16 W = (returns 0, W') \<and> net W' = (table C)(fd \<mapsto> k)"
    unfolding k_bind_def by metis
qed (simp add: triple_ret)

lemma triple_connect:
  assumes "k_connect P net" and "fds C h = Some fd" and "addr_size x = 16" and "take 16 (addr_storage x) = a"
    and "table C fd = Some (KDgram (Some name) peer []) \<and> K = (table C)(fd \<mapsto> KDgram (Some name) (Some a) []) \<or>
         table C fd = Some KStream \<and> listens_at (table C) a l \<and> table C l = Some (KListening a []) \<and> K = (table C)(fd \<mapsto> KWaiting, l \<mapsto> KListening a [fd])"
  shows "triple net C (Socket_connect P h x) (\<lambda>_ C'. C' = C\<lparr>table := K\<rparr>)"
  unfolding Socket_connect_def assms(3)
proof (rule triple_call [OF assms(2)])
  fix W assume "net W = table C"
  with assms(1,4,5) show "\<exists>W'. sys_connect P fd (addr_storage x) 16 W = (returns 0, W') \<and> net W' = K"
    unfolding k_connect_def by metis
qed (simp add: triple_ret)

lemma triple_listen:
  assumes "k_listen P net" and "fds C h = Some fd" and "table C fd = Some (KNamed a)" and "0 < backlog"
  shows "triple net C (TCPSocket_listen P h backlog) (\<lambda>_ C'. C' = C\<lparr>table := (table C)(fd \<mapsto> KListening a [])\<rparr>)"
  unfolding TCPSocket_listen_def
proof (rule triple_call [OF assms(2)])
  fix W assume "net W = table C"
  with assms(1,3,4) show "\<exists>W'. sys_listen P fd backlog W = (returns 0, W') \<and> net W' = (table C)(fd \<mapsto> KListening a [])"
    unfolding k_listen_def by metis
qed (simp add: triple_ret)

lemma triple_shutdown:
  assumes "k_shutdown P net" and "fds C h = Some fd" and "table C fd = Some (KConn domain peer X)"
  shows "triple net C (Socket_shutdown P h SHUT_RDWR) (\<lambda>_ C'. C' = C)"
  unfolding Socket_shutdown_def
proof (rule triple_call [where K = "table C", OF assms(2)])
  fix W assume "net W = table C"
  with assms(1,3) show "\<exists>W'. sys_shutdown P fd SHUT_RDWR W = (returns 0, W') \<and> net W' = table C"
    unfolding k_shutdown_def SHUT_RDWR_def by metis
next
  have "triple net C (bnd (FileDescriptor_register_read h) (\<lambda>_. FileDescriptor_register_write h)) (\<lambda>_ C'. C' = C)"
    using assms(2) by (auto intro!: triple_bnd [OF triple_register(1)] triple_register(2))
  then show "triple net (C\<lparr>table := table C\<rparr>)
      (if SHUT_RDWR = SHUT_RD then FileDescriptor_register_read h
       else if SHUT_RDWR = SHUT_WR then FileDescriptor_register_write h
       else if SHUT_RDWR = SHUT_RDWR then bnd (FileDescriptor_register_read h) (\<lambda>_. FileDescriptor_register_write h)
       else throw (RuntimeError ''Socket::shutdown() called with invalid `how`'')) (\<lambda>_ C'. C' = C)"
    by (simp add: SHUT_RDWR_def SHUT_RD_def SHUT_WR_def)
qed

lemma triple_verify_option:
  assumes k: "k_getsockopt P net" and "fds C h = Some fd" and table: "table C fd = Some (KConn domain peer X)"
    and opt: "opt = SO_DOMAIN \<and> expected = domain \<or> opt = SO_TYPE \<and> expected = 1"
  shows "triple net C (verify_option P h opt expected m) (\<lambda>_ C'. C' = C)"
  unfolding verify_option_def
proof (rule triple_fd_num [OF assms(2)], rule triple_syscall [where R = "\<lambda>x K. x = (returns 0, expected, 4) \<and> K = table C"])
  fix W assume "net W = table C"
  with k table opt show "\<exists>x W'. sys_getsockopt P fd SOL_SOCKET opt W = (x, W') \<and> x = (returns 0, expected, 4) \<and> net W' = table C"
    unfolding k_getsockopt_def SOL_SOCKET_def SO_DOMAIN_def SO_TYPE_def by metis
qed (simp add: SystemCall_def sizeof_int_def triple_ret)

lemma triple_with_base:
  assumes "triple net C body (\<lambda>_ C'. C' = C)"
  shows "triple net C (with_base P h body) (\<lambda>h' C'. h' = h \<and> C' = C)"
proof (rule tripleI)
  fix s :: "'a process" assume s: "process_inv s" "config_of net s = C"
  obtain x t where "body s = (Inr x, t)" "process_inv t" "config_of net t = C" using assms s by (rule tripleE)
  then show "\<exists>x t. with_base P h body s = (Inr x, t) \<and> process_inv t \<and> x = h \<and> config_of net t = C"
    using with_base_ok [of body s t P h] by auto
qed

text \<open>A descriptor of a connected stream becomes a socket object.\<close>

lemma triple_socket_of_fd:
  assumes k: "k_getsockopt P net" and table: "table C fd = Some (KConn domain peer X)" and "0 \<le> fd"
  shows "triple net C (bnd (FileDescriptor_new fd) (\<lambda>h. Socket_of_fd P h domain 1))
    (\<lambda>h C'. counts C h = 0 \<and> fds C h = None \<and> C' = C\<lparr>counts := (counts C)(h := 1), fds := (fds C)(h \<mapsto> fd)\<rparr>)"
proof (rule triple_bnd [OF triple_new [OF \<open>0 \<le> fd\<close>]])
  fix h C' assume C': "counts C h = 0 \<and> fds C h = None \<and> C' = C\<lparr>counts := (counts C)(h := 1), fds := (fds C)(h \<mapsto> fd)\<rparr>"
  let ?body = "bnd (verify_option P h SO_DOMAIN domain ''socket domain mismatch'') (\<lambda>_. verify_option P h SO_TYPE 1 ''socket type mismatch'')"
  have "triple net C' ?body (\<lambda>_ C''. C'' = C')"
    using C' table by (auto intro!: triple_bnd [OF triple_verify_option [OF k]] triple_verify_option [OF k])
  then have "triple net C' (Socket_of_fd P h domain 1) (\<lambda>h' C''. h' = h \<and> C'' = C')"
    unfolding Socket_of_fd_def by (rule triple_with_base)
  with C' show "triple net C' (Socket_of_fd P h domain 1) (\<lambda>h C'. counts C h = 0 \<and> fds C h = None \<and>
      C' = C\<lparr>counts := (counts C)(h := 1), fds := (fds C)(h \<mapsto> fd)\<rparr>)"
    by (auto intro: triple_conseq)
qed

lemma triple_accept:
  assumes k: "k_accept P net" "k_getsockopt P net" and fd: "fds C h = Some l"
    and table: "table C l = Some (KListening a (c # q))" "table C c = Some KWaiting"
  shows "triple net C (TCPSocket_accept P h) (\<lambda>new C'. counts C new = 0 \<and> fds C new = None \<and>
    (\<exists>fd. table C fd = None \<and> C' = C\<lparr>counts := (counts C)(new := 1), fds := (fds C)(new \<mapsto> fd),
       table := (table C)(l \<mapsto> KListening a q, c \<mapsto> KConn 2 fd [], fd \<mapsto> KConn 2 c [])\<rparr>))"
    (is "triple net C _ ?Q")
  unfolding TCPSocket_accept_def
proof (rule triple_bnd [OF triple_register(1) [OF fd]], erule ssubst, rule triple_fd_num [OF fd],
    rule triple_syscall [where R = "\<lambda>r K. \<exists>fd. r = returns fd \<and> 0 \<le> fd \<and> table C fd = None \<and>
      K = (table C)(l \<mapsto> KListening a q, c \<mapsto> KConn 2 fd [], fd \<mapsto> KConn 2 c [])"])
  fix W assume "net W = table C"
  with k(1) table show "\<exists>x W'. sys_accept P l W = (x, W') \<and> (\<exists>fd. x = returns fd \<and> 0 \<le> fd \<and> table C fd = None \<and>
      net W' = (table C)(l \<mapsto> KListening a q, c \<mapsto> KConn 2 fd [], fd \<mapsto> KConn 2 c []))"
    unfolding k_accept_def by metis
next
  fix r K assume "\<exists>fd. r = returns fd \<and> 0 \<le> fd \<and> table C fd = None \<and>
      K = (table C)(l \<mapsto> KListening a q, c \<mapsto> KConn 2 fd [], fd \<mapsto> KConn 2 c [])"
  then obtain fd where r: "r = returns fd" "0 \<le> fd" "table C fd = None"
    and K: "K = (table C)(l \<mapsto> KListening a q, c \<mapsto> KConn 2 fd [], fd \<mapsto> KConn 2 c [])" by blast
  have "triple net (C\<lparr>table := K\<rparr>) (bnd (FileDescriptor_new fd) (\<lambda>h. Socket_of_fd P h 2 1)) ?Q"
    using r(3) K by (intro triple_conseq [OF triple_socket_of_fd [OF k(2) _ r(2)]]) auto
  with r show "triple net (C\<lparr>table := K\<rparr>) (bnd (lift_result (SystemCall ''accept'' (sr_val r) (sr_errno r) 0))
      (\<lambda>new_fd. bnd (FileDescriptor_new new_fd) (TCPSocket_of_fd P))) ?Q"
    by (simp add: SystemCall_def TCPSocket_of_fd_def [abs_def] AF_INET_def SOCK_STREAM_def)
qed

subsection \<open>Reading and writing streams\<close>

text \<open>All that a write leaves alone: the wrappers but for their write counts.\<close>

definition fd_view :: "'w process \<Rightarrow> handle \<Rightarrow> FDWrapper option" where
  "fd_view p h = map_option (\<lambda>w. w\<lparr>w_write_count := 0\<rparr>) (wrappers p h)"

lemma fd_view_Some: "fd_view p h = Some v \<Longrightarrow> \<exists>w. wrappers p h = Some w \<and> v = w\<lparr>w_write_count := 0\<rparr>"
  by (auto simp: fd_view_def)

lemma open_fds_view:
  "open_fds p h = (case fd_view p h of None \<Rightarrow> None | Some w \<Rightarrow> if w_closed w then None else Some (w_fd w))"
  by (auto simp: open_fds_def fd_view_def split: option.split)

lemma keeps_view_syscall: "keeps (\<lambda>p. fd_view p = F) (syscall f)"
  by (rule keepsI) (auto simp: syscall_def fd_view_def split_beta Let_def)

lemma keeps_view_register_write: "keeps (\<lambda>p. fd_view p = F) (FileDescriptor_register_write h)"
proof (rule keepsI)
  fix s :: "'a process" assume F: "fd_view s = F"
  show "fd_view (snd (FileDescriptor_register_write h s)) = F"
  proof (cases "wrappers s h")
    case None
    with F show ?thesis by (simp add: FileDescriptor_register_write_def modify_wrapper_def bnd_def get_wrapper_def)
  next
    case (Some w)
    then have "fd_view (s\<lparr>wrappers := (wrappers s)(h \<mapsto> w\<lparr>w_write_count := w_write_count w + 1\<rparr>)\<rparr>) = fd_view s"
      by (simp add: fd_view_def fun_eq_iff)
    with F Some show ?thesis by (simp add: register_write_eq)
  qed
qed

lemma keeps_view_write_once: "keeps (\<lambda>p. fd_view p = F) (write_once P h buffer)"
  unfolding write_once_def FileDescriptor_fd_num_def Let_def
  by (intro keeps_intros keeps_get_wrapper keeps_view_syscall keeps_view_register_write)

text \<open>The bytes that wait at a descriptor, and a connection none of whose sockets changes but by data arriving at \<open>b\<close>.\<close>

definition inbox :: "sockets_table \<Rightarrow> int \<Rightarrow> bytes" where
  "inbox K b = (case K b of Some (KConn _ _ Y) \<Rightarrow> Y | _ \<Rightarrow> [])"

definition stream_up :: "('w \<Rightarrow> sockets_table) \<Rightarrow> sockets_table \<Rightarrow> int \<Rightarrow> int \<Rightarrow> int \<Rightarrow> 'w \<Rightarrow> bool" where
  "stream_up net K domain a b W \<longleftrightarrow> (\<exists>Y. net W = K(b \<mapsto> KConn domain a Y))"

lemma stream_up_writev:
  assumes k: "k_writev P net" and a: "K a = Some (KConn domain b X)" "a \<noteq> b"
  shows "writev_sends P a (stream_up net K domain a b) (\<lambda>W. inbox (net W) b)"
    and "writev_accepts P a (stream_up net K domain a b)"
proof -
  have call: "(\<exists>n. r = returns (int n) \<and> n \<le> length (iovec_bytes iov) \<and> n \<le> 0x7ffff000 \<and>
      (iovec_bytes iov \<noteq> [] \<longrightarrow> 0 < n) \<and> inbox (net W') b = inbox (net W) b @ take n (iovec_bytes iov) \<and>
      stream_up net K domain a b W') \<or>
      \<not> iov_valid iov \<and> sr_val r = - 1 \<and> sr_errno r \<noteq> 0 \<and> inbox (net W') b = inbox (net W) b"
    if up: "stream_up net K domain a b W" and sys: "sys_writev P a iov W = (r, W')" for iov W r W'
  proof -
    from up obtain Y where Y: "net W = K(b \<mapsto> KConn domain a Y)" unfolding stream_up_def by blast
    with a have "net W a = Some (KConn domain b X)" "net W b = Some (KConn domain a Y)" by simp_all
    from k [unfolded k_writev_def, rule_format, where W = W and a = a and b = b and domain = domain and X = X and Y = Y
        and iov = iov, OF conjI [OF this(1) conjI [OF this(2) a(2)]]]
    consider n where "r = returns (int n)" "n \<le> length (iovec_bytes iov)" "n \<le> 0x7ffff000"
        "iovec_bytes iov \<noteq> [] \<longrightarrow> 0 < n" "net W' = (net W)(b \<mapsto> KConn domain a (Y @ take n (iovec_bytes iov)))"
      | "\<not> iov_valid iov" "sr_val r = - 1" "sr_errno r \<noteq> 0" "net W' = net W"
      using sys by auto
    then show ?thesis
    proof cases
      case n: (1 n)
      from n(5) Y have "net W' = K(b \<mapsto> KConn domain a (Y @ take n (iovec_bytes iov)))" by simp
      with n(1-4) Y show ?thesis unfolding stream_up_def inbox_def by auto
    qed simp
  qed
  show "writev_sends P a (stream_up net K domain a b) (\<lambda>W. inbox (net W) b)"
    unfolding writev_sends_def using call by fastforce
  show "writev_accepts P a (stream_up net K domain a b)"
    unfolding writev_accepts_def using call by fastforce
qed

text \<open>The whole effect of a write to a connected stream, and of a read from one on which data waits.\<close>

lemma write_stream:
  assumes k: "k_writev P net" and inv: "process_inv s" and fd: "open_fds s h = Some a"
    and table: "net (world s) a = Some (KConn domain b X)" "net (world s) b = Some (KConn domain a Y)" "a \<noteq> b"
    and len: "length str < 2 ^ 63"
  shows "\<exists>t. FileDescriptor_write_string P h str True s = (Inr (length str), t) \<and> process_inv t \<and>
    use_count t = use_count s \<and> fd_view t = fd_view s \<and> net (world t) = (net (world s))(b \<mapsto> KConn domain a (Y @ str))"
proof -
  from fd obtain w where w: "wrappers s h = Some w" "w_fd w = a" by (auto dest!: open_fdsD)
  let ?b = "BufferViewList_of_string str" and ?up = "stream_up net (net (world s)) domain a b"
  have data: "concat (views ?b) = str" by (simp add: BufferViewList_of_string_def)
  then have size: "BufferViewList_size ?b = length str" using vlist.size_of_contents [of ?b] by simp
  have up: "?up (world s)" using table(2) by (auto simp: stream_up_def fun_upd_idem intro!: exI [of _ Y])
  note wv = stream_up_writev [where K = "net (world s)" and a = a, OF k table(1,3), folded w(2)]
  obtain n t where loop: "write_loop P h True ?b 0 s = (Inr n, t)"
    using write_loop_accepted [OF w(1) wv up [folded w(2)] iov_valid_string [OF len], of True 0] by (metis is_ok_iff prod.collapse)
  from write_loop_sends [OF w(1) wv(1) up [folded w(2)] loop] data size w(2) have
    n: "n = length str" "inbox (net (world t)) b = inbox (net (world s)) b @ str" "?up (world t)" by auto
  from n(3) obtain Z where Z: "net (world t) = (net (world s))(b \<mapsto> KConn domain a Z)" by (auto simp: stream_up_def)
  with n(2) table(2) have "Z = Y @ str" by (simp add: inbox_def)
  have run: "FileDescriptor_write P h ?b True s = (Inr n, t)" using loop by (simp add: FileDescriptor_write_def)
  have "fd_view t = fd_view s"
    using keeps_write_loop [of "\<lambda>p. fd_view p = fd_view s" P h s True ?b 0, OF keeps_view_write_once refl] loop by simp
  with Z \<open>Z = Y @ str\<close> run n(1) fd_write.oper_live [OF inv run] fd_write.oper_result(1) [OF inv run] show ?thesis
    by (auto simp: FileDescriptor_write_string_def)
qed

lemma triple_write:
  assumes k: "k_writev P net" and fd: "fds C h = Some a"
    and table: "table C a = Some (KConn domain b X)" "table C b = Some (KConn domain a Y)" "a \<noteq> b" and len: "length str < 2 ^ 63"
  shows "triple net C (FileDescriptor_write_string P h str True)
    (\<lambda>n C'. n = length str \<and> C' = C\<lparr>table := (table C)(b \<mapsto> KConn domain a (Y @ str))\<rparr>)"
proof (rule tripleI)
  fix s :: "'a process" assume s: "process_inv s" "config_of net s = C"
  then have "open_fds s h = Some a" "net (world s) a = Some (KConn domain b X)" "net (world s) b = Some (KConn domain a Y)"
    using fd table by auto
  from write_stream [OF k s(1) this table(3) len] obtain t where
    t: "FileDescriptor_write_string P h str True s = (Inr (length str), t)" "process_inv t" "use_count t = use_count s"
    "fd_view t = fd_view s" "net (world t) = (net (world s))(b \<mapsto> KConn domain a (Y @ str))" by blast
  have "config_of net t = C\<lparr>table := (table C)(b \<mapsto> KConn domain a (Y @ str))\<rparr>"
    unfolding s(2) [symmetric] using t(3-) by (auto simp: config_of_def open_fds_view fun_eq_iff)
  with t(1,2) show "\<exists>n t. FileDescriptor_write_string P h str True s = (Inr n, t) \<and> process_inv t \<and> n = length str \<and>
      config_of net t = C\<lparr>table := (table C)(b \<mapsto> KConn domain a (Y @ str))\<rparr>" by blast
qed

lemma read_stream:
  assumes k: "k_read P net" and inv: "process_inv s" and w: "wrappers s h = Some w" and limit: "BUFFER_SIZE \<le> limit"
    and table: "net (world s) (w_fd w) = Some (KConn domain b X)" "X \<noteq> []"
  shows "\<exists>W. FileDescriptor_read P h limit s =
      (Inr (take BUFFER_SIZE X), s\<lparr>world := W, wrappers := (wrappers s)(h \<mapsto> w\<lparr>w_read_count := w_read_count w + 1\<rparr>)\<rparr>) \<and>
    net W = (net (world s))(w_fd w \<mapsto> KConn domain b (drop BUFFER_SIZE X)) \<and>
    process_inv (s\<lparr>world := W, wrappers := (wrappers s)(h \<mapsto> w\<lparr>w_read_count := w_read_count w + 1\<rparr>)\<rparr>)"
proof -
  have min: "min BUFFER_SIZE limit = BUFFER_SIZE" using limit by simp
  let ?buf = "replicate BUFFER_SIZE (0 :: byte)" and ?n = "min (length X) BUFFER_SIZE"
  note read = k [unfolded k_read_def, rule_format, where W = "world s" and a = "w_fd w" and b = b and domain = domain and X = X
      and buf = ?buf, unfolded length_replicate]
  from read table obtain W where W: "sys_read P (w_fd w) ?buf (world s) =
      ((returns (int ?n), take BUFFER_SIZE X @ drop (length X) ?buf), W)"
    "net W = (net (world s))(w_fd w \<mapsto> KConn domain b (drop BUFFER_SIZE X))" by blast
  have "?n \<noteq> 0" using table(2) by (simp add: BUFFER_SIZE_def)
  then have eof: "w\<lparr>w_eof := w_eof w \<or> 0 < limit \<and> ?n = 0, w_read_count := c\<rparr> = w\<lparr>w_read_count := c\<rparr>" for c
    by (cases w) (auto simp: min_def)
  have data: "take ?n (take BUFFER_SIZE X @ drop (length X) ?buf) = take BUFFER_SIZE X" by (simp add: min_def)
  have "FileDescriptor_read P h limit s =
      (Inr (take BUFFER_SIZE X), s\<lparr>world := W, wrappers := (wrappers s)(h \<mapsto> w\<lparr>w_read_count := w_read_count w + 1\<rparr>)\<rparr>)"
    unfolding FileDescriptor_read_def
    by (subst read_into_eq [OF w, where r = "returns (int ?n)" and buf = "take BUFFER_SIZE X @ drop (length X) ?buf" and W = W])
      (use W(1) data in \<open>simp_all add: min read_answer_def eof\<close>)
  with W(2) process_inv_counter [OF inv w, of "w\<lparr>w_read_count := w_read_count w + 1\<rparr>" W] show ?thesis by auto
qed

lemma triple_read:
  assumes k: "k_read P net" and fd: "fds C h = Some a"
    and table: "table C a = Some (KConn domain b X)" "X \<noteq> []" and len: "length X \<le> BUFFER_SIZE" "BUFFER_SIZE \<le> limit"
  shows "triple net C (FileDescriptor_read P h limit)
    (\<lambda>str C'. str = X \<and> C' = C\<lparr>table := (table C)(a \<mapsto> KConn domain b [])\<rparr>)"
proof (rule tripleI)
  fix s :: "'a process" assume s: "process_inv s" "config_of net s = C"
  with fd obtain w where w: "wrappers s h = Some w" "w_fd w = a" by (auto dest!: open_fdsD)
  from s table(1) w(2) have "net (world s) (w_fd w) = Some (KConn domain b X)" by auto
  from read_stream [OF k s(1) w(1) len(2) this table(2)] len(1) w(2)
  obtain W where W: "FileDescriptor_read P h limit s =
      (Inr X, s\<lparr>world := W, wrappers := (wrappers s)(h \<mapsto> w\<lparr>w_read_count := w_read_count w + 1\<rparr>)\<rparr>)"
    "net W = (net (world s))(a \<mapsto> KConn domain b [])"
    "process_inv (s\<lparr>world := W, wrappers := (wrappers s)(h \<mapsto> w\<lparr>w_read_count := w_read_count w + 1\<rparr>)\<rparr>)" by auto
  have "config_of net (s\<lparr>world := W, wrappers := (wrappers s)(h \<mapsto> w\<lparr>w_read_count := w_read_count w + 1\<rparr>)\<rparr>) =
      C\<lparr>table := (table C)(a \<mapsto> KConn domain b [])\<rparr>"
    by (subst config_of_counter(1) [OF w(1)]) (simp_all add: s(2) [symmetric] W(2))
  with W(1,3) show "\<exists>str t. FileDescriptor_read P h limit s = (Inr str, t) \<and> process_inv t \<and> str = X \<and>
      config_of net t = C\<lparr>table := (table C)(a \<mapsto> KConn domain b [])\<rparr>" by blast
qed

end
