(* ===== verification/Loopback_Host.thy ===== *)
theory Loopback_Host
  imports Loopback
begin

text \<open>
  A host that keeps the promises of \<open>Loopback\<close>, as an executable kernel: its world is the list of its
  sockets, a descriptor is a position in it, a stream takes three bytes per \<^verbatim>\<open>writev\<close>. The
  properties of the example programs are exercised on it.
\<close>

type_synonym lo_world = "ksock option list"

definition lo_net :: "lo_world \<Rightarrow> sockets_table" where
  "lo_net W fd = (if 0 \<le> fd \<and> nat fd < length W then W ! nat fd else None)"

definition lo_set :: "int \<Rightarrow> ksock \<Rightarrow> lo_world \<Rightarrow> lo_world" where
  "lo_set fd k W = W[nat fd := Some k]"

definition lo_fail :: "int \<Rightarrow> 'w \<Rightarrow> sysret \<times> 'w" where
  "lo_fail err W = (\<lparr>sr_val = - 1, sr_errno = err\<rparr>, W)"

fun is_dgram_at :: "bytes \<Rightarrow> ksock option \<Rightarrow> bool" where
  "is_dgram_at a (Some (KDgram (Some b) peer q)) \<longleftrightarrow> a = b"
| "is_dgram_at a _ \<longleftrightarrow> False"

fun is_listening_at :: "bytes \<Rightarrow> ksock option \<Rightarrow> bool" where
  "is_listening_at a (Some (KListening b q)) \<longleftrightarrow> a = b"
| "is_listening_at a _ \<longleftrightarrow> False"

fun is_stream_at :: "bytes \<Rightarrow> ksock option \<Rightarrow> bool" where
  "is_stream_at a (Some (KNamed b)) \<longleftrightarrow> a = b"
| "is_stream_at a (Some (KListening b q)) \<longleftrightarrow> a = b"
| "is_stream_at a _ \<longleftrightarrow> False"

definition lo_find :: "(ksock option \<Rightarrow> bool) \<Rightarrow> lo_world \<Rightarrow> int option" where
  "lo_find p W = map_option int (List.find (\<lambda>i. p (W ! i)) [0..<length W])"

definition ephemeral_ports :: "nat list" where
  "ephemeral_ports = [32768..<61000]"

definition lo_ephemeral :: "bool \<Rightarrow> lo_world \<Rightarrow> bytes option" where
  "lo_ephemeral be W =
     map_option (\<lambda>p. loopback_address be (of_nat p))
       (List.find (\<lambda>p. lo_find (is_dgram_at (loopback_address be (of_nat p))) W = None) ephemeral_ports)"

subsection \<open>The calls\<close>

definition lo_socket :: "int \<Rightarrow> int \<Rightarrow> int \<Rightarrow> lo_world \<Rightarrow> sysret \<times> lo_world" where
  "lo_socket domain type protocol W =
     (returns (int (length W)), W @ [Some (if type = 2 then KDgram None None [] else KStream)])"

definition lo_bind :: "int \<Rightarrow> bytes \<Rightarrow> nat \<Rightarrow> lo_world \<Rightarrow> sysret \<times> lo_world" where
  "lo_bind fd mem len W =
     (let a = take len mem in
      case lo_net W fd of
        Some (KDgram None peer q) \<Rightarrow>
          if lo_find (is_dgram_at a) W = None then (returns 0, lo_set fd (KDgram (Some a) peer q) W) else lo_fail 98 W
      | Some KStream \<Rightarrow>
          if lo_find (is_stream_at a) W = None then (returns 0, lo_set fd (KNamed a) W) else lo_fail 98 W
      | _ \<Rightarrow> lo_fail 22 W)"

definition lo_sendmsg :: "bool \<Rightarrow> int \<Rightarrow> bytes option \<Rightarrow> nat \<Rightarrow> iovec list \<Rightarrow> int \<Rightarrow> lo_world \<Rightarrow> sysret \<times> lo_world" where
  "lo_sendmsg be fd dest len iov flags W =
     (case lo_net W fd of
        Some (KDgram name peer q) \<Rightarrow>
          (case (case dest of Some mem \<Rightarrow> Some (take len mem) | None \<Rightarrow> peer) of
             None \<Rightarrow> lo_fail 89 W
           | Some to \<Rightarrow>
             (case (lo_find (is_dgram_at to) W, case name of Some a \<Rightarrow> Some a | None \<Rightarrow> lo_ephemeral be W) of
                (Some receiver, Some src) \<Rightarrow>
                  (case lo_net W receiver of
                     Some (KDgram name' peer' q') \<Rightarrow>
                       (returns (int (length (iovec_bytes iov))),
                        lo_set receiver (KDgram name' peer' (q' @ [(src, iovec_bytes iov)]))
                          (lo_set fd (KDgram (Some src) peer q) W))
                   | _ \<Rightarrow> lo_fail 111 W)
              | _ \<Rightarrow> lo_fail 111 W))
      | _ \<Rightarrow> lo_fail 88 W)"

definition lo_recvfrom ::
  "int \<Rightarrow> bytes \<Rightarrow> int \<Rightarrow> bytes \<Rightarrow> nat \<Rightarrow> lo_world \<Rightarrow> (sysret \<times> bytes \<times> bytes \<times> nat) \<times> lo_world" where
  "lo_recvfrom fd buf flags mem len W =
     (case lo_net W fd of
        Some (KDgram name peer ((src, data) # q)) \<Rightarrow>
          ((returns (int (length data)), take (length buf) (data @ drop (length data) buf),
            take (length mem) (src @ drop (length src) mem), length src), lo_set fd (KDgram name peer q) W)
      | _ \<Rightarrow> ((\<lparr>sr_val = - 1, sr_errno = 11\<rparr>, buf, mem, len), W))"

definition lo_connect :: "int \<Rightarrow> bytes \<Rightarrow> nat \<Rightarrow> lo_world \<Rightarrow> sysret \<times> lo_world" where
  "lo_connect fd mem len W =
     (let a = take len mem in
      case lo_net W fd of
        Some (KDgram name peer q) \<Rightarrow> (returns 0, lo_set fd (KDgram name (Some a) q) W)
      | Some KStream \<Rightarrow>
          (case lo_find (is_listening_at a) W of
             Some l \<Rightarrow> (returns 0, lo_set l (KListening a [fd]) (lo_set fd KWaiting W))
           | None \<Rightarrow> lo_fail 111 W)
      | _ \<Rightarrow> lo_fail 22 W)"

definition lo_listen :: "int \<Rightarrow> int \<Rightarrow> lo_world \<Rightarrow> sysret \<times> lo_world" where
  "lo_listen fd backlog W =
     (case lo_net W fd of Some (KNamed a) \<Rightarrow> (returns 0, lo_set fd (KListening a []) W) | _ \<Rightarrow> lo_fail 22 W)"

definition lo_accept :: "int \<Rightarrow> lo_world \<Rightarrow> sysret \<times> lo_world" where
  "lo_accept l W =
     (case lo_net W l of
        Some (KListening a (c # q)) \<Rightarrow>
          (returns (int (length W)),
           lo_set c (KConn 2 (int (length W)) []) (lo_set l (KListening a q) W) @ [Some (KConn 2 c [])])
      | _ \<Rightarrow> lo_fail 11 W)"

definition lo_socketpair :: "int \<Rightarrow> int \<Rightarrow> int \<Rightarrow> lo_world \<Rightarrow> (sysret \<times> int \<times> int) \<times> lo_world" where
  "lo_socketpair domain type protocol W =
     (let a = int (length W); b = a + 1 in ((returns 0, a, b), W @ [Some (KConn 1 b []), Some (KConn 1 a [])]))"

definition lo_getsockopt :: "int \<Rightarrow> int \<Rightarrow> int \<Rightarrow> lo_world \<Rightarrow> (sysret \<times> int \<times> nat) \<times> lo_world" where
  "lo_getsockopt fd level opt W =
     (case lo_net W fd of
        Some (KConn domain peer X) \<Rightarrow> ((returns 0, if opt = 39 then domain else 1, 4), W)
      | Some (KDgram name peer q) \<Rightarrow> ((returns 0, 2, 4), W)
      | Some _ \<Rightarrow> ((returns 0, if opt = 39 then 2 else 1, 4), W)
      | None \<Rightarrow> ((\<lparr>sr_val = - 1, sr_errno = 9\<rparr>, 0, 4), W))"

definition lo_writev :: "int \<Rightarrow> iovec list \<Rightarrow> lo_world \<Rightarrow> sysret \<times> lo_world" where
  "lo_writev a iov W =
     (case lo_net W a of
        Some (KConn domain b X) \<Rightarrow>
          (case lo_net W b of
             Some (KConn domain' a' Y) \<Rightarrow>
               let k = min 3 (length (iovec_bytes iov)) in
               (returns (int k), lo_set b (KConn domain' a' (Y @ take k (iovec_bytes iov))) W)
           | _ \<Rightarrow> lo_fail 32 W)
      | _ \<Rightarrow> lo_fail 9 W)"

definition lo_read :: "int \<Rightarrow> bytes \<Rightarrow> lo_world \<Rightarrow> (sysret \<times> bytes) \<times> lo_world" where
  "lo_read a buf W =
     (case lo_net W a of
        Some (KConn domain b X) \<Rightarrow>
          ((returns (int (min (length X) (length buf))), take (length buf) X @ drop (length X) buf),
           lo_set a (KConn domain b (drop (length buf) X)) W)
      | _ \<Rightarrow> ((\<lparr>sr_val = - 1, sr_errno = 9\<rparr>, buf), W))"

definition lo_close :: "int \<Rightarrow> lo_world \<Rightarrow> sysret \<times> lo_world" where
  "lo_close fd W = (if lo_net W fd = None then lo_fail 9 W else (returns 0, W[nat fd := None]))"

definition lo_kernel :: "bool \<Rightarrow> lo_world host_kernel" where
  "lo_kernel be = sockets.extend (netdb.extend
       ((demo_netdb be)\<lparr>sys_close := lo_close, sys_read := lo_read, sys_writev := lo_writev\<rparr>)
       (sockets.fields lo_socket lo_getsockopt (\<lambda>fd level opt v W. (returns 0, W))
          (\<lambda>fd mem len W. ((returns 0, mem, 16), W)) (\<lambda>fd mem len W. ((returns 0, mem, 16), W))
          lo_bind lo_connect (\<lambda>fd how W. (returns 0, W)) lo_recvfrom (lo_sendmsg be) lo_listen lo_accept True))
     (host_kernel.fields lo_socketpair (\<lambda>W. (Inr (of_nat (length W)), W)))"

lemma lo_kernel_simps:
  "sys_close (lo_kernel be) = lo_close" "sys_read (lo_kernel be) = lo_read" "sys_writev (lo_kernel be) = lo_writev"
  "sys_getaddrinfo (lo_kernel be) = sys_getaddrinfo (demo_netdb be)" "sys_socket (lo_kernel be) = lo_socket"
  "sys_getsockopt (lo_kernel be) = lo_getsockopt" "sys_bind (lo_kernel be) = lo_bind" "sys_connect (lo_kernel be) = lo_connect"
  "sys_shutdown (lo_kernel be) = (\<lambda>fd how W. (returns 0, W))" "sys_recvfrom (lo_kernel be) = lo_recvfrom"
  "sys_sendmsg (lo_kernel be) = lo_sendmsg be" "sys_listen (lo_kernel be) = lo_listen" "sys_accept (lo_kernel be) = lo_accept"
  "sys_socketpair (lo_kernel be) = lo_socketpair" "sys_random_device (lo_kernel be) = (\<lambda>W. (Inr (of_nat (length W)), W))"
  "memcpy_null (lo_kernel be)"
  by (simp_all add: lo_kernel_def netdb.defs sockets.defs host_kernel.defs)

subsection \<open>It keeps the promises\<close>

lemma lo_net_Some: "lo_net W fd = Some k \<longleftrightarrow> 0 \<le> fd \<and> nat fd < length W \<and> W ! nat fd = Some k"
  by (auto simp: lo_net_def)

lemma lo_net_set: "lo_net W fd \<noteq> None \<Longrightarrow> lo_net (lo_set fd k W) = (lo_net W)(fd \<mapsto> k)"
  by (auto simp: lo_net_def lo_set_def fun_eq_iff nth_list_update split: if_splits)

lemma lo_net_clear: "lo_net W fd \<noteq> None \<Longrightarrow> lo_net (W[nat fd := None]) = (lo_net W)(fd := None)"
  by (auto simp: lo_net_def fun_eq_iff nth_list_update split: if_splits)

lemma lo_net_append: "lo_net (W @ [Some k]) = (lo_net W)(int (length W) \<mapsto> k)"
  by (auto simp: lo_net_def fun_eq_iff nth_append)

lemma lo_net_fresh: "lo_net W (int (length W)) = None"
  by (simp add: lo_net_def)

lemma length_lo_set [simp]: "length (lo_set fd k W) = length W"
  by (simp add: lo_set_def)

lemma lo_find_None: "lo_find p W = None \<longleftrightarrow> (\<forall>fd k. lo_net W fd = Some k \<longrightarrow> \<not> p (Some k)) \<or> p None"
  if "\<not> p None" for p
proof -
  have "lo_find p W = None \<longleftrightarrow> (\<forall>i < length W. \<not> p (W ! i))"
    by (auto simp: lo_find_def find_None_iff)
  also have "\<dots> \<longleftrightarrow> (\<forall>fd k. lo_net W fd = Some k \<longrightarrow> \<not> p (Some k))"
    unfolding lo_net_Some using that by (metis nat_int of_nat_0_le_iff option.exhaust)
  finally show ?thesis using that by blast
qed

lemma lo_find_Some:
  assumes "lo_net W fd = Some k" and "p (Some k)"
    and "\<And>fd' k'. lo_net W fd' = Some k' \<Longrightarrow> p (Some k') \<Longrightarrow> fd' = fd" and "\<not> p None"
  shows "lo_find p W = Some fd"
proof -
  have fd: "0 \<le> fd" "nat fd < length W" "p (W ! nat fd)" using assms(1,2) by (auto simp: lo_net_Some)
  have unique: "i = nat fd" if "i < length W" "p (W ! i)" for i
  proof -
    from that assms(4) obtain k' where "W ! i = Some k'" by (cases "W ! i") auto
    with that assms(3) [of "int i" k'] show ?thesis by (auto simp: lo_net_Some)
  qed
  have "List.find (\<lambda>i. p (W ! i)) [0..<length W] \<noteq> None" using fd by (auto simp: find_None_iff)
  then obtain i where i: "List.find (\<lambda>i. p (W ! i)) [0..<length W] = Some i" by blast
  then have "i < length W" "p (W ! i)" by (auto simp: find_Some_iff)
  with unique have "i = nat fd" by blast
  with i fd(1) show ?thesis by (simp add: lo_find_def)
qed

lemma is_dgram_at_Some: "is_dgram_at a (Some k) \<longleftrightarrow> (\<exists>peer q. k = KDgram (Some a) peer q)"
  by (cases "(a, Some k)" rule: is_dgram_at.cases) auto

lemma is_listening_at_Some: "is_listening_at a (Some k) \<longleftrightarrow> (\<exists>q. k = KListening a q)"
  by (cases "(a, Some k)" rule: is_listening_at.cases) auto

lemma is_stream_at_Some: "is_stream_at a (Some k) \<longleftrightarrow> k = KNamed a \<or> (\<exists>q. k = KListening a q)"
  by (cases "(a, Some k)" rule: is_stream_at.cases) auto

lemma lo_find_dgram: "lo_find (is_dgram_at a) W = None \<longleftrightarrow> a \<notin> dgram_names (lo_net W)"
  by (subst lo_find_None) (auto simp: is_dgram_at_Some dgram_names_def)

lemma lo_find_stream: "lo_find (is_stream_at a) W = None \<longleftrightarrow> a \<notin> stream_names (lo_net W)"
  by (subst lo_find_None) (auto simp: is_stream_at_Some stream_names_def)

lemma lo_find_receiver: "receives_at (lo_net W) a fd \<Longrightarrow> lo_find (is_dgram_at a) W = Some fd"
  unfolding receives_at_def by (auto intro!: lo_find_Some simp: is_dgram_at_Some)

lemma lo_find_listener: "listens_at (lo_net W) a fd \<Longrightarrow> lo_find (is_listening_at a) W = Some fd"
  unfolding listens_at_def by (auto intro!: lo_find_Some simp: is_listening_at_Some)

lemma lo_ephemeral_Some:
  assumes "ephemeral be (lo_net W) \<noteq> {}"
  shows "\<exists>a \<in> ephemeral be (lo_net W). lo_ephemeral be W = Some a"
proof -
  let ?free = "\<lambda>p. lo_find (is_dgram_at (loopback_address be (of_nat p))) W = None"
  from assms obtain port :: uint16 where port: "32768 \<le> unat port" "unat port \<le> 60999"
    "loopback_address be port \<notin> dgram_names (lo_net W)" by (auto simp: ephemeral_def)
  have range: "p \<in> set ephemeral_ports \<longleftrightarrow> 32768 \<le> p \<and> p \<le> 60999" for p
    unfolding ephemeral_ports_def set_upt atLeastLessThan_iff by linarith
  have "?free (unat port)" using port(3) by (simp add: lo_find_dgram)
  then have "List.find ?free ephemeral_ports \<noteq> None"
    using port(1,2) range [of "unat port"] unfolding find_None_iff by blast
  then obtain p where p: "List.find ?free ephemeral_ports = Some p" by blast
  then have free: "?free p" "p \<in> set ephemeral_ports" unfolding find_Some_iff by auto
  then have "unat (of_nat p :: uint16) = p" by (simp add: range unat_of_nat)
  moreover have "32768 \<le> p" "p \<le> 60999" using free(2) by (simp_all add: range)
  ultimately have "loopback_address be (of_nat p) \<in> ephemeral be (lo_net W)"
    using free(1) unfolding ephemeral_def lo_find_dgram by (intro CollectI exI [of _ "of_nat p"]) simp
  with p show ?thesis by (simp add: lo_ephemeral_def)
qed

lemma lo_socket_ok: "k_socket (lo_kernel be) lo_net"
  unfolding k_socket_def lo_kernel_simps lo_socket_def
  by (auto simp: lo_net_append lo_net_fresh)

lemma lo_bind_ok: "k_bind be (lo_kernel be) lo_net"
  unfolding k_bind_def lo_kernel_simps lo_bind_def
  by (auto simp: Let_def lo_find_dgram lo_find_stream lo_net_set)

lemma lo_sendmsg_ok: "no_datagram_lost be (lo_kernel be) lo_net"
  unfolding no_datagram_lost_def lo_kernel_simps
proof (intro allI impI, elim conjE)
  fix fd and dest :: "bytes option" and len :: nat and iov W name peer q and to :: bytes and receiver
  assume fd: "lo_net W fd = Some (KDgram name peer q)"
    and dest: "case dest of Some mem \<Rightarrow> len = 16 \<and> to = take 16 mem | None \<Rightarrow> len = 0 \<and> peer = Some to"
    and r: "receives_at (lo_net W) to receiver" "receiver \<noteq> fd" "lo_net W receiver = Some (KDgram (Some to) None [])"
    and eph: "name = None \<longrightarrow> ephemeral be (lo_net W) \<noteq> {}"
  let ?src = "case name of Some a \<Rightarrow> Some a | None \<Rightarrow> lo_ephemeral be W"
  obtain src where src: "?src = Some src" "case name of Some a \<Rightarrow> src = a | None \<Rightarrow> src \<in> ephemeral be (lo_net W)"
    using lo_ephemeral_Some [of be W] eph by (cases name) auto
  have to: "(case dest of Some mem \<Rightarrow> Some (take len mem) | None \<Rightarrow> peer) = Some to" using dest by (cases dest) auto
  let ?W = "lo_set receiver (KDgram (Some to) None [(src, iovec_bytes iov)]) (lo_set fd (KDgram (Some src) peer q) W)"
  have call: "lo_sendmsg be fd dest len iov 0 W = (returns (int (length (iovec_bytes iov))), ?W)"
    by (simp add: lo_sendmsg_def fd to src(1) r(3) lo_find_receiver [OF r(1)])
  have "lo_net ?W = (lo_net W)(fd \<mapsto> KDgram (Some src) peer q, receiver \<mapsto> KDgram (Some to) None [(src, iovec_bytes iov)])"
    using fd r(2,3) by (simp add: lo_net_set)
  with call src(2) show "\<exists>src W'. lo_sendmsg be fd dest len iov 0 W = (returns (int (length (iovec_bytes iov))), W') \<and>
      (case name of Some a \<Rightarrow> src = a | None \<Rightarrow> src \<in> ephemeral be (lo_net W)) \<and>
      lo_net W' = (lo_net W)(fd \<mapsto> KDgram (Some src) peer q, receiver \<mapsto> KDgram (Some to) None [(src, iovec_bytes iov)])"
    by blast
qed

lemma lo_recvfrom_ok: "k_recvfrom (lo_kernel be) lo_net"
  unfolding k_recvfrom_def lo_kernel_simps lo_recvfrom_def by (auto simp: lo_net_set)

lemma lo_connect_ok: "k_connect (lo_kernel be) lo_net"
  unfolding k_connect_def lo_kernel_simps lo_connect_def
  by (auto simp: Let_def lo_find_listener lo_net_set)

lemma lo_listen_ok: "k_listen (lo_kernel be) lo_net"
  unfolding k_listen_def lo_kernel_simps lo_listen_def by (auto simp: lo_net_set)

lemma lo_accept_ok: "k_accept (lo_kernel be) lo_net"
  unfolding k_accept_def lo_kernel_simps
proof (intro allI impI, elim conjE)
  fix l a c q W assume l: "lo_net W l = Some (KListening a (c # q))" and c: "lo_net W c = Some KWaiting"
  let ?n = "int (length W)"
  let ?W = "lo_set c (KConn 2 ?n []) (lo_set l (KListening a q) W)"
  have "c \<noteq> l" using l c by auto
  then have "lo_net ?W = (lo_net W)(l \<mapsto> KListening a q, c \<mapsto> KConn 2 ?n [])" using l c by (simp add: lo_net_set)
  then have "lo_net (?W @ [Some (KConn 2 c [])]) = (lo_net W)(l \<mapsto> KListening a q, c \<mapsto> KConn 2 ?n [], ?n \<mapsto> KConn 2 c [])"
    using lo_net_append [of ?W "KConn 2 c []"] by simp
  moreover have "lo_accept l W = (returns ?n, ?W @ [Some (KConn 2 c [])])" by (simp add: lo_accept_def l)
  ultimately show "\<exists>fd W'. lo_accept l W = (returns fd, W') \<and> 0 \<le> fd \<and> lo_net W fd = None \<and>
      lo_net W' = (lo_net W)(l \<mapsto> KListening a q, c \<mapsto> KConn 2 fd [], fd \<mapsto> KConn 2 c [])"
    using lo_net_fresh [of W] by (intro exI [of _ ?n] exI conjI) (assumption | simp)+
qed

lemma lo_socketpair_ok: "k_socketpair (lo_kernel be) lo_net"
proof -
  have "lo_net (W @ [Some k, Some k']) = (lo_net W)(int (length W) \<mapsto> k, int (length W) + 1 \<mapsto> k')" for W k k'
    using lo_net_append [of "W @ [Some k]" k'] by (simp add: lo_net_append add.commute)
  then show ?thesis
    unfolding k_socketpair_def lo_kernel_simps lo_socketpair_def Let_def by (auto simp: lo_net_def)
qed

lemma lo_getsockopt_ok: "k_getsockopt (lo_kernel be) lo_net"
  unfolding k_getsockopt_def lo_kernel_simps lo_getsockopt_def by auto

lemma lo_writev_ok: "k_writev (lo_kernel be) lo_net"
proof -
  have "\<exists>k W'. lo_writev a iov W = (returns (int k), W') \<and> k \<le> length (iovec_bytes iov) \<and> k \<le> 0x7ffff000 \<and>
      (iovec_bytes iov \<noteq> [] \<longrightarrow> 0 < k) \<and> lo_net W' = (lo_net W)(b \<mapsto> KConn domain a (Y @ take k (iovec_bytes iov)))"
    if "lo_net W a = Some (KConn domain b X)" "lo_net W b = Some (KConn domain a Y)" for a b domain X Y iov W
    using that by (intro exI [of _ "min 3 (length (iovec_bytes iov))"]) (auto simp: lo_writev_def Let_def lo_net_set)
  then show ?thesis unfolding k_writev_def lo_kernel_simps by blast
qed

lemma lo_read_ok: "k_read (lo_kernel be) lo_net"
  unfolding k_read_def lo_kernel_simps lo_read_def by (auto simp: lo_net_set)

lemma lo_close_ok: "k_close (lo_kernel be) lo_net"
  unfolding k_close_def lo_kernel_simps lo_close_def by (auto simp: lo_net_clear)

lemma lo_services_ok: "k_services be (lo_kernel be) lo_net"
proof -
  have "snd (sys_getaddrinfo (demo_netdb be) node service hints W) = W" for node service hints and W :: lo_world
    by (simp add: demo_netdb_def)
  moreover have "numeric_getaddrinfo be (lo_kernel be)"
    using demo_getaddrinfo [of be, where 'a = lo_world] unfolding numeric_getaddrinfo_def lo_kernel_simps .
  ultimately show ?thesis unfolding k_services_def lo_kernel_simps by simp
qed

lemma lo_kernel_loopback: "loopback be (lo_kernel be) lo_net"
  unfolding loopback_def
  by (intro conjI lo_socket_ok lo_bind_ok lo_recvfrom_ok lo_connect_ok lo_listen_ok lo_accept_ok
      lo_socketpair_ok lo_getsockopt_ok lo_writev_ok lo_read_ok lo_close_ok lo_services_ok)
    (simp add: k_shutdown_def lo_kernel_simps)

lemma lo_kernel_arrays: "keeps_arrays (lo_kernel be)"
proof -
  have "len \<le> length mem"
    if "sys_getaddrinfo (demo_netdb be) node service hints W = ((ret, Some (mem, len)), W')"
    for node service hints ret mem len and W W' :: lo_world
    using that by (auto simp: demo_netdb_def split: sum.splits)
  moreover have "length mem' = length mem"
    if "lo_recvfrom fd buf flags mem len W = ((r, buf', mem', len'), W')" for fd buf flags mem len W r buf' mem' len' W'
    using that by (auto simp: lo_recvfrom_def split: option.splits ksock.splits list.splits)
  ultimately show ?thesis unfolding keeps_arrays_def lo_kernel_simps by blast
qed

end
