(* ===== verification/Loop_Relay.thy ===== *)
theory Loop_Relay
  imports Loop_Run Loopback_Host
begin

text \<open>
  Event loop, descriptors and kernel together: a client whose callbacks copy what arrives on one
  connected stream to another one, which is what the loop is made for, on a kernel that
  behaves as documented. A rule's callback is \<open>Copy h h'\<close>: one \<^verbatim>\<open>read\<close> of \<open>h\<close> and a \<^verbatim>\<open>write\<close> of
  all that was read to \<open>h'\<close>.
\<close>

subsection \<open>The client\<close>

datatype relay = Copy handle handle | Skip

definition copy_chunk :: "('w, 'z) posix_scheme \<Rightarrow> handle \<Rightarrow> handle \<Rightarrow> ('w process, unit) prog" where
  "copy_chunk P h h' =
     bnd (FileDescriptor_read P h default_limit) (\<lambda>data.
     bnd (FileDescriptor_write_string P h' data True) (\<lambda>_. ret ()))"

definition relay_client :: "('w, 'z) posix_scheme \<Rightarrow> ('w, relay) client" where
  "relay_client P =
     \<lparr>call = \<lambda>c. (case c of Copy h h' \<Rightarrow> on_proc (copy_chunk P h h') | Skip \<Rightarrow> default_cancel), ask = \<lambda>_. default_interest\<rparr>"

definition relay_rule :: "handle \<Rightarrow> handle \<Rightarrow> relay Rule" where
  "relay_rule h h' =
     \<lparr>rule_fd = h, rule_direction = In, rule_callback = Copy h h', rule_interest = Skip, rule_cancel = Skip\<rparr>"

subsection \<open>Connections\<close>

definition established :: "sockets_table \<Rightarrow> int \<Rightarrow> bool" where
  "established K a \<longleftrightarrow> (\<exists>domain b X Y. a \<noteq> b \<and> K a = Some (KConn domain b X) \<and> K b = Some (KConn domain a Y))"

definition peer :: "sockets_table \<Rightarrow> int \<Rightarrow> int" where
  "peer K a = (case K a of Some (KConn _ b _) \<Rightarrow> b | _ \<Rightarrow> a)"

definition set_inbox :: "int \<Rightarrow> bytes \<Rightarrow> sockets_table \<Rightarrow> sockets_table" where
  "set_inbox a X K = (case K a of Some (KConn domain b _) \<Rightarrow> K(a \<mapsto> KConn domain b X) | _ \<Rightarrow> K)"

text \<open>A table without the data in its streams.\<close>

definition wiring :: "sockets_table \<Rightarrow> sockets_table" where
  "wiring K a = map_option (\<lambda>k. case k of KConn domain b _ \<Rightarrow> KConn domain b [] | _ \<Rightarrow> k) (K a)"

lemma wiring_KConn: "K a = Some (KConn domain b X) \<Longrightarrow> wiring K a = Some (KConn domain b [])"
  by (simp add: wiring_def)

lemma wiring_KConn_iff: "wiring K a = Some (KConn domain b []) \<longleftrightarrow> (\<exists>X. K a = Some (KConn domain b X))"
  by (cases "K a"; cases "the (K a)") (auto simp: wiring_def)

lemma established_wiring:
  "established K a \<longleftrightarrow> (\<exists>domain b. a \<noteq> b \<and> wiring K a = Some (KConn domain b []) \<and> wiring K b = Some (KConn domain a []))"
  unfolding established_def wiring_KConn_iff by blast

lemma peer_wiring: "peer K a = (case wiring K a of Some (KConn _ b _) \<Rightarrow> b | _ \<Rightarrow> a)"
  by (auto simp: peer_def wiring_def split: option.split ksock.splits)

lemma wiring_set_inbox [simp]: "wiring (set_inbox a X K) = wiring K"
  by (auto simp: set_inbox_def wiring_def fun_eq_iff split: option.splits ksock.splits)

lemma established_peer:
  assumes "established K a"
  obtains domain X Y where "K a = Some (KConn domain (peer K a) X)" "K (peer K a) = Some (KConn domain a Y)" "a \<noteq> peer K a"
  using assms by (auto simp: established_def peer_def)

lemma inbox_set_inbox: "established K a \<Longrightarrow> inbox (set_inbox a X K) c = (if c = a then X else inbox K c)"
  by (auto simp: established_def set_inbox_def inbox_def)

lemma established_peer_established: "established K a \<Longrightarrow> established K (peer K a)"
  by (auto simp: established_def peer_def)

lemma set_inbox_eq: "K a = Some (KConn domain b X) \<Longrightarrow> set_inbox a Y K = K(a \<mapsto> KConn domain b Y)"
  by (simp add: set_inbox_def)

text \<open>What copying a chunk from \<open>a\<close> to \<open>b\<close> does: the bytes arrive at the peer of \<open>b\<close>.\<close>

definition forward :: "int \<times> int \<Rightarrow> sockets_table \<Rightarrow> sockets_table" where
  "forward l K = (case l of (a, b) \<Rightarrow>
     if inbox K a = [] then K
     else set_inbox (peer K b) (inbox K (peer K b) @ take BUFFER_SIZE (inbox K a))
            (set_inbox a (drop BUFFER_SIZE (inbox K a)) K))"

lemma wiring_forward [simp]: "wiring (forward l K) = wiring K"
  by (simp add: forward_def split: prod.split)

subsection \<open>Copying a chunk\<close>

text \<open>The number and the flags of each open descriptor.\<close>

definition fd_flags :: "'w process \<Rightarrow> handle \<Rightarrow> (int \<times> bool \<times> bool) option" where
  "fd_flags p h = map_option (\<lambda>w. (w_fd w, w_eof w, w_closed w)) (wrappers p h)"

lemma fd_flags_view: "fd_flags p h = map_option (\<lambda>w. (w_fd w, w_eof w, w_closed w)) (fd_view p h)"
  by (cases "wrappers p h") (simp_all add: fd_flags_def fd_view_def)

lemma fd_flags_open: "fd_flags p h = Some (fd, e, False) \<Longrightarrow> open_fds p h = Some fd"
  by (auto simp: fd_flags_def open_fds_def)

lemma chunk_fits: "length (take BUFFER_SIZE X) < 2 ^ 63"
proof -
  have "BUFFER_SIZE < 2 ^ 63" by (simp add: BUFFER_SIZE_def)
  then show ?thesis by (simp add: min_less_iff_disj)
qed

lemma copy_chunk_effect:
  assumes k: "k_read P net" "k_writev P net" and inv: "process_inv s" and h: "h \<noteq> h'"
    and src: "wrappers s h = Some w" "w_fd w = a" and dst: "fd_flags s h' = Some (b, e, False)"
    and est: "established (net (world s)) a" "established (net (world s)) b" "peer (net (world s)) b \<noteq> a" "a \<noteq> b"
    and data: "inbox (net (world s)) a \<noteq> []"
  shows "\<exists>t w'. copy_chunk P h h' s = (Inr (), t) \<and> process_inv t \<and> use_count t = use_count s \<and> fd_flags t = fd_flags s \<and>
    wrappers t h = Some w' \<and> w_read_count w' = w_read_count w + 1 \<and> net (world t) = forward (a, b) (net (world s))"
proof -
  let ?K = "net (world s)" and ?y = "peer (net (world s)) b" and ?w = "w\<lparr>w_read_count := w_read_count w + 1\<rparr>"
  obtain domain x X where a: "?K a = Some (KConn domain x X)" using est(1) by (auto simp: established_def)
  with data have X: "X \<noteq> []" "inbox ?K a = X" by (simp_all add: inbox_def)
  obtain domain' Z Y where b: "?K b = Some (KConn domain' ?y Z)" "?K ?y = Some (KConn domain' b Y)" "b \<noteq> ?y"
    using est(2) by (rule established_peer)
  have limit: "BUFFER_SIZE \<le> default_limit" by (simp add: BUFFER_SIZE_def default_limit_def)
  from read_stream [OF k(1) inv src(1) limit, unfolded src(2), OF a X(1)] obtain W where
    W: "FileDescriptor_read P h default_limit s = (Inr (take BUFFER_SIZE X), s\<lparr>world := W, wrappers := (wrappers s)(h \<mapsto> ?w)\<rparr>)"
    "net W = ?K(a \<mapsto> KConn domain x (drop BUFFER_SIZE X))" "process_inv (s\<lparr>world := W, wrappers := (wrappers s)(h \<mapsto> ?w)\<rparr>)" by blast
  let ?s = "s\<lparr>world := W, wrappers := (wrappers s)(h \<mapsto> ?w)\<rparr>"
  have flags: "fd_flags ?s = fd_flags s" using src(1) by (simp add: fd_flags_def fun_eq_iff)
  then have "open_fds ?s h' = Some b" using dst by (intro fd_flags_open) simp
  moreover have "net (world ?s) b = Some (KConn domain' ?y Z)" "net (world ?s) ?y = Some (KConn domain' b Y)"
    using W(2) b est(3,4) by simp_all
  ultimately obtain t where t: "FileDescriptor_write_string P h' (take BUFFER_SIZE X) True ?s = (Inr (length (take BUFFER_SIZE X)), t)"
    "process_inv t" "use_count t = use_count ?s" "fd_view t = fd_view ?s"
    "net (world t) = (net (world ?s))(?y \<mapsto> KConn domain' b (Y @ take BUFFER_SIZE X))"
    using write_stream [OF k(2) W(3), of h' b domain' ?y Z Y "take BUFFER_SIZE X"] b(3) chunk_fits by blast
  have run: "copy_chunk P h h' s = (Inr (), t)" using W(1) t(1) by (simp add: copy_chunk_def bnd_Inr ret_def)
  have "fd_view t h = Some (?w\<lparr>w_write_count := 0\<rparr>)" using t(4) by (simp add: fd_view_def)
  then obtain w' where w': "wrappers t h = Some w'" "w_read_count w' = w_read_count w + 1"
    by (auto dest!: fd_view_Some dest: arg_cong [where f = w_read_count])
  have "fd_flags t = fd_flags s" using t(4) flags by (simp add: fd_flags_view fun_eq_iff)
  moreover have "net (world t) = forward (a, b) ?K"
    using t(5) W(2) a b X est(3) by (simp add: forward_def set_inbox_def inbox_def)
  ultimately show ?thesis using run t(2,3) w' by auto
qed

subsection \<open>A turn of the loop\<close>

text \<open>
  A loop with a rule per link, each from an open descriptor that is not at EOF to another open one; \<open>fd_of\<close> gives
  their numbers. The connections are such that what is copied does not arrive where the loop reads.
\<close>

definition relaying :: "('w \<Rightarrow> sockets_table) \<Rightarrow> (handle \<Rightarrow> int) \<Rightarrow> (handle \<times> handle) list \<Rightarrow> sockets_table \<Rightarrow> ('w, relay) EventLoop \<Rightarrow> bool" where
  "relaying net fd_of links K s \<longleftrightarrow>
     rules s = map (\<lambda>(h, h'). relay_rule h h') links \<and> process_inv (proc s) \<and> net (world (proc s)) = K \<and>
     (\<forall>(h, h') \<in> set links. h \<noteq> h' \<and> fd_flags (proc s) h = Some (fd_of h, False, False) \<and>
        (\<exists>e. fd_flags (proc s) h' = Some (fd_of h', e, False)))"

definition fd_links :: "(handle \<Rightarrow> int) \<Rightarrow> (handle \<times> handle) list \<Rightarrow> (int \<times> int) list" where
  "fd_links fd_of links = map (\<lambda>(h, h'). (fd_of h, fd_of h')) links"

definition wired :: "sockets_table \<Rightarrow> (int \<times> int) list \<Rightarrow> bool" where
  "wired K L \<longleftrightarrow> distinct (map fst L) \<and>
     (\<forall>(a, b) \<in> set L. a \<noteq> b \<and> established K a \<and> established K b \<and> peer K b \<notin> fst ` set L)"

lemma wired_link:
  assumes "wired K L" and "(a, b) \<in> set L"
  shows "established K a" and "established K b" and "a \<noteq> b" and "(c, d) \<in> set L \<Longrightarrow> peer K b \<noteq> c"
proof -
  have ab: "a \<noteq> b \<and> established K a \<and> established K b \<and> peer K b \<notin> fst ` set L" using assms by (auto simp: wired_def)
  then show "established K a" "established K b" "a \<noteq> b" by simp_all
  show "peer K b \<noteq> c" if "(c, d) \<in> set L" using ab imageI [OF that, of fst] by auto
qed

lemma wired_wiring: "wiring K = wiring K' \<Longrightarrow> wired K L \<longleftrightarrow> wired K' L"
  by (simp add: wired_def established_wiring peer_wiring)

lemma inbox_forward:
  assumes "established K a" and "established K b" and "peer K b \<noteq> a"
  shows "inbox (forward (a, b) K) c =
    (if c = a then drop BUFFER_SIZE (inbox K a)
     else if c = peer K b then inbox K c @ take BUFFER_SIZE (inbox K a) else inbox K c)"
proof -
  have "established (set_inbox a X K) (peer K b)" for X
    using established_peer_established [OF assms(2)] by (simp add: established_wiring)
  then show ?thesis using assms by (auto simp: forward_def inbox_set_inbox)
qed

text \<open>\<^verbatim>\<open>poll\<close> for reading on connected streams. It need not return when nothing waits and there is no timeout.\<close>

definition poll_report :: "sockets_table \<Rightarrow> pollfd \<Rightarrow> pollfd" where
  "poll_report K p = p\<lparr>pfd_revents := if pfd_events p = POLLIN \<and> inbox K (pfd_fd p) \<noteq> [] then POLLIN else 0\<rparr>"

definition k_poll :: "('w, 'z) posix_scheme \<Rightarrow> ('w \<Rightarrow> sockets_table) \<Rightarrow> bool" where
  "k_poll P net \<longleftrightarrow>
     (\<forall>ps timeout W.
        (\<forall>p \<in> set ps. established (net W) (pfd_fd p) \<and> pfd_events p \<in> {0, POLLIN}) \<and>
        (0 \<le> timeout \<or> (\<exists>p \<in> set ps. pfd_revents (poll_report (net W) p) \<noteq> 0)) \<longrightarrow>
        (\<exists>W'. sys_poll P ps timeout W =
            ((returns (int (length (filter (\<lambda>p. pfd_revents (poll_report (net W) p) \<noteq> 0) ps))), map (poll_report (net W)) ps), W') \<and>
           net W' = net W))"

definition relay_entry :: "(handle \<Rightarrow> int) \<Rightarrow> handle \<times> handle \<Rightarrow> pollfd" where
  "relay_entry fd_of l = \<lparr>pfd_fd = fd_of (fst l), pfd_events = POLLIN, pfd_revents = 0\<rparr>"

lemma relay_link:
  assumes "relaying net fd_of links K s" and "i < length links" and "links ! i = (h, h')"
  obtains w e where "rules s ! i = relay_rule h h'" "wrappers (proc s) h = Some w" "w_fd w = fd_of h" "\<not> w_eof w" "\<not> w_closed w"
    "h \<noteq> h'" "fd_flags (proc s) h' = Some (fd_of h', e, False)"
proof -
  have "(h, h') \<in> set links" using assms(2,3) by (metis nth_mem)
  with assms(1) have "h \<noteq> h'" "fd_flags (proc s) h = Some (fd_of h, False, False)" "\<exists>e. fd_flags (proc s) h' = Some (fd_of h', e, False)"
    "rules s ! i = relay_rule h h'"
    using assms(2,3) by (auto simp: relaying_def)
  with that show thesis by (auto simp: fd_flags_def)
qed

lemma relay_setup_from:
  assumes "relaying net fd_of links K s" and "i \<le> length links"
  shows "setup_loop P (relay_client P) i ps something s =
    Some (Inr (ps @ map (relay_entry fd_of) (drop i links), something \<or> drop i links \<noteq> []), s)"
  using assms(2)
proof (induction "length links - i" arbitrary: i ps something)
  case 0
  have "length (rules s) = length links" using assms(1) by (simp add: relaying_def)
  with 0 show ?case by (simp add: setup_loop.simps)
next
  case (Suc n)
  then have i: "i < length links" by simp
  obtain h h' where l: "links ! i = (h, h')" by (cases "links ! i")
  from assms(1) i l obtain w where w: "rules s ! i = relay_rule h h'" "wrappers (proc s) h = Some w" "w_fd w = fd_of h"
    "\<not> w_eof w" "\<not> w_closed w" by (rule relay_link)
  have "setup_step P (relay_client P) i ps something s = (Inr (Suc i, ps @ [relay_entry fd_of (links ! i)], True), s)"
    using w by (subst setup_step_eq [where w = w])
      (simp_all add: relay_rule_def defunct_def relay_client_def default_interest_def bnd_Inr ret_def on_proc_id accessor_eq
        poll_entry_def relay_entry_def l)
  moreover have "i < length (rules s)" using assms(1) i by (simp add: relaying_def)
  moreover have "drop i links = links ! i # drop (Suc i) links" using i by (simp add: Cons_nth_drop_Suc)
  ultimately show ?case using Suc by (simp add: setup_loop_next)
qed

lemma relay_serve:
  assumes k: "k_read P net" "k_writev P net" and s: "relaying net fd_of links K s" and i: "i < length links" "links ! i = (h, h')"
    and wired: "wired K (fd_links fd_of links)" and data: "inbox K (fd_of h) \<noteq> []"
  shows "\<exists>t. serve_rule (relay_client P) (rules s ! i) s = (Inr (), t) \<and>
    relaying net fd_of links (forward (fd_of h, fd_of h') K) t \<and> use_count (proc t) = use_count (proc s)"
proof -
  from s i obtain w e where w: "rules s ! i = relay_rule h h'" "wrappers (proc s) h = Some w" "w_fd w = fd_of h"
    "h \<noteq> h'" "fd_flags (proc s) h' = Some (fd_of h', e, False)" by (rule relay_link)
  have "(fd_of h, fd_of h') \<in> set (fd_links fd_of links)"
    using i by (force simp: fd_links_def in_set_conv_nth)
  note est = wired_link [OF wired this] wired_link(4) [OF wired this this]
  have inv: "process_inv (proc s)" and K: "net (world (proc s)) = K" using s by (simp_all add: relaying_def)
  from copy_chunk_effect [OF k inv w(4,2,3,5)] est data obtain p w' where
    p: "copy_chunk P h h' (proc s) = (Inr (), p)" "process_inv p" "use_count p = use_count (proc s)" "fd_flags p = fd_flags (proc s)"
    "wrappers p h = Some w'" "w_read_count w' = w_read_count w + 1" "net (world p) = forward (fd_of h, fd_of h') K"
    unfolding K by blast
  let ?t = "s\<lparr>proc := p\<rparr>"
  have "serve_rule (relay_client P) (relay_rule h h') s = (Inr (), ?t)"
    using w(2) p(1,5,6)
    by (simp add: serve_rule_def bnd_Inr service_count_eq [where w = w] service_count_eq [where w = w'] relay_rule_def wrapper_count_def
        relay_client_def on_proc_eq ret_def)
  moreover have "relaying net fd_of links (forward (fd_of h, fd_of h') K) ?t"
    using s p by (auto simp: relaying_def)
  ultimately show ?thesis using w(1) p(3) by auto
qed

text \<open>Serving the answers of \<^verbatim>\<open>poll\<close>, rule by rule; the answers were given for the table \<open>K0\<close>.\<close>

lemma relay_results:
  assumes k: "k_read P net" "k_writev P net" and wired: "wired K0 (fd_links fd_of links)"
    and "relaying net fd_of links K s" and "wiring K = wiring K0" and "links = before @ todo"
    and "\<And>h h'. (h, h') \<in> set todo \<Longrightarrow> inbox K (fd_of h) = inbox K0 (fd_of h)"
  shows "\<exists>t. results_loop P (relay_client P) (length before) (map (\<lambda>l. poll_report K0 (relay_entry fd_of l)) todo) s = (Inr (), t) \<and>
    relaying net fd_of links (fold forward (fd_links fd_of todo) K) t \<and> use_count (proc t) = use_count (proc s)"
  using assms(4-)
proof (induction todo arbitrary: before K s)
  case Nil
  then have "length (rules s) = length before" by (simp add: relaying_def)
  with Nil show ?case by (simp add: results_loop_stop fd_links_def)
next
  case (Cons l todo)
  obtain h h' where l: "l = (h, h')" by (cases l)
  let ?i = "length before" and ?p = "poll_report K0 (relay_entry fd_of l)" and ?F = "forward (fd_of h, fd_of h')"
  have i: "?i < length links" "links ! ?i = (h, h')" and len: "length (rules s) = length links"
    using Cons.prems(1,3) l by (simp_all add: relaying_def)
  have link: "(fd_of h, fd_of h') \<in> set (fd_links fd_of links)" using Cons.prems(3) l by (auto simp: fd_links_def)
  have wK: "wired K (fd_links fd_of links)" using wired wired_wiring [OF Cons.prems(2)] by simp
  note est = wired_link [OF wK link]
  have inbox: "inbox K (fd_of h) = inbox K0 (fd_of h)" by (rule Cons.prems(4) [of h h']) (simp add: l)
  have "\<exists>t. results_step P (relay_client P) ?i ?p s = (Inr (Suc ?i), t) \<and> relaying net fd_of links (?F K) t \<and>
      use_count (proc t) = use_count (proc s)"
  proof (cases "inbox K0 (fd_of h) = []")
    case True
    then have "pfd_revents ?p = 0" by (simp add: poll_report_def relay_entry_def l)
    moreover have "?F K = K" using True inbox by (simp add: forward_def)
    ultimately show ?thesis using Cons.prems(1) by (simp add: results_step_eq idle_answer ret_def)
  next
    case False
    have p: "\<not> poll_failed ?p" "\<not> hung_up ?p" "poll_is_ready ?p"
      using False by (simp_all add: poll_report_def relay_entry_def l poll_failed_def hung_up_def poll_is_ready_def poll_defs)
    obtain t where "serve_rule (relay_client P) (rules s ! ?i) s = (Inr (), t)" "relaying net fd_of links (?F K) t"
      "use_count (proc t) = use_count (proc s)"
      using relay_serve [OF k Cons.prems(1) i wK] False inbox by auto
    with p show ?thesis by (simp add: results_step_eq bnd_Inr ret_def)
  qed
  then obtain t where t: "results_step P (relay_client P) ?i ?p s = (Inr (Suc ?i), t)" "relaying net fd_of links (?F K) t"
    "use_count (proc t) = use_count (proc s)" by blast
  have rest: "inbox (?F K) (fd_of c) = inbox K0 (fd_of c)" if c: "(c, d) \<in> set todo" for c d
  proof -
    have "(fd_of c, fd_of d) \<in> set (fd_links fd_of links)" using c Cons.prems(3) by (force simp: fd_links_def)
    then have "peer K (fd_of h') \<noteq> fd_of c" by (rule est(4))
    moreover have "fd_of c \<noteq> fd_of h"
    proof -
      have "distinct (map fst (fd_links fd_of (before @ l # todo)))" using wK by (simp add: wired_def Cons.prems(3))
      then have "fd_of h \<notin> (\<lambda>x. fd_of (fst x)) ` set todo" by (simp add: fd_links_def l split_beta image_image)
      then show ?thesis using imageI [OF c, of "\<lambda>x. fd_of (fst x)"] by (metis fst_conv)
    qed
    ultimately show ?thesis using inbox_forward [OF est(1,2) est(4) [OF link], of "fd_of c"] Cons.prems(4) [of c d] c by simp
  qed
  have "wiring (?F K) = wiring K0" "links = (before @ [l]) @ todo" using Cons.prems(2,3) by simp_all
  note IH = Cons.IH [OF t(2) this]
  have "\<exists>u. results_loop P (relay_client P) (Suc ?i) (map (\<lambda>l. poll_report K0 (relay_entry fd_of l)) todo) t = (Inr (), u) \<and>
      relaying net fd_of links (fold forward (fd_links fd_of todo) (?F K)) u \<and> use_count (proc u) = use_count (proc t)"
    using IH rest by simp
  then obtain u where
    u: "results_loop P (relay_client P) (Suc ?i) (map (\<lambda>l. poll_report K0 (relay_entry fd_of l)) todo) t = (Inr (), u)"
    "relaying net fd_of links (fold forward (fd_links fd_of todo) (?F K)) u" "use_count (proc u) = use_count (proc t)" by blast
  have "results_loop P (relay_client P) ?i (map (\<lambda>l. poll_report K0 (relay_entry fd_of l)) (l # todo)) s = (Inr (), u)"
    using results_loop_next [OF _ t(1)] u(1) i(1) len by simp
  with u(2,3) t(3) show ?case by (auto simp: fd_links_def l)
qed

lemma fold_forward_idle: "(\<And>a b. (a, b) \<in> set L \<Longrightarrow> inbox K a = []) \<Longrightarrow> fold forward L K = K"
proof (induction L)
  case (Cons l L)
  obtain a b where l: "l = (a, b)" by (cases l)
  then have "forward l K = K" using Cons.prems [of a b] by (simp add: forward_def)
  moreover have "inbox K c = []" if "(c, d) \<in> set L" for c d using Cons.prems [of c d] that by simp
  ultimately show ?case using Cons.IH by simp
qed simp

lemma relay_turn:
  assumes k: "k_poll P net" "k_read P net" "k_writev P net" and s: "relaying net fd_of links K s"
    and wired: "wired K (fd_links fd_of links)" and links: "links \<noteq> []" and timeout: "0 \<le> timeout"
  shows "\<exists>t. wait_next_event P (relay_client P) timeout s =
      Some (Inr (if \<exists>(h, h') \<in> set links. inbox K (fd_of h) \<noteq> [] then Success else Timeout), t) \<and>
    relaying net fd_of links (fold forward (fd_links fd_of links) K) t \<and> use_count (proc t) = use_count (proc s)"
proof -
  let ?ps = "map (relay_entry fd_of) links" and ?ready = "\<lambda>p. pfd_revents (poll_report K p) \<noteq> 0"
  have set_up: "setup_loop P (relay_client P) 0 [] False s = Some (Inr (?ps, True), s)"
    using relay_setup_from [OF s, of 0 P "[]" False] links by simp
  have K: "net (world (proc s)) = K" using s by (simp add: relaying_def)
  have "established K (pfd_fd p) \<and> pfd_events p \<in> {0, POLLIN}" if "p \<in> set ?ps" for p
    using that wired by (auto simp: relay_entry_def fd_links_def wired_def)
  then have "(\<forall>p \<in> set ?ps. established (net (world (proc s))) (pfd_fd p) \<and> pfd_events p \<in> {0, POLLIN}) \<and>
      (0 \<le> timeout \<or> (\<exists>p \<in> set ?ps. pfd_revents (poll_report (net (world (proc s))) p) \<noteq> 0))"
    using timeout K by blast
  from k(1) [unfolded k_poll_def, rule_format, OF this, unfolded K] obtain n W where n: "n = length (filter ?ready ?ps)"
    and W: "sys_poll P ?ps timeout (world (proc s)) = ((returns (int n), map (poll_report K) ?ps), W)" "net W = K" by auto
  let ?s = "s\<lparr>proc := (proc s)\<lparr>world := W\<rparr>\<rparr>"
  have s': "relaying net fd_of links K ?s" using s W(2) by (auto simp: relaying_def process_inv_def fd_flags_def)
  have ready: "?ready (relay_entry fd_of l) \<longleftrightarrow> inbox K (fd_of (fst l)) \<noteq> []" for l
    by (simp add: poll_report_def relay_entry_def poll_defs)
  show ?thesis
  proof (cases "\<exists>(h, h') \<in> set links. inbox K (fd_of h) \<noteq> []")
    case False
    then have "n = 0" by (auto simp: n filter_empty_conv ready)
    moreover have "fold forward (fd_links fd_of links) K = K"
      using False by (intro fold_forward_idle) (auto simp: fd_links_def)
    ultimately show ?thesis using False s'
      by (simp add: wait_next_event_def set_up poll_and_serve_eq [OF W(1)])
  next
    case True
    then obtain l where "l \<in> set links" "inbox K (fd_of (fst l)) \<noteq> []" by auto
    then have "n \<noteq> 0" by (auto simp: n filter_empty_conv ready)
    moreover obtain t where "results_loop P (relay_client P) 0 (map (poll_report K) ?ps) ?s = (Inr (), t)"
      "relaying net fd_of links (fold forward (fd_links fd_of links) K) t" "use_count (proc t) = use_count (proc ?s)"
      using relay_results [OF k(2,3) wired s' refl, of "[]" links] by (auto simp: comp_def)
    ultimately show ?thesis using True
      by (simp add: wait_next_event_def set_up poll_and_serve_eq [OF W(1)] bnd_Inr ret_def Let_def)
  qed
qed

subsection \<open>Many turns\<close>

text \<open>A number of turns that return, with what they return.\<close>

fun turns :: "('w, 'z) posix_scheme \<Rightarrow> ('w, 'c) client \<Rightarrow> int \<Rightarrow> nat \<Rightarrow> ('w, 'c) EventLoop \<Rightarrow> (Result list \<times> ('w, 'c) EventLoop) option" where
  "turns P C timeout_ms 0 s = Some ([], s)"
| "turns P C timeout_ms (Suc n) s =
     (case wait_next_event P C timeout_ms s of
        Some (Inr r, t) \<Rightarrow> map_option (\<lambda>(rs, u). (r # rs, u)) (turns P C timeout_ms n t)
      | _ \<Rightarrow> None)"

lemma forward_eq:
  assumes "K a = Some (KConn domain x X)" and "K b = Some (KConn domain' y Z)" and "K y = Some (KConn domain' b Q)" and "y \<noteq> a"
  shows "forward (a, b) K = K(a \<mapsto> KConn domain x (drop BUFFER_SIZE X), y \<mapsto> KConn domain' b (Q @ take BUFFER_SIZE X))"
  using assms by (auto simp: forward_def inbox_def peer_def set_inbox_def fun_upd_idem fun_upd_twist)

text \<open>The table of two connections, between \<open>a\<close> and \<open>x\<close> and between \<open>b\<close> and \<open>y\<close>, with what waits at each end.\<close>

definition two_streams :: "sockets_table \<Rightarrow> int \<Rightarrow> int \<Rightarrow> int \<Rightarrow> int \<Rightarrow> int \<Rightarrow> int \<Rightarrow> bytes \<Rightarrow> bytes \<Rightarrow> bytes \<Rightarrow> bytes \<Rightarrow> sockets_table" where
  "two_streams K domain a x domain' b y A X B Y =
     K(a \<mapsto> KConn domain x A, x \<mapsto> KConn domain a X, b \<mapsto> KConn domain' y B, y \<mapsto> KConn domain' b Y)"

lemma two_streams_turn:
  assumes "distinct [a, x, b, y]"
  shows "wired (two_streams K domain a x domain' b y A X B Y) [(a, b), (b, a)]"
    and "fold forward [(a, b), (b, a)] (two_streams K domain a x domain' b y A X B Y) =
      two_streams K domain a x domain' b y (drop BUFFER_SIZE A) (X @ take BUFFER_SIZE B) (drop BUFFER_SIZE B) (Y @ take BUFFER_SIZE A)"
proof -
  let ?T = "two_streams K domain a x domain' b y"
  have T: "?T A X B Y a = Some (KConn domain x A)" "?T A X B Y x = Some (KConn domain a X)"
    "?T A X B Y b = Some (KConn domain' y B)" "?T A X B Y y = Some (KConn domain' b Y)" for A X B Y
    using assms by (auto simp: two_streams_def)
  have upd: "(?T A X B Y)(a \<mapsto> KConn domain x A', y \<mapsto> KConn domain' b Y') = ?T A' X B Y'"
    "(?T A X B Y)(b \<mapsto> KConn domain' y B', x \<mapsto> KConn domain a X') = ?T A X' B' Y" for A X B Y A' X' B' Y'
    using assms by (auto simp: two_streams_def fun_eq_iff)
  show "wired (?T A X B Y) [(a, b), (b, a)]"
    using assms T [of A X B Y] by (auto simp: wired_def established_def peer_def)
  have "forward (a, b) (?T A X B Y) = ?T (drop BUFFER_SIZE A) X B (Y @ take BUFFER_SIZE A)"
    using forward_eq [OF T(1,3,4) [of A X B Y]] assms upd(1) by auto
  moreover have "forward (b, a) (?T A' X B Y') = ?T A' (X @ take BUFFER_SIZE B) (drop BUFFER_SIZE B) Y'" for A' Y'
    using forward_eq [OF T(3,1,2) [of A' X B Y']] assms upd(2) by auto
  ultimately show "fold forward [(a, b), (b, a)] (?T A X B Y) =
      ?T (drop BUFFER_SIZE A) (X @ take BUFFER_SIZE B) (drop BUFFER_SIZE B) (Y @ take BUFFER_SIZE A)" by simp
qed

lemma copying_turns:
  assumes k: "k_poll P net" "k_read P net" "k_writev P net" and d: "distinct [a, x, b, y]" and timeout: "0 \<le> timeout"
    and fd_of: "fd_of h = a" "fd_of h' = b"
    and "relaying net fd_of [(h, h'), (h', h)] (two_streams K domain a x domain' b y A X B Y) s"
  shows "\<exists>rs t. turns P (relay_client P) timeout n s = Some (rs, t) \<and> use_count (proc t) = use_count (proc s) \<and>
    relaying net fd_of [(h, h'), (h', h)] (two_streams K domain a x domain' b y (drop (n * BUFFER_SIZE) A) (X @ take (n * BUFFER_SIZE) B)
      (drop (n * BUFFER_SIZE) B) (Y @ take (n * BUFFER_SIZE) A)) t"
  using assms(8)
proof (induction n arbitrary: s A X B Y)
  case 0
  then show ?case by simp
next
  case (Suc n)
  let ?T = "two_streams K domain a x domain' b y"
  have links: "fd_links fd_of [(h, h'), (h', h)] = [(a, b), (b, a)]" by (simp add: fd_links_def fd_of)
  obtain r t where t: "wait_next_event P (relay_client P) timeout s = Some (Inr r, t)" "use_count (proc t) = use_count (proc s)"
    "relaying net fd_of [(h, h'), (h', h)] (?T (drop BUFFER_SIZE A) (X @ take BUFFER_SIZE B) (drop BUFFER_SIZE B) (Y @ take BUFFER_SIZE A)) t"
    using relay_turn [OF k Suc.prems _ _ timeout, unfolded links two_streams_turn(2) [OF d], OF two_streams_turn(1) [OF d]] by auto
  have more: "take BUFFER_SIZE Z @ take (n * BUFFER_SIZE) (drop BUFFER_SIZE Z) = take (Suc n * BUFFER_SIZE) Z" for Z :: bytes
    by (simp add: take_add)
  from Suc.IH [OF t(3)] t(1,2) show ?case by (force simp: more add.commute)
qed

subsection \<open>An executable kernel\<close>

definition lo_poll :: "pollfd list \<Rightarrow> int \<Rightarrow> lo_world \<Rightarrow> (sysret \<times> pollfd list) \<times> lo_world" where
  "lo_poll ps timeout W =
     ((returns (int (length (filter (\<lambda>p. pfd_revents (poll_report (lo_net W) p) \<noteq> 0) ps))), map (poll_report (lo_net W)) ps), W)"

definition relay_kernel :: "lo_world host_kernel" where
  "relay_kernel = (lo_kernel False)\<lparr>sys_poll := lo_poll\<rparr>"

lemma relay_kernel_ok: "k_poll relay_kernel lo_net" "k_read relay_kernel lo_net" "k_writev relay_kernel lo_net"
  using lo_read_ok [of False] lo_writev_ok [of False]
  by (simp_all add: k_poll_def k_read_def k_writev_def relay_kernel_def lo_poll_def)

text \<open>Two pairs of connected sockets, 0 with 2 and 1 with 3; four bytes wait at 0, two at 1, and one more at 3.\<close>

definition relay_table :: lo_world where
  "relay_table = [Some (KConn 1 2 [1, 2, 3, 4]), Some (KConn 1 3 [5, 6]), Some (KConn 1 0 []), Some (KConn 1 1 [9])]"

definition relay_loop :: "(lo_world, relay) EventLoop" where
  "relay_loop =
     (let p = snd (FileDescriptor_new 1 (snd (FileDescriptor_new 0 (init_process relay_table)))) in
      snd (add_rule 1 In (Copy 1 0) Skip Skip (snd (add_rule 0 In (Copy 0 1) Skip Skip \<lparr>rules = [], proc = p\<rparr>))))"

lemma relay_loop_simps:
  "rules relay_loop = [relay_rule 0 1, relay_rule 1 0]" "world (proc relay_loop) = relay_table"
  "fd_flags (proc relay_loop) 0 = Some (0, False, False)" "fd_flags (proc relay_loop) 1 = Some (1, False, False)"
  by (simp_all add: relay_loop_def Let_def FileDescriptor_new_eq init_process_def add_rule_eq fd_flags_def relay_rule_def)

lemma relay_loop_inv: "process_inv (proc relay_loop)"
proof -
  have "process_inv (snd (FileDescriptor_new 1 (snd (FileDescriptor_new 0 (init_process relay_table)))))"
    by (intro keepsD [OF keeps_new] process_inv_init)
  then have "loop_inv relay_loop"
    unfolding relay_loop_def Let_def by (intro keepsD [OF add_rule_inv]) (simp add: loop_inv_def)
  then show ?thesis by (simp add: loop_inv_def)
qed

lemma relay_table_net: "lo_net relay_table = two_streams (\<lambda>_. None) 1 0 2 1 1 3 [1, 2, 3, 4] [] [5, 6] [9]"
proof
  fix fd :: int
  have "fd \<in> {0, 1, 2, 3} \<or> fd < 0 \<or> 4 \<le> fd" by auto
  then show "lo_net relay_table fd = two_streams (\<lambda>_. None) 1 0 2 1 1 3 [1, 2, 3, 4] [] [5, 6] [9] fd"
    by (auto simp: lo_net_def relay_table_def two_streams_def nth_Cons' nat_less_iff)
qed

subsection \<open>Property\<close>

text \<open>
  C8: An event loop that copies between two connected streams in both directions, on a kernel that
  behaves as documented: whatever amount of data waits at either end, enough turns of
  \<^verbatim>\<open>wait_next_event\<close> (each \<^verbatim>\<open>read\<close> takes at most \<^verbatim>\<open>BUFFER_SIZE\<close> bytes) deliver all of it to the other
  side, in order and behind what was there, however the kernel splits the writes; nothing else in the kernel
  changes, no turn throws, the rules and the use counts stay, and the next turn times out.
\<close>

theorem loop_copies_both_ways:
  assumes "k_poll P net" and "k_read P net" and "k_writev P net" and "0 \<le> timeout_ms"
    and "rules s = [relay_rule h h', relay_rule h' h]" and "process_inv (proc s)" and "h \<noteq> h'"
    and "fd_flags (proc s) h = Some (a, False, False)" and "fd_flags (proc s) h' = Some (b, False, False)"
    and "distinct [a, x, b, y]"
    and "net (world (proc s)) = two_streams K domain a x domain' b y A X B Y"
    and "length A \<le> n * BUFFER_SIZE" and "length B \<le> n * BUFFER_SIZE"
  shows "\<exists>rs t u. turns P (relay_client P) timeout_ms n s = Some (rs, t) \<and>
    net (world (proc t)) = two_streams K domain a x domain' b y [] (X @ B) [] (Y @ A) \<and>
    rules t = rules s \<and> process_inv (proc t) \<and> use_count (proc t) = use_count (proc s) \<and>
    wait_next_event P (relay_client P) timeout_ms t = Some (Inr Timeout, u)"
proof -
  let ?fd = "\<lambda>k. if k = h then a else b" and ?T = "two_streams K domain a x domain' b y" and ?L = "[(h, h'), (h', h)]"
  have fd: "?fd h = a" "?fd h' = b" using assms(7) by simp_all
  have "relaying net ?fd ?L (?T A X B Y) s" using assms(5-9,11) by (auto simp: relaying_def)
  from copying_turns [OF assms(1-3,10,4) fd this, of n] assms(12,13) obtain rs t where
    t: "turns P (relay_client P) timeout_ms n s = Some (rs, t)" "use_count (proc t) = use_count (proc s)"
    "relaying net ?fd ?L (?T [] (X @ B) [] (Y @ A)) t" by auto
  have idle: "inbox (?T [] X' [] Y') a = []" "inbox (?T [] X' [] Y') b = []" for X' Y'
    using assms(10) by (auto simp: two_streams_def inbox_def)
  have "fd_links ?fd ?L = [(a, b), (b, a)]" using assms(7) by (simp add: fd_links_def)
  then have "wired (?T [] (X @ B) [] (Y @ A)) (fd_links ?fd ?L)" using two_streams_turn(1) [OF assms(10)] by simp
  from relay_turn [OF assms(1-3) t(3) this _ assms(4)] idle assms(7)
  obtain u where "wait_next_event P (relay_client P) timeout_ms t = Some (Inr Timeout, u)" by auto
  with t assms(5) show ?thesis by (auto simp: relaying_def)
qed

theorem loop_copies_both_ways_witness:
  "\<exists>rs t. turns relay_kernel (relay_client relay_kernel) 10 1 relay_loop = Some (rs, t) \<and>
     lo_net (world (proc t)) = two_streams (\<lambda>_. None) 1 0 2 1 1 3 [] [5, 6] [] [9, 1, 2, 3, 4]"
proof -
  have net: "lo_net (world (proc relay_loop)) = two_streams (\<lambda>_. None) 1 0 2 1 1 3 [1, 2, 3, 4] [] [5, 6] [9]"
    by (simp add: relay_loop_simps(2) relay_table_net)
  from loop_copies_both_ways [OF relay_kernel_ok _ relay_loop_simps(1) relay_loop_inv _ relay_loop_simps(3,4) _ net, of 10 1]
  show ?thesis by (auto simp: BUFFER_SIZE_def)
qed

end
