(* ===== verification/Loop_Drain.thy ===== *)
theory Loop_Drain
  imports Loop_Relay
begin

text \<open>
  The end of a stream through the event loop, on the client of theory \<open>Loop_Relay\<close>: the peer of the descriptor that a rule
  reads has closed its end, with data still on the way. The data is copied, then \<^verbatim>\<open>read\<close> finds the end of the
  stream, then the loop drops the rule, and with its last rule gone it exits.
\<close>

subsection \<open>A stream whose peer has closed\<close>

text \<open>
  \<^verbatim>\<open>read\<close> returns 0 when nothing is left. \<^verbatim>\<open>poll\<close> reports that the descriptor can be read, and perhaps that the peer hung up; hanging up
  does not discard what is on the way.
\<close>

definition k_read_eof :: "('w, 'z) posix_scheme \<Rightarrow> ('w \<Rightarrow> sockets_table) \<Rightarrow> bool" where
  "k_read_eof P net \<longleftrightarrow>
     (\<forall>a x domain buf W. net W a = Some (KConn domain x []) \<and> net W x = None \<longrightarrow>
        (\<exists>W' buf'. sys_read P a buf W = ((returns 0, buf'), W') \<and> length buf' = length buf \<and> net W' = net W))"

definition k_poll_closed :: "('w, 'z) posix_scheme \<Rightarrow> ('w \<Rightarrow> sockets_table) \<Rightarrow> bool" where
  "k_poll_closed P net \<longleftrightarrow>
     (\<forall>a x domain X timeout W. net W a = Some (KConn domain x X) \<and> net W x = None \<longrightarrow>
        (\<exists>r W'. sys_poll P [\<lparr>pfd_fd = a, pfd_events = POLLIN, pfd_revents = 0\<rparr>] timeout W =
             ((returns 1, [\<lparr>pfd_fd = a, pfd_events = POLLIN, pfd_revents = r\<rparr>]), W') \<and>
           r \<in> {POLLIN, POLLIN OR POLLHUP} \<and> net W' = net W))"

text \<open>The table: \<open>a\<close> with the data \<open>X\<close>, its peer \<open>x\<close> closed; and the connection of \<open>b\<close> and \<open>y\<close>, where \<open>Y\<close> waits at \<open>y\<close>.\<close>

definition half_open :: "sockets_table \<Rightarrow> int \<Rightarrow> int \<Rightarrow> int \<Rightarrow> int \<Rightarrow> int \<Rightarrow> int \<Rightarrow> bytes \<Rightarrow> bytes \<Rightarrow> bytes \<Rightarrow> sockets_table" where
  "half_open K domain a x domain' b y X Z Y =
     K(x := None, a \<mapsto> KConn domain x X, b \<mapsto> KConn domain' y Z, y \<mapsto> KConn domain' b Y)"

lemma half_open_simps:
  assumes "distinct [a, x, b, y]"
  shows "half_open K domain a x domain' b y X Z Y a = Some (KConn domain x X)"
    and "half_open K domain a x domain' b y X Z Y x = None"
    and "half_open K domain a x domain' b y X Z Y b = Some (KConn domain' y Z)"
    and "half_open K domain a x domain' b y X Z Y y = Some (KConn domain' b Y)"
    and "(half_open K domain a x domain' b y X Z Y)(a \<mapsto> KConn domain x X') = half_open K domain a x domain' b y X' Z Y"
    and "(half_open K domain a x domain' b y X Z Y)(y \<mapsto> KConn domain' b Y') = half_open K domain a x domain' b y X Z Y'"
  using assms by (auto simp: half_open_def fun_eq_iff)

subsection \<open>A chunk\<close>

text \<open>\<^verbatim>\<open>read\<close> on such a stream: a chunk of what is left, or the end.\<close>

lemma read_closed:
  assumes k: "k_read P net" "k_read_eof P net" and inv: "process_inv s" and w: "wrappers s h = Some w"
    and table: "net (world s) (w_fd w) = Some (KConn domain x X)" "net (world s) x = None"
  shows "\<exists>W. let t = s\<lparr>world := W, wrappers := (wrappers s)(h \<mapsto> w\<lparr>w_eof := w_eof w \<or> X = [], w_read_count := w_read_count w + 1\<rparr>)\<rparr> in
    FileDescriptor_read P h default_limit s = (Inr (take BUFFER_SIZE X), t) \<and> process_inv t \<and>
    net W = (net (world s))(w_fd w \<mapsto> KConn domain x (drop BUFFER_SIZE X))"
proof (cases "X = []")
  case False
  have limit: "BUFFER_SIZE \<le> default_limit" by (simp add: BUFFER_SIZE_def default_limit_def)
  from read_stream [OF k(1) inv w limit table(1) False] False show ?thesis by (auto simp: Let_def)
next
  case True
  let ?buf = "replicate BUFFER_SIZE (0 :: byte)"
  have positive: "0 < default_limit" by (simp add: default_limit_def)
  have min: "min BUFFER_SIZE default_limit = BUFFER_SIZE" by (simp add: BUFFER_SIZE_def default_limit_def)
  obtain W buf where W: "sys_read P (w_fd w) ?buf (world s) = ((returns 0, buf), W)" "length buf = BUFFER_SIZE" "net W = net (world s)"
    using k(2) [unfolded k_read_eof_def, rule_format, of "world s" "w_fd w" domain x ?buf] table True by auto
  let ?t = "s\<lparr>world := W, wrappers := (wrappers s)(h \<mapsto> w\<lparr>w_eof := True, w_read_count := w_read_count w + 1\<rparr>)\<rparr>"
  have read: "FileDescriptor_read P h default_limit s = (Inr [], ?t)"
    unfolding FileDescriptor_read_def
    by (subst read_into_eq [OF w, where r = "returns 0" and buf = buf and W = W])
      (simp_all add: min W(1,2) read_answer_def positive)
  have "process_inv ?t" using keepsD [OF fd_read.oper_inv inv, of "[]" P h default_limit] read by (simp add: FileDescriptor_read_def)
  moreover have "net W = (net (world s))(w_fd w \<mapsto> KConn domain x [])" using W(3) table(1) True by (simp add: fun_upd_idem)
  ultimately show ?thesis using True read by (intro exI [of _ W]) (simp add: Let_def)
qed

definition draining ::
  "('w \<Rightarrow> sockets_table) \<Rightarrow> handle \<Rightarrow> handle \<Rightarrow> int \<Rightarrow> int \<Rightarrow> bool \<Rightarrow> sockets_table \<Rightarrow> (handle \<Rightarrow> nat) \<Rightarrow> ('w, relay) EventLoop \<Rightarrow> bool" where
  "draining net h h' a b ended K uses s \<longleftrightarrow>
     rules s = [relay_rule h h'] \<and> process_inv (proc s) \<and> h \<noteq> h' \<and> use_count (proc s) = uses \<and> net (world (proc s)) = K \<and>
     fd_flags (proc s) h = Some (a, ended, False) \<and> (\<exists>e. fd_flags (proc s) h' = Some (b, e, False))"

lemma copy_closed:
  assumes k: "k_read P net" "k_read_eof P net" "k_writev P net" and d: "distinct [a, x, b, y]"
    and s: "draining net h h' a b False (half_open K domain a x domain' b y X Z Y) uses s" and w: "wrappers (proc s) h = Some w"
  shows "\<exists>p w'. copy_chunk P h h' (proc s) = (Inr (), p) \<and> wrappers p h = Some w' \<and> w_read_count w' = w_read_count w + 1 \<and>
    draining net h h' a b (X = []) (half_open K domain a x domain' b y (drop BUFFER_SIZE X) Z (Y @ take BUFFER_SIZE X)) uses (s\<lparr>proc := p\<rparr>)"
proof -
  let ?T = "half_open K domain a x domain' b y" and ?w = "w\<lparr>w_eof := X = [], w_read_count := w_read_count w + 1\<rparr>"
  note T = half_open_simps [OF d, of K domain domain']
  have s': "process_inv (proc s)" "h \<noteq> h'" "net (world (proc s)) = ?T X Z Y" "w_fd w = a" "\<not> w_eof w" "\<not> w_closed w"
    using s w by (auto simp: draining_def fd_flags_def)
  from s obtain e where h': "fd_flags (proc s) h' = Some (b, e, False)" by (auto simp: draining_def)
  have w_eq: "w\<lparr>w_eof := w_eof w \<or> X = [], w_read_count := w_read_count w + 1\<rparr> = ?w" using s'(5) by simp
  obtain W where W: "FileDescriptor_read P h default_limit (proc s) = (Inr (take BUFFER_SIZE X), (proc s)\<lparr>world := W, wrappers := (wrappers (proc s))(h \<mapsto> ?w)\<rparr>)"
    "process_inv ((proc s)\<lparr>world := W, wrappers := (wrappers (proc s))(h \<mapsto> ?w)\<rparr>)" "net W = ?T (drop BUFFER_SIZE X) Z Y"
    using read_closed [OF k(1,2) s'(1) w, of domain x X] by (auto simp: s'(3,4) T w_eq Let_def)
  let ?p = "(proc s)\<lparr>world := W, wrappers := (wrappers (proc s))(h \<mapsto> ?w)\<rparr>"
  have flags: "fd_flags ?p h = Some (a, X = [], False)" "fd_flags ?p h' = Some (b, e, False)"
    using s'(2,4,6) h' by (simp_all add: fd_flags_def)
  have "net (world ?p) b = Some (KConn domain' y Z)" "net (world ?p) y = Some (KConn domain' b Y)" "b \<noteq> y"
    using W(3) T d by simp_all
  from write_stream [OF k(3) W(2) fd_flags_open [OF flags(2)] this chunk_fits] obtain q where
    q: "FileDescriptor_write_string P h' (take BUFFER_SIZE X) True ?p = (Inr (length (take BUFFER_SIZE X)), q)" "process_inv q"
    "use_count q = use_count ?p" "fd_view q = fd_view ?p" "net (world q) = (net (world ?p))(y \<mapsto> KConn domain' b (Y @ take BUFFER_SIZE X))"
    by blast
  have "fd_flags q = fd_flags ?p" using q(4) by (simp add: fd_flags_view fun_eq_iff)
  then have "draining net h h' a b (X = []) (?T (drop BUFFER_SIZE X) Z (Y @ take BUFFER_SIZE X)) uses (s\<lparr>proc := q\<rparr>)"
    using s q(2,3,5) W(3) flags s'(2) T(6) by (simp add: draining_def)
  moreover have "fd_view q h = Some (?w\<lparr>w_write_count := 0\<rparr>)" using q(4) by (simp add: fd_view_def)
  then obtain w' where "wrappers q h = Some w'" "w_read_count w' = w_read_count w + 1"
    by (auto dest!: fd_view_Some dest: arg_cong [where f = w_read_count])
  moreover have "copy_chunk P h h' (proc s) = (Inr (), q)" using W(1) q(1) by (simp add: copy_chunk_def bnd_Inr ret_def)
  ultimately show ?thesis by blast
qed

subsection \<open>The turns\<close>

lemma draining_turn:
  assumes k: "k_read P net" "k_read_eof P net" "k_writev P net" "k_poll_closed P net" and d: "distinct [a, x, b, y]"
    and s: "draining net h h' a b False (half_open K domain a x domain' b y X Z Y) uses s"
  shows "\<exists>t. wait_next_event P (relay_client P) timeout s = Some (Inr Success, t) \<and>
    draining net h h' a b (X = []) (half_open K domain a x domain' b y (drop BUFFER_SIZE X) Z (Y @ take BUFFER_SIZE X)) uses t"
proof -
  let ?T = "half_open K domain a x domain' b y" and ?entry = "\<lambda>r. \<lparr>pfd_fd = a, pfd_events = POLLIN, pfd_revents = r\<rparr>"
  note T = half_open_simps [OF d, of K domain domain']
  from s obtain w where w: "rules s = [relay_rule h h']" "wrappers (proc s) h = Some w" "w_fd w = a" "\<not> w_eof w" "\<not> w_closed w"
    "net (world (proc s)) = ?T X Z Y" by (auto simp: draining_def fd_flags_def)
  have "setup_step P (relay_client P) 0 [] False s = (Inr (1, [?entry 0], True), s)"
    using w by (subst setup_step_eq [where w = w])
      (simp_all add: relay_rule_def defunct_def relay_client_def default_interest_def bnd_Inr ret_def on_proc_id accessor_eq poll_entry_def)
  then have set_up: "setup_loop P (relay_client P) 0 [] False s = Some (Inr ([?entry 0], True), s)"
    using w(1) setup_loop_next [of 0 s P "relay_client P" "[]" False 1 "[?entry 0]" True s] by (simp add: setup_loop.simps [of P _ "Suc 0"])
  obtain r W where W: "sys_poll P [?entry 0] timeout (world (proc s)) = ((returns 1, [?entry r]), W)"
    "r \<in> {POLLIN, POLLIN OR POLLHUP}" "net W = ?T X Z Y"
    using k(4) [unfolded k_poll_closed_def, rule_format, of "world (proc s)" a domain x X timeout] w(6) T(1,2) by auto
  let ?s = "s\<lparr>proc := (proc s)\<lparr>world := W\<rparr>\<rparr>"
  have s': "draining net h h' a b False (?T X Z Y) uses ?s" using s W(3) by (auto simp: draining_def process_inv_def fd_flags_def)
  obtain p w' where p: "copy_chunk P h h' (proc ?s) = (Inr (), p)" "wrappers p h = Some w'" "w_read_count w' = w_read_count w + 1"
    "draining net h h' a b (X = []) (?T (drop BUFFER_SIZE X) Z (Y @ take BUFFER_SIZE X)) uses (?s\<lparr>proc := p\<rparr>)"
    using copy_closed [OF k(1-3) d s', of w] w(2) by auto
  let ?t = "?s\<lparr>proc := p\<rparr>"
  have ready: "\<not> poll_failed (?entry r)" "\<not> hung_up (?entry r)" "poll_is_ready (?entry r)"
    using W(2) by (auto simp: poll_failed_def hung_up_def poll_is_ready_def poll_defs)
  have "serve_rule (relay_client P) (relay_rule h h') ?s = (Inr (), ?t)"
    using w(2) p(1-3)
    by (simp add: serve_rule_def bnd_Inr service_count_eq [where w = w] service_count_eq [where w = w'] relay_rule_def wrapper_count_def
        relay_client_def on_proc_eq ret_def)
  then have "results_step P (relay_client P) 0 (?entry r) ?s = (Inr 1, ?t)"
    using w(1) ready by (simp add: results_step_eq bnd_Inr ret_def)
  then have "results_loop P (relay_client P) 0 [?entry r] ?s = (Inr (), ?t)"
    using w(1) results_loop_next [of 0 ?s P "relay_client P" "?entry r" 1 ?t "[]"] by (simp add: results_loop_stop)
  then have "wait_next_event P (relay_client P) timeout s = Some (Inr Success, ?t)"
    by (simp add: wait_next_event_def set_up poll_and_serve_eq [OF W(1)] bnd_Inr ret_def Let_def)
  with p(4) show ?thesis by blast
qed

lemma ended_turn:
  assumes s: "draining net h h' a b True K uses s" and uses: "1 < uses h"
  shows "\<exists>t. wait_next_event P (relay_client P) timeout s = Some (Inr Exit, t) \<and> rules t = [] \<and> process_inv (proc t) \<and>
    use_count (proc t) = uses(h := uses h - 1) \<and> wrappers (proc t) = wrappers (proc s) \<and> world (proc t) = world (proc s)"
proof -
  from s obtain w where w: "rules s = [relay_rule h h']" "wrappers (proc s) h = Some w" "w_eof w" "use_count (proc s) = uses" "process_inv (proc s)"
    by (auto simp: draining_def fd_flags_def)
  let ?p = "(proc s)\<lparr>use_count := uses(h := uses h - 1)\<rparr>" and ?t = "s\<lparr>rules := [], proc := (proc s)\<lparr>use_count := uses(h := uses h - 1)\<rparr>\<rparr>"
  have destroy: "FileDescriptor_destructor P h (proc s) = (Inr (), ?p)" using destructor_shared [OF w(2), of P] w(4) uses by simp
  then have inv: "process_inv ?p" using keepsD [OF keeps_destructor w(5), of P h] by simp
  have "cancel_rule P (relay_client P) 0 (relay_rule h h') s = (Inr (), ?t)"
    using w(1) destroy by (simp add: cancel_rule_def relay_client_def relay_rule_def default_cancel_def bnd_Inr ret_def erase_rule_eq on_proc_eq)
  then have "setup_step P (relay_client P) 0 [] False s = (Inr (0, [], False), ?t)"
    using w(1-3) by (subst setup_step_eq [where w = w]) (simp_all add: relay_rule_def defunct_def bnd_Inr ret_def)
  then have "setup_loop P (relay_client P) 0 [] False s = Some (Inr ([], False), ?t)"
    using w(1) setup_loop_next [of 0 s P "relay_client P" "[]" False 0 "[]" False ?t] by (simp add: setup_loop.simps [of P _ 0])
  then have "wait_next_event P (relay_client P) timeout s = Some (Inr Exit, ?t)" by (simp add: wait_next_event_def ret_def)
  with inv show ?thesis by (intro exI [of _ ?t]) simp
qed

text \<open>The number of chunks of some data.\<close>

definition chunks :: "bytes \<Rightarrow> nat" where
  "chunks X = (length X + (BUFFER_SIZE - 1)) div BUFFER_SIZE"

lemma div_chunk:
  fixes n B :: nat
  assumes "0 < B" and "0 < n"
  shows "(n + (B - 1)) div B = Suc ((n - B + (B - 1)) div B)"
proof -
  have "n + (B - 1) = B + (n - 1)" using assms by arith
  moreover have "(B + (n - 1)) div B = Suc ((n - 1) div B)" using assms(1) by (simp add: div_add_self1)
  ultimately have "(n + (B - 1)) div B = Suc ((n - 1) div B)" by (simp only:)
  moreover have "(n - 1) div B = (n - B + (B - 1)) div B"
  proof (cases "n \<le> B")
    case True
    then have "n - 1 < B" "n - B + (B - 1) < B" using assms by arith+
    then show ?thesis by simp
  next
    case False
    then have "n - B + (B - 1) = n - 1" using assms by arith
    then show ?thesis by simp
  qed
  ultimately show ?thesis by simp
qed

lemma chunks_simps: "chunks [] = 0" "X \<noteq> [] \<Longrightarrow> chunks X = Suc (chunks (drop BUFFER_SIZE X))"
proof -
  have B: "0 < BUFFER_SIZE" by (simp add: BUFFER_SIZE_def)
  then show "chunks [] = 0" by (simp add: chunks_def)
  assume "X \<noteq> []"
  then have X: "0 < length X" by simp
  show "chunks X = Suc (chunks (drop BUFFER_SIZE X))" unfolding chunks_def length_drop by (rule div_chunk [OF B X])
qed

lemma draining_turns:
  assumes k: "k_read P net" "k_read_eof P net" "k_writev P net" "k_poll_closed P net" and d: "distinct [a, x, b, y]" and uses: "1 < uses h"
    and "draining net h h' a b False (half_open K domain a x domain' b y X Z Y) uses s"
  shows "\<exists>t. turns P (relay_client P) timeout (chunks X + 2) s = Some (replicate (chunks X + 1) Success @ [Exit], t) \<and>
    rules t = [] \<and> process_inv (proc t) \<and> use_count (proc t) = uses(h := uses h - 1) \<and>
    net (world (proc t)) = half_open K domain a x domain' b y [] Z (Y @ X) \<and> fd_flags (proc t) h = Some (a, True, False)"
  using assms(7)
proof (induction "chunks X" arbitrary: X Y s)
  case 0
  then have X: "X = []" by (metis chunks_simps(2) Zero_not_Suc)
  obtain t where t: "wait_next_event P (relay_client P) timeout s = Some (Inr Success, t)"
    "draining net h h' a b True (half_open K domain a x domain' b y [] Z Y) uses t"
    using draining_turn [OF k d 0(2), of timeout] X by auto
  from ended_turn [OF t(2) uses, of P timeout] obtain u where
    u: "wait_next_event P (relay_client P) timeout t = Some (Inr Exit, u)" "rules u = []" "process_inv (proc u)"
    "use_count (proc u) = uses(h := uses h - 1)" "wrappers (proc u) = wrappers (proc t)" "world (proc u) = world (proc t)" by blast
  have "fd_flags (proc u) h = Some (a, True, False)" "net (world (proc u)) = half_open K domain a x domain' b y [] Z Y"
    using t(2) u(5,6) by (simp_all add: draining_def fd_flags_def)
  moreover have "turns P (relay_client P) timeout (0 + 2) s = Some (replicate (0 + 1) Success @ [Exit], u)"
    using t(1) u(1) by (simp add: numeral_2_eq_2)
  ultimately show ?case unfolding X chunks_simps(1) using u(2-4) by (intro exI [of _ u] conjI) simp_all
next
  case (Suc n)
  then have X: "X \<noteq> []" by (metis chunks_simps(1) Zero_not_Suc)
  have n: "n = chunks (drop BUFFER_SIZE X)" using Suc(2) chunks_simps(2) [OF X] by (metis Suc_inject)
  obtain t where t: "wait_next_event P (relay_client P) timeout s = Some (Inr Success, t)"
    "draining net h h' a b False (half_open K domain a x domain' b y (drop BUFFER_SIZE X) Z (Y @ take BUFFER_SIZE X)) uses t"
    using draining_turn [OF k d Suc(3), of timeout] X by auto
  obtain u where u: "turns P (relay_client P) timeout (chunks (drop BUFFER_SIZE X) + 2) t =
      Some (replicate (chunks (drop BUFFER_SIZE X) + 1) Success @ [Exit], u)"
    "rules u = []" "process_inv (proc u)" "use_count (proc u) = uses(h := uses h - 1)"
    "net (world (proc u)) = half_open K domain a x domain' b y [] Z ((Y @ take BUFFER_SIZE X) @ drop BUFFER_SIZE X)"
    "fd_flags (proc u) h = Some (a, True, False)"
    using Suc(1) [OF n t(2)] by blast
  have "turns P (relay_client P) timeout (Suc (m + 2)) s = Some (replicate (Suc m + 1) Success @ [Exit], u)"
    if "turns P (relay_client P) timeout (m + 2) t = Some (replicate (m + 1) Success @ [Exit], u)" for m
    using that t(1) by simp
  from this [OF u(1)] u(2-6) show ?case unfolding chunks_simps(2) [OF X] by (intro exI [of _ u]) simp
qed

subsection \<open>Property\<close>

text \<open>
  C9: The end of a stream. A rule copies from a stream whose peer has closed, with any amount of data still to be read, to another
  connection. The turns of the loop are exactly one for each chunk of the data (each \<^verbatim>\<open>read\<close> takes at most \<^verbatim>\<open>BUFFER_SIZE\<close> bytes), one in which
  \<^verbatim>\<open>read\<close> finds the end and sets the EOF flag, and one in which the loop drops the rule, gives up its use of the
  descriptor and, since no rule is left, returns \<^verbatim>\<open>Exit\<close>. All of the data arrives, in order and behind what was there, also
  when the kernel reports the hang-up together with the data.
\<close>

theorem loop_drains_closed_stream:
  assumes "k_poll_closed P net" and "k_read P net" and "k_read_eof P net" and "k_writev P net"
    and "rules s = [relay_rule h h']" and "process_inv (proc s)" and "h \<noteq> h'" and "1 < use_count (proc s) h"
    and "fd_flags (proc s) h = Some (a, False, False)" and "fd_flags (proc s) h' = Some (b, e, False)"
    and "distinct [a, x, b, y]" and "net (world (proc s)) = half_open K domain a x domain' b y X Z Y"
  shows "\<exists>t. turns P (relay_client P) timeout_ms (chunks X + 2) s = Some (replicate (chunks X + 1) Success @ [Exit], t) \<and>
    net (world (proc t)) = half_open K domain a x domain' b y [] Z (Y @ X) \<and>
    rules t = [] \<and> process_inv (proc t) \<and> use_count (proc t) = (use_count (proc s))(h := use_count (proc s) h - 1) \<and>
    fd_flags (proc t) h = Some (a, True, False)"
proof -
  have "draining net h h' a b False (half_open K domain a x domain' b y X Z Y) (use_count (proc s)) s"
    using assms(5-7,9,10,12) by (simp add: draining_def)
  from draining_turns [OF assms(2-4,1,11,8) this] show ?thesis by blast
qed

subsection \<open>Witness\<close>

text \<open>A kernel that reports a stream whose peer is gone, and every stream with data, as readable.\<close>

definition drain_poll :: "pollfd list \<Rightarrow> int \<Rightarrow> lo_world \<Rightarrow> (sysret \<times> pollfd list) \<times> lo_world" where
  "drain_poll ps timeout W =
     (let report = (\<lambda>p. p\<lparr>pfd_revents :=
        (case lo_net W (pfd_fd p) of
           Some (KConn _ x X) \<Rightarrow> if lo_net W x = None then POLLIN OR POLLHUP else if X \<noteq> [] then POLLIN else 0
         | _ \<Rightarrow> 0)\<rparr>) in
      ((returns (int (length (filter (\<lambda>p. pfd_revents (report p) \<noteq> 0) ps))), map report ps), W))"

definition drain_kernel :: "lo_world host_kernel" where
  "drain_kernel = (lo_kernel False)\<lparr>sys_poll := drain_poll\<rparr>"

lemma drain_kernel_ok:
  "k_poll_closed drain_kernel lo_net" "k_read drain_kernel lo_net" "k_read_eof drain_kernel lo_net" "k_writev drain_kernel lo_net"
proof -
  have "POLLIN OR POLLHUP \<noteq> 0" by (simp add: poll_defs)
  then show "k_poll_closed drain_kernel lo_net"
    by (simp add: k_poll_closed_def drain_kernel_def drain_poll_def Let_def)
  show "k_read drain_kernel lo_net" "k_writev drain_kernel lo_net"
    using lo_read_ok [of False] lo_writev_ok [of False] by (simp_all add: k_read_def k_writev_def drain_kernel_def)
  show "k_read_eof drain_kernel lo_net"
    by (simp add: k_read_eof_def drain_kernel_def lo_kernel_simps lo_read_def lo_net_set fun_upd_idem)
qed

text \<open>Socket 0, its peer 2 closed, with three bytes still to be read; and the pair 1 and 3, one byte waiting at 3.\<close>

definition drain_table :: lo_world where
  "drain_table = [Some (KConn 1 2 [1, 2, 3]), Some (KConn 1 3 []), None, Some (KConn 1 1 [9])]"

definition drain_loop :: "(lo_world, relay) EventLoop" where
  "drain_loop =
     (let p = snd (FileDescriptor_new 1 (snd (FileDescriptor_new 0 (init_process drain_table)))) in
      snd (add_rule 0 In (Copy 0 1) Skip Skip \<lparr>rules = [], proc = p\<rparr>))"

lemma drain_loop_simps:
  "rules drain_loop = [relay_rule 0 1]" "world (proc drain_loop) = drain_table" "use_count (proc drain_loop) 0 = 2"
  "fd_flags (proc drain_loop) 0 = Some (0, False, False)" "fd_flags (proc drain_loop) 1 = Some (1, False, False)"
  by (simp_all add: drain_loop_def Let_def FileDescriptor_new_eq init_process_def add_rule_eq fd_flags_def relay_rule_def)

lemma drain_loop_inv: "process_inv (proc drain_loop)"
proof -
  have "process_inv (snd (FileDescriptor_new 1 (snd (FileDescriptor_new 0 (init_process drain_table)))))"
    by (intro keepsD [OF keeps_new] process_inv_init)
  then have "loop_inv drain_loop"
    unfolding drain_loop_def Let_def by (intro keepsD [OF add_rule_inv]) (simp add: loop_inv_def)
  then show ?thesis by (simp add: loop_inv_def)
qed

lemma drain_table_net: "lo_net drain_table = half_open (\<lambda>_. None) 1 0 2 1 1 3 [1, 2, 3] [] [9]"
proof
  fix fd :: int
  have "fd \<in> {0, 1, 2, 3} \<or> fd < 0 \<or> 4 \<le> fd" by auto
  then show "lo_net drain_table fd = half_open (\<lambda>_. None) 1 0 2 1 1 3 [1, 2, 3] [] [9] fd"
    by (auto simp: lo_net_def drain_table_def half_open_def nth_Cons' nat_less_iff)
qed

theorem loop_drains_closed_stream_witness:
  "\<exists>t. turns drain_kernel (relay_client drain_kernel) 10 3 drain_loop = Some ([Success, Success, Exit], t) \<and>
     lo_net (world (proc t)) = half_open (\<lambda>_. None) 1 0 2 1 1 3 [] [] [9, 1, 2, 3] \<and> use_count (proc t) 0 = 1"
proof -
  have net: "lo_net (world (proc drain_loop)) = half_open (\<lambda>_. None) 1 0 2 1 1 3 [1, 2, 3] [] [9]"
    by (simp add: drain_loop_simps(2) drain_table_net)
  have one: "chunks [1, 2, 3] = 1" by (simp add: chunks_def BUFFER_SIZE_def)
  have two: "(1 :: nat) + 2 = 3" "replicate (1 + 1) Success @ [Exit] = [Success, Success, Exit]" by simp_all
  have "1 < use_count (proc drain_loop) 0" "distinct [0 :: int, 2, 1, 3]" "(0 :: handle) \<noteq> 1" by (simp_all add: drain_loop_simps(3))
  from loop_drains_closed_stream [OF drain_kernel_ok drain_loop_simps(1) drain_loop_inv this(3,1) drain_loop_simps(4,5) this(2) net, of 10]
  show ?thesis unfolding one two by (auto simp: drain_loop_simps(3))
qed

end
