(* ===== verification/Tun.thy ===== *)
theory Tun
  imports File_Descriptor
begin

text \<open>
  \<^verbatim>\<open>util/tun.hh\<close> and \<^verbatim>\<open>util/tun.cc\<close>: the constructor of \<^verbatim>\<open>TunTapFD\<close> and its two subclasses.
  \<^verbatim>\<open>open\<close> and \<^verbatim>\<open>ioctl(TUNSETIFF)\<close> are further fields of the kernel record. The name of the
  interface is an array of \<^verbatim>\<open>IFNAMSIZ\<close> characters.
\<close>

record ifreq =
  ifr_name :: string
  ifr_flags :: uint16

record 'w tun_kernel = "'w posix" +
  sys_open :: "string \<Rightarrow> int \<Rightarrow> 'w \<Rightarrow> sysret \<times> 'w"
  sys_tunsetiff :: "int \<Rightarrow> ifreq \<Rightarrow> 'w \<Rightarrow> sysret \<times> 'w"

definition CLONEDEV :: string where "CLONEDEV = ''/dev/net/tun''"
definition O_RDWR :: int where "O_RDWR = 2"
definition IFF_TUN :: uint16 where "IFF_TUN = 0x0001"
definition IFF_TAP :: uint16 where "IFF_TAP = 0x0002"
definition IFF_NO_PI :: uint16 where "IFF_NO_PI = 0x1000"
definition IFNAMSIZ :: nat where "IFNAMSIZ = 16"

text \<open>\<^verbatim>\<open>strncpy(dst, src, n)\<close>: the first \<open>n\<close> characters of the C string, and NULs up to \<open>n\<close>; the rest of the array stays.\<close>

definition strncpy :: "string \<Rightarrow> string \<Rightarrow> nat \<Rightarrow> string" where
  "strncpy dst src n =
     (let c = takeWhile (\<lambda>c. c \<noteq> CHR 0x00) src in
      take n c @ replicate (n - length c) (CHR 0x00) @ drop n dst)"

definition tun_request :: "string \<Rightarrow> bool \<Rightarrow> ifreq" where
  "tun_request devname is_tun =
     (let tun_req = \<lparr>ifr_name = replicate IFNAMSIZ (CHR 0x00), ifr_flags = 0\<rparr>;
          tun_req = tun_req\<lparr>ifr_flags := (if is_tun then IFF_TUN else IFF_TAP) OR IFF_NO_PI\<rparr>;
          tun_req = tun_req\<lparr>ifr_name := strncpy (ifr_name tun_req) devname (IFNAMSIZ - 1)\<rparr> in
      tun_req\<lparr>ifr_name := (ifr_name tun_req)[IFNAMSIZ - 1 := CHR 0x00]\<rparr>)"

definition TunTapFD_new :: "('w, 'z) tun_kernel_scheme \<Rightarrow> string \<Rightarrow> bool \<Rightarrow> ('w process, handle) prog" where
  "TunTapFD_new P devname is_tun =
     bnd (syscall (sys_open P CLONEDEV O_RDWR)) (\<lambda>r.
     bnd (lift_result (SystemCall ''open'' (sr_val r) (sr_errno r) 0)) (\<lambda>fd.
     bnd (FileDescriptor_new fd) (\<lambda>h.
     with_base P h
       (bnd (FileDescriptor_fd_num h) (\<lambda>fd.
        bnd (syscall (sys_tunsetiff P fd (tun_request devname is_tun))) (\<lambda>r.
        bnd (lift_result (SystemCall ''ioctl'' (sr_val r) (sr_errno r) 0)) (\<lambda>_.
        ret ())))))))"

definition TunFD_new :: "('w, 'z) tun_kernel_scheme \<Rightarrow> string \<Rightarrow> ('w process, handle) prog" where
  "TunFD_new P devname = TunTapFD_new P devname True"

definition TapFD_new :: "('w, 'z) tun_kernel_scheme \<Rightarrow> string \<Rightarrow> ('w process, handle) prog" where
  "TapFD_new P devname = TunTapFD_new P devname False"

subsection \<open>The request\<close>

lemma strncpy_length: "n \<le> length dst \<Longrightarrow> length (strncpy dst src n) = length dst"
  by (simp add: strncpy_def Let_def)

lemma tun_request_eq:
  "tun_request devname is_tun =
     (let c = take 15 (takeWhile (\<lambda>c. c \<noteq> CHR 0x00) devname) in
      \<lparr>ifr_name = c @ replicate (16 - length c) (CHR 0x00), ifr_flags = (if is_tun then 0x1001 else 0x1002)\<rparr>)"
proof -
  define c where "c = takeWhile (\<lambda>c. c \<noteq> CHR 0x00) devname"
  have suc: "length c \<le> 15 \<Longrightarrow> 16 - length c = Suc (15 - length c)" by simp
  have "strncpy (replicate 16 (CHR 0x00)) devname 15 = take 15 c @ replicate (16 - length (take 15 c)) (CHR 0x00)"
    unfolding strncpy_def c_def [symmetric] Let_def
    by (cases "length c \<le> 15") (auto simp: suc replicate_append_same)
  moreover have "(take 15 c @ replicate (16 - length (take 15 c)) (CHR 0x00))[15 := CHR 0x00] =
      take 15 c @ replicate (16 - length (take 15 c)) (CHR 0x00)"
    by (auto simp: list_update_append min_def intro!: list_update_same_conv [THEN iffD2])
  ultimately show ?thesis
    by (simp add: tun_request_def Let_def IFNAMSIZ_def IFF_TUN_def IFF_TAP_def IFF_NO_PI_def flip: c_def)
qed

lemma tun_request_name:
  "length (ifr_name (tun_request devname is_tun)) = 16 \<and> last (ifr_name (tun_request devname is_tun)) = CHR 0x00 \<and>
   takeWhile (\<lambda>c. c \<noteq> CHR 0x00) (ifr_name (tun_request devname is_tun)) =
     take 15 (takeWhile (\<lambda>c. c \<noteq> CHR 0x00) devname)"
proof -
  define c where "c = take 15 (takeWhile (\<lambda>c. c \<noteq> CHR 0x00) devname)"
  have len: "length c \<le> 15" by (simp add: c_def)
  have "\<forall>x \<in> set c. x \<noteq> CHR 0x00" by (auto simp: c_def dest: in_set_takeD set_takeWhileD)
  then have "takeWhile (\<lambda>c. c \<noteq> CHR 0x00) (c @ replicate (16 - length c) (CHR 0x00)) = c"
    by (simp add: takeWhile_append takeWhile_replicate)
  with len show ?thesis
    by (simp add: tun_request_eq Let_def last_append flip: c_def)
qed

subsection \<open>The constructor\<close>

text \<open>A kernel with the tun device: it hands out descriptor 4 and refuses names that start with \<^verbatim>\<open>x\<close>.\<close>

definition demo_tun :: "demo_world tun_kernel" where
  "demo_tun = posix.extend demo_kernel (tun_kernel.fields
     (\<lambda>path flags W. (\<lparr>sr_val = 4, sr_errno = 0\<rparr>, W))
     (\<lambda>fd req W. (if take 1 (ifr_name req) = ''x'' then \<lparr>sr_val = - 1, sr_errno = 1\<rparr> else \<lparr>sr_val = 0, sr_errno = 0\<rparr>, W)))"

lemma TunTapFD_new_eq:
  assumes "sys_open P ''/dev/net/tun'' 2 (world s) = (ro, W)" and "0 \<le> sr_val ro"
  shows "TunTapFD_new P devname is_tun s =
    bnd (FileDescriptor_new (sr_val ro)) (\<lambda>h. with_base P h
       (bnd (FileDescriptor_fd_num h) (\<lambda>fd.
        bnd (syscall (sys_tunsetiff P fd (tun_request devname is_tun))) (\<lambda>r.
        bnd (lift_result (SystemCall ''ioctl'' (sr_val r) (sr_errno r) 0)) (\<lambda>_.
        ret ()))))) (s\<lparr>world := W\<rparr>)"
  using assms by (simp add: TunTapFD_new_def bnd_Inr syscall_eq SystemCall_def CLONEDEV_def O_RDWR_def)

text \<open>
  C35: Opening a TUN or TAP device: the request names the device by the first 15 characters of
  its name, always NUL-terminated within its 16, with the flag of the demanded kind and
  without packet information; the constructor returns exactly when the kernel accepts the
  request, with one use of a new descriptor, and otherwise throws without leaking the
  descriptor it opened.
\<close>

theorem tun_new_spec:
  assumes inv: "process_inv s"
    and open_tun: "sys_open P ''/dev/net/tun'' 2 (world s) = (ro, W)" "0 \<le> sr_val ro"
    and ioctl: "sys_tunsetiff P (sr_val ro) req W = (ri, W')"
    and req: "req = tun_request devname is_tun"
    and run: "TunTapFD_new P devname is_tun s = (r, t)"
  shows "length (ifr_name req) = 16 \<and> last (ifr_name req) = CHR 0x00 \<and>
    takeWhile (\<lambda>c. c \<noteq> CHR 0x00) (ifr_name req) = take 15 (takeWhile (\<lambda>c. c \<noteq> CHR 0x00) devname) \<and>
    ifr_flags req = (if is_tun then 0x1001 else 0x1002) \<and>
    process_inv t \<and> (is_ok r \<longleftrightarrow> 0 \<le> sr_val ri \<or> sr_errno ri = 0) \<and>
    (case r of Inl e \<Rightarrow> use_count t = use_count s
     | Inr h \<Rightarrow> h = next_handle s \<and> use_count t = (use_count s)(h := 1))"
proof -
  let ?n = "next_handle s"
  let ?body = "bnd (FileDescriptor_fd_num ?n) (\<lambda>fd.
        bnd (syscall (sys_tunsetiff P fd (tun_request devname is_tun))) (\<lambda>r.
        bnd (lift_result (SystemCall ''ioctl'' (sr_val r) (sr_errno r) 0)) (\<lambda>_.
        ret ())))"
  from inv have inv': "process_inv (s\<lparr>world := W\<rparr>)" by (simp add: process_inv_def)
  obtain u where new: "FileDescriptor_new (sr_val ro) (s\<lparr>world := W\<rparr>) = (Inr ?n, u)"
    using open_tun(2) by (simp add: FileDescriptor_new_eq)
  then obtain w where u: "use_count u = (use_count s)(?n := 1)" "wrappers u ?n = Some w" "w_fd w = sr_val ro" "world u = W"
    using open_tun(2) by (auto simp: FileDescriptor_new_eq)
  from keepsD' [OF keeps_new inv' new] have inv_u: "process_inv u" .
  from run TunTapFD_new_eq [OF open_tun] new have base: "with_base P ?n ?body u = (r, t)"
    by (simp add: bnd_Inr)
  have body: "keeps process_inv ?body" "keeps (rest_is ?n u) ?body" "safe_at ?n ?body"
    unfolding FileDescriptor_fd_num_def by (intro keeps_intros fd_keeps safe_intros)+
  note res = with_base_result [OF inv_u u(2) body base]
  have "?body u = (if 0 \<le> sr_val ri \<or> sr_errno ri = 0 then Inr () else Inl (UnixError ''ioctl'' (sr_errno ri)), u\<lparr>world := W'\<rparr>)"
    using u ioctl req by (simp add: bnd_Inr accessor_eq syscall_eq SystemCall_def ret_def throw_def)
  then have ok: "is_ok r \<longleftrightarrow> 0 \<le> sr_val ri \<or> sr_errno ri = 0"
    using base with_base_ok [of ?body u "u\<lparr>world := W'\<rparr>" P ?n] with_base_bad [of ?body u _ "u\<lparr>world := W'\<rparr>" P ?n]
    by (auto split: if_splits)
  have "(use_count s)(?n := 0) = use_count s" using next_handle_free [OF inv] by auto
  with res(1,4) u(1) ok tun_request_name [of devname is_tun] show ?thesis
    unfolding req by (auto simp: tun_request_eq Let_def split: sum.splits)
qed

theorem tun_new_spec_witness:
  "is_ok (fst (TunTapFD_new demo_tun ''tun144'' True demo_process)) \<and>
   \<not> is_ok (fst (TunTapFD_new demo_tun ''xyz'' True demo_process))"
proof -
  have inv: "process_inv demo_process"
    unfolding demo_process_def by (intro keepsD [OF keeps_new] process_inv_init)
  have open_tun: "sys_open demo_tun ''/dev/net/tun'' 2 (world demo_process) = (\<lparr>sr_val = 4, sr_errno = 0\<rparr>, demo_start)"
    by (simp add: demo_tun_def posix.defs tun_kernel.defs)
  have ioctl: "sys_tunsetiff demo_tun 4 (tun_request name True) demo_start =
      (if take 1 name = ''x'' then \<lparr>sr_val = - 1, sr_errno = 1\<rparr> else \<lparr>sr_val = 0, sr_errno = 0\<rparr>, demo_start)"
    if "name = ''tun144'' \<or> name = ''xyz''" for name
    using that by (auto simp: demo_tun_def posix.defs tun_kernel.defs tun_request_eq Let_def)
  note spec = tun_new_spec [OF inv open_tun, simplified, OF ioctl refl prod.collapse [symmetric]]
  from spec [of "''tun144''"] spec [of "''xyz''"] show ?thesis by simp
qed

end
