(* ===== verification/Hexdump.thy ===== *)
theory Hexdump
  imports Sponge_Prelude
begin

text \<open>
  \<^verbatim>\<open>hexdump\<close> of \<^verbatim>\<open>util/util.cc\<close>. Of \<^verbatim>\<open>cout\<close> the model has the characters written, the \<^verbatim>\<open>hex\<close>
  flag and the fill character; other format flags are at their defaults, and no width is
  pending when \<^verbatim>\<open>hexdump\<close> is called. A \<^verbatim>\<open>stringstream\<close> is its contents and its put position: constructed
  from a string (or reset with \<^verbatim>\<open>str\<close>) without \<^verbatim>\<open>ios::ate\<close>, it starts writing at the beginning,
  over the contents. The counters \<^verbatim>\<open>printed\<close> and \<^verbatim>\<open>i\<close> are natural numbers: the model is of dumps
  of fewer than \<open>2 ^ 31\<close> bytes.
\<close>

subsection \<open>Streams\<close>

record ostream =
  os_out :: string
  os_hex :: bool
  os_fill :: char

record stringstream =
  ss_contents :: string
  ss_pos :: nat

definition stringstream_of :: "string \<Rightarrow> stringstream" where
  "stringstream_of s = \<lparr>ss_contents = s, ss_pos = 0\<rparr>"

definition ss_put :: "char \<Rightarrow> stringstream \<Rightarrow> stringstream" where
  "ss_put c ss =
     \<lparr>ss_contents = take (ss_pos ss) (ss_contents ss) @ [c] @ drop (Suc (ss_pos ss)) (ss_contents ss),
      ss_pos = Suc (ss_pos ss)\<rparr>"

definition put :: "string \<Rightarrow> ostream \<Rightarrow> ostream" where
  "put s os = os\<lparr>os_out := os_out os @ s\<rparr>"

definition hex_digit :: "nat \<Rightarrow> char" where
  "hex_digit n = char_of (if n < 10 then 48 + n else 87 + n)"

fun hex_of_nat :: "nat \<Rightarrow> string" where
  "hex_of_nat n = (if n < 16 then [hex_digit n] else hex_of_nat (n div 16) @ [hex_digit (n mod 16)])"

declare hex_of_nat.simps [simp del]

definition pad :: "nat \<Rightarrow> char \<Rightarrow> string \<Rightarrow> string" where
  "pad width fill s = replicate (width - length s) fill @ s"

text \<open>\<^verbatim>\<open>cout << setw(width) << n\<close>\<close>

definition put_number :: "nat \<Rightarrow> nat \<Rightarrow> ostream \<Rightarrow> ostream" where
  "put_number width n os = put (pad width (os_fill os) (if os_hex os then hex_of_nat n else string_of_nat n)) os"

definition isprint :: "byte \<Rightarrow> bool" where
  "isprint b \<longleftrightarrow> 0x20 \<le> b \<and> b \<le> 0x7e"

subsection \<open>hexdump\<close>

definition hexdump_step :: "string \<Rightarrow> nat \<times> ostream \<times> stringstream \<Rightarrow> byte \<Rightarrow> nat \<times> ostream \<times> stringstream" where
  "hexdump_step indent_string = (\<lambda>(printed, cout, pchars) b.
     let (cout, pchars) =
           (if printed AND 0xf = 0
            then let (cout, pchars) =
                       (if printed \<noteq> 0
                        then (put ''\<newline>'' (put (ss_contents pchars) (put ''    '' cout)), stringstream_of '' '')
                        else (cout, pchars)) in
                 (put '':    '' (put_number 8 printed (put indent_string cout)), pchars)
            else if printed AND 1 = 0 then (put '' '' cout, pchars)
            else (cout, pchars));
         cout = put_number 2 (unat b) cout;
         pchars = ss_put (if isprint b then char_of (unat b) else CHR ''.'') pchars in
     (printed + 1, cout, pchars))"

definition hexdump :: "bytes \<Rightarrow> nat \<Rightarrow> ostream \<Rightarrow> ostream" where
  "hexdump data indent cout =
     (let flags = os_hex cout;
          indent_string = replicate indent (CHR '' '');
          cout = cout\<lparr>os_hex := True, os_fill := CHR ''0''\<rparr>;
          (printed, cout, pchars) = foldl (hexdump_step indent_string) (0, cout, stringstream_of '' '') data;
          print_rem = (16 - (printed AND 0xf)) mod 16;
          cout = put (ss_contents pchars) (put (replicate (2 * print_rem + print_rem div 2 + 4) (CHR '' '')) cout);
          cout = put ''\<newline>'' (put ''\<newline>'' cout) in
      cout\<lparr>os_hex := flags\<rparr>)"

subsection \<open>The text, byte by byte\<close>

definition ascii :: "bytes \<Rightarrow> string" where
  "ascii bs = map (\<lambda>b. if isprint b then char_of (unat b) else CHR ''.'') bs"

text \<open>The row of 16 that is being filled once \<open>n\<close> bytes are printed.\<close>

definition current_row :: "bytes \<Rightarrow> bytes" where
  "current_row bs = drop (16 * ((length bs - 1) div 16)) bs"

definition byte_text :: "nat \<Rightarrow> bytes \<Rightarrow> nat \<Rightarrow> string" where
  "byte_text indent bs k =
     (if k mod 16 = 0
      then (if k = 0 then [] else ''    '' @ ascii (take 16 (drop (k - 16) bs)) @ ''\<newline>'') @
           replicate indent (CHR '' '') @ pad 8 (CHR ''0'') (hex_of_nat k) @ '':    ''
      else if even k then '' '' else []) @
     pad 2 (CHR ''0'') (hex_of_nat (unat (bs ! k)))"

lemma and_15: "n AND 0xf = n mod (16 :: nat)"
proof -
  have "n AND mask 4 = take_bit 4 n" by (rule take_bit_eq_mask [symmetric])
  then show ?thesis by (simp add: mask_eq_exp_minus_1 take_bit_eq_mod)
qed

lemma byte_text_append:
  assumes "k < length bs"
  shows "byte_text indent (bs @ [b]) k = byte_text indent bs k"
proof -
  have "take 16 (drop (k - 16) (bs @ [b])) = take 16 (drop (k - 16) bs)" if "k mod 16 = 0" "k \<noteq> 0"
    using that assms mod_less_eq_dividend [of k 16] by (cases "k < 16") auto
  with assms show ?thesis by (simp add: byte_text_def nth_append)
qed

lemma row_start: "n mod 16 \<noteq> 0 \<Longrightarrow> (n - 1) div 16 = n div (16 :: nat)"
  by (cases n) (auto simp: div_Suc mod_Suc split: if_splits)

lemma row_full:
  assumes "length bs mod 16 = 0" and "bs \<noteq> []"
  shows "current_row bs = take 16 (drop (length bs - 16) bs)"
proof -
  from assms obtain q where "length bs = 16 * Suc q" by (metis mod_0_imp_dvd dvdE length_0_conv mult_0_right not0_implies_Suc)
  then show ?thesis by (simp add: current_row_def)
qed

lemma hexdump_step_eq:
  fixes os :: ostream
  assumes "os_hex os" and "os_fill os = CHR ''0''"
  shows "hexdump_step ind (n, os, pchars) b =
    (Suc n,
     os\<lparr>os_out := os_out os @
       (if n mod 16 = 0
        then (if n = 0 then [] else ''    '' @ ss_contents pchars @ ''\<newline>'') @ ind @
             pad 8 (CHR ''0'') (hex_of_nat n) @ '':    ''
        else if even n then '' '' else []) @ pad 2 (CHR ''0'') (hex_of_nat (unat b))\<rparr>,
     ss_put (if isprint b then char_of (unat b) else CHR ''.'')
       (if n mod 16 = 0 \<and> n \<noteq> 0 then stringstream_of '' '' else pchars))"
proof -
  have "n AND 1 = n mod 2" by (simp add: and_one_eq)
  with assms show ?thesis
    by (auto simp: hexdump_step_def Let_def and_15 put_def put_number_def even_iff_mod_2_eq_zero)
qed

lemma hexdump_loop:
  fixes os :: ostream
  assumes "os_hex os" and "os_fill os = CHR ''0''"
  shows "foldl (hexdump_step (replicate indent (CHR '' ''))) (0, os, stringstream_of '' '') data =
    (length data, os\<lparr>os_out := os_out os @ concat (map (byte_text indent data) [0..<length data])\<rparr>,
     if data = [] then stringstream_of '' ''
     else \<lparr>ss_contents = ascii (current_row data), ss_pos = length (current_row data)\<rparr>)"
proof (induction data rule: rev_induct)
  case Nil
  then show ?case by simp
next
  case (snoc b bs)
  let ?n = "length bs"
  have texts: "map (byte_text indent (bs @ [b])) [0..<?n] = map (byte_text indent bs) [0..<?n]"
    by (simp add: byte_text_append)
  have full: "16 \<le> ?n" if "bs \<noteq> []" "16 dvd ?n" using that by (simp add: dvd_imp_le)
  have last: "byte_text indent (bs @ [b]) ?n =
      (if ?n mod 16 = 0
       then (if ?n = 0 then [] else ''    '' @ ascii (current_row bs) @ ''\<newline>'') @
            replicate indent (CHR '' '') @ pad 8 (CHR ''0'') (hex_of_nat ?n) @ '':    ''
       else if even ?n then '' '' else []) @ pad 2 (CHR ''0'') (hex_of_nat (unat b))"
    using full by (cases "bs = []") (auto simp: byte_text_def row_full)
  have first: "ss_put c (stringstream_of '' '') = \<lparr>ss_contents = [c], ss_pos = 1\<rparr>" for c
    by (simp add: ss_put_def stringstream_of_def)
  show ?case
  proof (cases "?n mod 16 = 0")
    case True
    then have "16 * (?n div 16) = ?n" by auto
    then have "current_row (bs @ [b]) = [b]" by (simp add: current_row_def)
    with True assms last show ?thesis
      by (simp add: snoc hexdump_step_eq first ascii_def texts del: map_eq_conv)
  next
    case False
    then have ne: "bs \<noteq> []" by auto
    have "current_row (bs @ [b]) = current_row bs @ [b]"
      using row_start [OF False] by (simp add: current_row_def)
    with False ne assms last show ?thesis
      by (simp add: snoc hexdump_step_eq ss_put_def ascii_def texts del: map_eq_conv)
  qed
qed

subsection \<open>Properties\<close>

text \<open>
  C39: The whole text \<^verbatim>\<open>hexdump\<close> writes: byte \<open>k\<close> as two hex digits; before it, at the start of a row of
  16, the printable characters of the previous row, a new line, the indentation and the
  offset in eight hex digits, and otherwise a blank before every second byte; then the last row is
  padded to full width and followed by its characters. The character column has one character per byte of
  the row, without the blank the code puts in front, except for the empty dump. The base
  flag of \<^verbatim>\<open>cout\<close> is restored; its fill character is left at \<^verbatim>\<open>0\<close>.
\<close>

theorem hexdump_text:
  "hexdump data indent os =
     \<lparr>os_out = os_out os @ concat (map (byte_text indent data) [0..<length data]) @
        (let missing = (16 - length data mod 16) mod 16 in
         replicate (2 * missing + missing div 2 + 4) (CHR '' '')) @
        (if data = [] then '' '' else ascii (drop (16 * ((length data - 1) div 16)) data)) @ ''\<newline>\<newline>'',
      os_hex = os_hex os, os_fill = CHR ''0''\<rparr>"
  using hexdump_loop [of "os\<lparr>os_hex := True, os_fill := CHR ''0''\<rparr>" indent data]
  by (cases "data = []")
    (auto simp: hexdump_def Let_def put_def and_15 current_row_def stringstream_of_def)

end
