(* ===== verification/Byte_Stream.thy ===== *)
theory Byte_Stream
  imports Sponge_Prelude
begin

text \<open>
  \<^verbatim>\<open>byte_stream.hh\<close>, \<^verbatim>\<open>byte_stream.cc\<close>, \<^verbatim>\<open>stream_reassembler.hh\<close> and
  \<^verbatim>\<open>stream_reassembler.cc\<close>. At this commit both classes are the dummy implementations of the starter
  code: of the state only the error flag and, in the reassembler, the output stream and the
  capacity exist, and the member functions ignore their arguments and return
  value-initialised results. They are modelled as they are.
\<close>

subsection \<open>ByteStream\<close>

record ByteStream =
  bs_error :: bool

definition ByteStream_new :: "nat \<Rightarrow> ByteStream" where
  "ByteStream_new capacity = \<lparr>bs_error = False\<rparr>"

definition ByteStream_write :: "bytes \<Rightarrow> ByteStream \<Rightarrow> nat \<times> ByteStream" where
  "ByteStream_write data s = (0, s)"

definition ByteStream_peek_output :: "nat \<Rightarrow> ByteStream \<Rightarrow> bytes" where
  "ByteStream_peek_output len s = []"

definition ByteStream_pop_output :: "nat \<Rightarrow> ByteStream \<Rightarrow> ByteStream" where
  "ByteStream_pop_output len s = s"

definition ByteStream_read :: "nat \<Rightarrow> ByteStream \<Rightarrow> bytes \<times> ByteStream" where
  "ByteStream_read len s = ([], s)"

definition ByteStream_end_input :: "ByteStream \<Rightarrow> ByteStream" where
  "ByteStream_end_input s = s"

definition ByteStream_set_error :: "ByteStream \<Rightarrow> ByteStream" where
  "ByteStream_set_error s = s\<lparr>bs_error := True\<rparr>"

definition ByteStream_error :: "ByteStream \<Rightarrow> bool" where
  "ByteStream_error s = bs_error s"

definition ByteStream_input_ended :: "ByteStream \<Rightarrow> bool" where
  "ByteStream_input_ended s = False"

definition ByteStream_buffer_size :: "ByteStream \<Rightarrow> nat" where
  "ByteStream_buffer_size s = 0"

definition ByteStream_buffer_empty :: "ByteStream \<Rightarrow> bool" where
  "ByteStream_buffer_empty s = False"

definition ByteStream_eof :: "ByteStream \<Rightarrow> bool" where
  "ByteStream_eof s = False"

definition ByteStream_bytes_written :: "ByteStream \<Rightarrow> nat" where
  "ByteStream_bytes_written s = 0"

definition ByteStream_bytes_read :: "ByteStream \<Rightarrow> nat" where
  "ByteStream_bytes_read s = 0"

definition ByteStream_remaining_capacity :: "ByteStream \<Rightarrow> nat" where
  "ByteStream_remaining_capacity s = 0"

lemmas ByteStream_defs = ByteStream_new_def ByteStream_write_def ByteStream_peek_output_def
  ByteStream_pop_output_def ByteStream_read_def ByteStream_end_input_def ByteStream_set_error_def
  ByteStream_error_def ByteStream_input_ended_def ByteStream_buffer_size_def ByteStream_buffer_empty_def
  ByteStream_eof_def ByteStream_bytes_written_def ByteStream_bytes_read_def ByteStream_remaining_capacity_def

subsection \<open>StreamReassembler\<close>

record StreamReassembler =
  sr_output :: ByteStream
  sr_capacity :: nat

definition StreamReassembler_new :: "nat \<Rightarrow> StreamReassembler" where
  "StreamReassembler_new capacity = \<lparr>sr_output = ByteStream_new capacity, sr_capacity = capacity\<rparr>"

definition StreamReassembler_push_substring :: "bytes \<Rightarrow> nat \<Rightarrow> bool \<Rightarrow> StreamReassembler \<Rightarrow> StreamReassembler" where
  "StreamReassembler_push_substring data index eof r = r"

definition StreamReassembler_stream_out :: "StreamReassembler \<Rightarrow> ByteStream" where
  "StreamReassembler_stream_out r = sr_output r"

definition StreamReassembler_unassembled_bytes :: "StreamReassembler \<Rightarrow> nat" where
  "StreamReassembler_unassembled_bytes r = 0"

definition StreamReassembler_empty :: "StreamReassembler \<Rightarrow> bool" where
  "StreamReassembler_empty r = False"

lemmas StreamReassembler_defs = StreamReassembler_new_def StreamReassembler_push_substring_def
  StreamReassembler_stream_out_def StreamReassembler_unassembled_bytes_def StreamReassembler_empty_def

subsection \<open>Use of a stream\<close>

datatype stream_op = OpWrite bytes | OpEndInput | OpSetError | OpPop nat | OpRead nat

fun stream_step :: "stream_op \<Rightarrow> ByteStream \<Rightarrow> ByteStream" where
  "stream_step (OpWrite data) s = snd (ByteStream_write data s)"
| "stream_step OpEndInput s = ByteStream_end_input s"
| "stream_step OpSetError s = ByteStream_set_error s"
| "stream_step (OpPop len) s = ByteStream_pop_output len s"
| "stream_step (OpRead len) s = snd (ByteStream_read len s)"

lemma stream_steps: "fold stream_step ops s = s\<lparr>bs_error := bs_error s \<or> OpSetError \<in> set ops\<rparr>"
proof (induction ops arbitrary: s)
  case (Cons op ops)
  then show ?case by (cases op) (simp_all add: ByteStream_defs)
qed simp

text \<open>
  At this commit, whatever is done with a stream of whatever capacity, no byte is ever
  accepted or delivered, its input never ends and it is never at EOF, it claims to be non-empty with nothing in
  it and full with nothing written; only the error flag works: it is set exactly by
  \<^verbatim>\<open>set_error\<close>.
\<close>

lemma byte_stream_is_inert:
  "let s = fold stream_step ops (ByteStream_new capacity) in
   fst (ByteStream_write data s) = 0 \<and> fst (ByteStream_read len s) = [] \<and> ByteStream_peek_output len s = [] \<and>
   ByteStream_bytes_written s = 0 \<and> ByteStream_bytes_read s = 0 \<and> \<not> ByteStream_input_ended s \<and>
   \<not> ByteStream_eof s \<and> ByteStream_buffer_size s = 0 \<and> \<not> ByteStream_buffer_empty s \<and>
   ByteStream_remaining_capacity s = 0 \<and> (ByteStream_error s \<longleftrightarrow> OpSetError \<in> set ops)"
  by (simp add: stream_steps ByteStream_defs)

text \<open>The reassembler passes nothing on, and is never empty.\<close>

lemma reassembler_is_inert:
  "fold (\<lambda>(data, index, eof). StreamReassembler_push_substring data index eof) segments (StreamReassembler_new capacity) =
     \<lparr>sr_output = ByteStream_new capacity, sr_capacity = capacity\<rparr>"
  by (induction segments) (auto simp: StreamReassembler_defs)

end
