(* ===== verification/Test_Program.thy ===== *)
theory Test_Program
  imports File_Descriptor
begin

text \<open>
  What the test programs of \<^verbatim>\<open>src/tests\<close> have in common. A test makes a harness around an object and executes steps on
  it; a step that does not hold throws a violation, which the harness reports and which ends the program. The contract of
  a harness is the locale \<open>test_harness\<close>; that of the tests of a program, the locale \<open>test_program\<close>, extends it.
\<close>

subsection \<open>Steps, tests and programs\<close>

text \<open>
  A \<^verbatim>\<open>ByteStreamExpectationViolation\<close> or a \<^verbatim>\<open>ReassemblerExpectationViolation\<close>, or another exception, which comes from the
  object under test.
\<close>

datatype test_error = Violation string | Thrown exn

type_synonym ('s, 'a) test_prog = "'s \<Rightarrow> (test_error + 'a) \<times> 's"

text \<open>A call of a member of the object under test, and what follows it.\<close>

definition called :: "('s, 'a) prog \<Rightarrow> ('a \<Rightarrow> ('s, 'b) test_prog) \<Rightarrow> ('s, 'b) test_prog" where
  "called m k s = (case m s of (Inl e, t) \<Rightarrow> (Inl (Thrown e), t) | (Inr x, t) \<Rightarrow> k x t)"

definition holds :: "('s, unit) test_prog" where
  "holds s = (Inr (), s)"

definition violated :: "string \<Rightarrow> ('s, unit) test_prog" where
  "violated message s = (Inl (Violation message), s)"

lemmas test_prog_defs = called_def holds_def violated_def

text \<open>What both harnesses write to \<^verbatim>\<open>cerr\<close> when a step does not hold.\<close>

definition failure_report :: "string \<Rightarrow> string \<Rightarrow> string \<Rightarrow> string list \<Rightarrow> string" where
  "failure_report title step message steps =
     ''Test Failure on expectation:\<newline>'' @ [CHR 0x09] @ step @
     ''\<newline>\<newline>'' @ title @ '':\<newline>'' @ [CHR 0x09] @ message @
     ''\<newline>\<newline>List of steps that executed successfully:'' @
     concat (map (\<lambda>s. ''\<newline>'' @ [CHR 0x09] @ s) steps) @ ''\<newline>\<newline>''"

text \<open>The steps of a test, one after the other, until one throws.\<close>

fun execute_all :: "('t \<Rightarrow> ('h, unit) test_prog) \<Rightarrow> 't list \<Rightarrow> ('h, unit) test_prog" where
  "execute_all exec [] h = (Inr (), h)"
| "execute_all exec (step # steps) h =
     (case exec step h of
        (Inl e, h') \<Rightarrow> (Inl e, h')
      | (Inr _, h') \<Rightarrow> execute_all exec steps h')"

text \<open>
  The tests of a program, each on a new harness, with what is written to \<^verbatim>\<open>cerr\<close>: \<open>new\<close> is the constructor of the
  harness, \<open>log_of\<close> what the harness has written.
\<close>

fun run_tests ::
  "('n \<Rightarrow> string \<Rightarrow> 'h) \<Rightarrow> ('t \<Rightarrow> ('h, unit) test_prog) \<Rightarrow> ('h \<Rightarrow> string) \<Rightarrow> ('n \<times> 't list) list \<Rightarrow> (string, unit) test_prog" where
  "run_tests new exec log_of [] err = (Inr (), err)"
| "run_tests new exec log_of ((n, steps) # tests) err =
     (case execute_all exec steps (new n err) of
        (Inl e, h) \<Rightarrow> (Inl e, log_of h)
      | (Inr _, h) \<Rightarrow> run_tests new exec log_of tests (log_of h))"

text \<open>
  \<^verbatim>\<open>main\<close> around the tests: its exit status, and \<^verbatim>\<open>cerr\<close>. Every exception is caught; undefined behaviour has no exit status.
\<close>

definition test_main :: "(int \<Rightarrow> string) \<Rightarrow> (string, unit) test_prog \<Rightarrow> string \<Rightarrow> (exn + int) \<times> string" where
  "test_main strerror body err =
     (case body err of
        (Inr _, err') \<Rightarrow> (Inr 0, err')
      | (Inl (Thrown e), err') \<Rightarrow>
          if is_undefined e then (Inl e, err') else (Inr 1, err' @ ''Exception: '' @ exn_what strerror e @ ''\<newline>'')
      | (Inl (Violation message), err') \<Rightarrow> (Inr 1, err' @ ''Exception: '' @ message @ ''\<newline>''))"

text \<open>The programs with a random generator begin with \<^verbatim>\<open>get_random_generator()\<close>, which may throw.\<close>

definition with_generator :: "exn + 'g \<Rightarrow> ('g \<Rightarrow> (string, unit) test_prog) \<Rightarrow> (string, unit) test_prog" where
  "with_generator gen body = (case gen of Inl e \<Rightarrow> (\<lambda>err. (Inl (Thrown e), err)) | Inr g \<Rightarrow> body g)"

lemma with_generator_throws:
  "\<not> is_undefined e \<Longrightarrow>
     test_main strerror (with_generator (Inl e) body) err = (Inr 1, err @ ''Exception: '' @ exn_what strerror e @ ''\<newline>'')"
  by (simp add: test_main_def with_generator_def)

subsection \<open>Steps without a harness\<close>

text \<open>The object after steps that all hold; \<open>None\<close> when one does not.\<close>

fun passes :: "('t \<Rightarrow> ('s, unit) test_prog) \<Rightarrow> 't list \<Rightarrow> 's \<Rightarrow> 's option" where
  "passes run [] s = Some s"
| "passes run (step # steps) s = (case run step s of (Inr _, t) \<Rightarrow> passes run steps t | (Inl _, t) \<Rightarrow> None)"

lemma passes_append: "passes run (xs @ ys) s = Option.bind (passes run xs s) (passes run ys)"
  by (induction xs arbitrary: s) (auto split: prod.split sum.split)

lemma passes_None:
  assumes "passes run steps s = None"
  obtains before step after t e u where "steps = before @ step # after" "passes run before s = Some t" "run step t = (Inl e, u)"
  using assms
proof (induction steps arbitrary: s thesis)
  case (Cons step steps)
  obtain r t where r: "run step s = (r, t)" by (cases "run step s")
  show ?case
  proof (cases r)
    case (Inl e)
    with r show ?thesis by (intro Cons.prems(1) [of "[]" step steps s e t]) simp_all
  next
    case (Inr x)
    with r Cons.prems(2) have "passes run steps t = None" by simp
    from Cons.IH [OF _ this] obtain before step' after t' e u where
      "steps = before @ step' # after" "passes run before t = Some t'" "run step' t' = (Inl e, u)" by blast
    with r Inr show ?thesis by (intro Cons.prems(1) [of "step # before" step' after t' e u]) simp_all
  qed
qed simp

text \<open>Rounds of steps that keep a condition on the object.\<close>

lemma passes_rounds:
  assumes "\<And>i s. i < n \<Longrightarrow> R i s \<Longrightarrow> \<exists>t. passes run (round i) s = Some t \<and> R (Suc i) t" and "R 0 s"
  shows "\<exists>t. passes run (concat (map round [0..<n])) s = Some t \<and> R n t"
  using assms
proof (induction n arbitrary: s)
  case (Suc n)
  obtain t where t: "passes run (concat (map round [0..<n])) s = Some t" "R n t"
    using Suc.IH [of s] Suc.prems by fastforce
  obtain u where "passes run (round n) t = Some u" "R (Suc n) u" using Suc.prems(1) [of n t] t(2) by auto
  with t(1) show ?case by (simp add: passes_append)
qed simp

subsection \<open>Objects that follow a specification\<close>

text \<open>
  A computation follows a specification under a relation between the objects when, wherever the specification returns, it returns the same, and the objects
  stay related. Where the specification does not return, nothing is demanded.
\<close>

definition follows :: "('s \<Rightarrow> 'd \<Rightarrow> bool) \<Rightarrow> ('s \<Rightarrow> ('e + 'a) \<times> 's) \<Rightarrow> ('d \<Rightarrow> ('e + 'a) \<times> 'd) \<Rightarrow> bool" where
  "follows R m spec \<longleftrightarrow> (\<forall>s d x d'. R s d \<and> spec d = (Inr x, d') \<longrightarrow> (\<exists>s'. m s = (Inr x, s') \<and> R s' d'))"

named_theorems follows_intros

lemma followsI: "(\<And>s d x d'. R s d \<Longrightarrow> spec d = (Inr x, d') \<Longrightarrow> \<exists>s'. m s = (Inr x, s') \<and> R s' d') \<Longrightarrow> follows R m spec"
  unfolding follows_def by blast

lemma followsD: "follows R m spec \<Longrightarrow> R s d \<Longrightarrow> spec d = (Inr x, d') \<Longrightarrow> \<exists>s'. m s = (Inr x, s') \<and> R s' d'"
  by (simp add: follows_def)

lemma follows_result: "follows R m spec \<Longrightarrow> R s d \<Longrightarrow> fst (spec d) = Inr x \<Longrightarrow> fst (m s) = Inr x"
  by (metis followsD fst_conv prod.collapse)

lemma follows_called [follows_intros]:
  assumes "follows R m spec" and "\<And>x. follows R (k x) (k' x)"
  shows "follows R (called m k) (called spec k')"
proof (rule followsI)
  fix s d y d' assume R: "R s d" and run: "called spec k' d = (Inr y, d')"
  then obtain x u where u: "spec d = (Inr x, u)" "k' x u = (Inr y, d')" by (auto simp: called_def split: prod.splits sum.splits)
  from followsD [OF assms(1) R u(1)] obtain v where v: "m s = (Inr x, v)" "R v u" by blast
  from followsD [OF assms(2) v(2) u(2)] v(1) show "\<exists>s'. called m k s = (Inr y, s') \<and> R s' d'" by (auto simp: called_def)
qed

lemma follows_bnd [follows_intros]:
  assumes "follows R m spec" and "\<And>x. follows R (k x) (k' x)"
  shows "follows R (bnd m k) (bnd spec k')"
proof (rule followsI)
  fix s d y d' assume R: "R s d" and run: "bnd spec k' d = (Inr y, d')"
  then obtain x u where u: "spec d = (Inr x, u)" "k' x u = (Inr y, d')" by (auto simp: bnd_eq_Inr)
  from followsD [OF assms(1) R u(1)] obtain v where v: "m s = (Inr x, v)" "R v u" by blast
  from followsD [OF assms(2) v(2) u(2)] v(1) show "\<exists>s'. bnd m k s = (Inr y, s') \<and> R s' d'" by (auto simp: bnd_Inr)
qed

lemma follows_basic [follows_intros]:
  "follows R holds holds" "follows R m0 (violated message)" "follows R (ret x) (ret x)" "follows R m1 (throw e)"
  "follows R (lift_result r) (lift_result r)"
  by (auto simp: follows_def holds_def violated_def ret_def throw_def lift_result_def)

lemma follows_if [follows_intros]:
  "follows R m1 s1 \<Longrightarrow> follows R m2 s2 \<Longrightarrow> follows R (if c then m1 else m2) (if c then s1 else s2)"
  by simp

lemma follows_passes:
  assumes "\<And>step. follows R (run step) (spec step)" and "R s d" and "passes spec steps d \<noteq> None"
  shows "passes run steps s \<noteq> None"
  using assms(2,3)
proof (induction steps arbitrary: s d)
  case (Cons step steps)
  then obtain d' where d': "spec step d = (Inr (), d')" "passes spec steps d' \<noteq> None" by (auto split: prod.splits sum.splits)
  from followsD [OF assms(1) Cons.prems(1) d'(1)] obtain s' where "run step s = (Inr (), s')" "R s' d'" by blast
  with Cons.IH [OF _ d'(2), of s'] show ?case by auto
qed simp

subsection \<open>The contract of a harness\<close>

locale test_harness =
  fixes subject :: "'h \<Rightarrow> 's" and run :: "'t \<Rightarrow> ('s, unit) test_prog" and exec :: "'t \<Rightarrow> ('h, unit) test_prog"
    and recorded :: "'s \<Rightarrow> 't list \<Rightarrow> 'h \<Rightarrow> 'h"
  assumes recorded_nil: "recorded (subject h) [] h = h"
    and recorded_append: "recorded t ys (recorded s xs h) = recorded t (xs @ ys) h"
    and subject_recorded [simp]: "subject (recorded s xs h) = s"
    and exec_holds: "run step (subject h) = (Inr (), s) \<Longrightarrow> exec step h = (Inr (), recorded s [step] h)"
    and exec_fails: "run step (subject h) = (Inl e, s) \<Longrightarrow> \<exists>e'. fst (exec step h) = Inl e'"
begin

lemma execute_all_passes:
  "passes run steps (subject h) = Some s \<Longrightarrow> execute_all exec steps h = (Inr (), recorded s steps h)"
proof (induction steps arbitrary: h)
  case Nil
  then show ?case using recorded_nil [of h] by simp
next
  case (Cons step steps)
  then obtain t where t: "run step (subject h) = (Inr (), t)" "passes run steps t = Some s"
    by (auto split: prod.splits sum.splits)
  with Cons.IH [of "recorded t [step] h"] show ?case by (simp add: exec_holds recorded_append)
qed

lemma execute_all_fails:
  assumes "passes run before (subject h) = Some t" and "run step t = (Inl e, u)"
  shows "execute_all exec (before @ step # after) h = exec step (recorded t before h)"
proof -
  have append: "execute_all exec (xs @ ys) h =
      (case execute_all exec xs h of (Inl e, h') \<Rightarrow> (Inl e, h') | (Inr _, h') \<Rightarrow> execute_all exec ys h')" for xs ys h
    by (induction xs arbitrary: h) (auto split: prod.split sum.split)
  have "run step (subject (recorded t before h)) = (Inl e, u)" using assms(2) by simp
  then have "\<exists>e'. fst (exec step (recorded t before h)) = Inl e'" by (rule exec_fails)
  then show ?thesis by (auto simp: append execute_all_passes [OF assms(1)] split: prod.split)
qed

end

text \<open>The harness is new for every test, and writes nothing while the steps hold.\<close>

locale test_program = test_harness subject run exec recorded
  for subject :: "'h \<Rightarrow> 's" and run :: "'t \<Rightarrow> ('s, unit) test_prog" and exec :: "'t \<Rightarrow> ('h, unit) test_prog"
    and recorded :: "'s \<Rightarrow> 't list \<Rightarrow> 'h \<Rightarrow> 'h" +
  fixes new :: "'n \<Rightarrow> string \<Rightarrow> 'h" and start :: "'n \<Rightarrow> 's" and log_of :: "'h \<Rightarrow> string"
  assumes subject_new [simp]: "subject (new n err) = start n" and log_new [simp]: "log_of (new n err) = err"
    and log_recorded [simp]: "log_of (recorded s steps h) = log_of h"
begin

lemma run_tests_pass:
  assumes "\<And>n steps. (n, steps) \<in> set tests \<Longrightarrow> passes run steps (start n) \<noteq> None"
  shows "run_tests new exec log_of tests err = (Inr (), err)"
  using assms
proof (induction tests)
  case (Cons test tests)
  obtain n steps where test: "test = (n, steps)" by (cases test)
  obtain s where "passes run steps (start n) = Some s" using Cons.prems [of n steps] test by auto
  then have "execute_all exec steps (new n err) = (Inr (), recorded s steps (new n err))" by (intro execute_all_passes) simp
  moreover have "passes run steps' (start n') \<noteq> None" if "(n', steps') \<in> set tests" for n' steps'
    using Cons.prems [of n' steps'] that by simp
  then have "run_tests new exec log_of tests err = (Inr (), err)" by (rule Cons.IH)
  ultimately show ?case by (simp add: test)
qed simp

lemma program_passes:
  assumes "\<And>n steps. (n, steps) \<in> set tests \<Longrightarrow> passes run steps (start n) \<noteq> None"
  shows "test_main strerror (run_tests new exec log_of tests) err = (Inr 0, err)"
  using run_tests_pass [of tests err] assms by (simp add: test_main_def)

text \<open>A program that fails: after tests that pass, at the given step of a test, after steps that hold.\<close>

lemma program_fails:
  assumes "\<And>n steps. (n, steps) \<in> set passing \<Longrightarrow> passes run steps (start n) \<noteq> None"
    and "passes run before (start n) = Some t" and "run step t = (Inl e, u)"
    and "exec step (recorded t before (new n err)) = (Inl (Violation message), h)"
  shows "test_main strerror (run_tests new exec log_of (passing @ (n, before @ step # after) # tests)) err =
    (Inr 1, log_of h @ ''Exception: '' @ message @ ''\<newline>'')"
proof -
  have append: "run_tests new exec log_of (xs @ ys) err = run_tests new exec log_of ys err'"
    if "run_tests new exec log_of xs err = (Inr (), err')" for xs ys err err'
    using that by (induction xs arbitrary: err) (auto split: prod.splits sum.splits)
  show ?thesis
    using execute_all_fails [of before "new n err" t step e u after] assms(2-4) append [OF run_tests_pass [OF assms(1)]]
    by (simp add: test_main_def)
qed

end

end
