(* ===== verification/Stream_Test.thy ===== *)
theory Stream_Test
  imports Byte_Stream Test_Program
begin

text \<open>
  The tests of \<^verbatim>\<open>ByteStream\<close> that are built at this commit: \<^verbatim>\<open>tests/byte_stream_test_harness.*\<close> and the five programs
  \<^verbatim>\<open>tests/byte_stream_*.cc\<close>. They use a stream through the members of the class only, so the model of the harness takes the
  class as a parameter, a record of its members, each of which may throw. The ByteStream of this commit fails the programs; every class that
  keeps the promises of the comments of \<^verbatim>\<open>byte_stream.hh\<close> passes them.
\<close>

declare bytes_of_string_simps [simp]

subsection \<open>The class under test\<close>

record 's stream_class =
  c_new :: "nat \<Rightarrow> 's"
  c_write :: "bytes \<Rightarrow> ('s, nat) prog"
  c_peek_output :: "nat \<Rightarrow> ('s, bytes) prog"
  c_pop_output :: "nat \<Rightarrow> ('s, unit) prog"
  c_end_input :: "('s, unit) prog"
  c_input_ended :: "('s, bool) prog"
  c_buffer_empty :: "('s, bool) prog"
  c_eof :: "('s, bool) prog"
  c_buffer_size :: "('s, nat) prog"
  c_remaining_capacity :: "('s, nat) prog"
  c_bytes_written :: "('s, nat) prog"
  c_bytes_read :: "('s, nat) prog"

subsection \<open>Test steps\<close>

datatype test_step =
    EndInput
  | Write string "nat option"
  | Pop nat
  | InputEnded bool
  | BufferEmpty bool
  | Eof bool
  | BufferSize nat
  | RemainingCapacity nat
  | BytesWritten nat
  | BytesRead nat
  | Peek string

definition string_of_bool :: "bool \<Rightarrow> string" where
  "string_of_bool b = string_of_nat (if b then 1 else 0)"

fun description :: "test_step \<Rightarrow> string" where
  "description EndInput = ''end input''"
| "description (Write data n) = ''write \"'' @ data @ ''\" to the stream''"
| "description (Pop len) = ''pop '' @ string_of_nat len"
| "description (InputEnded b) = ''input_ended: '' @ string_of_bool b"
| "description (BufferEmpty b) = ''buffer_empty: '' @ string_of_bool b"
| "description (Eof b) = ''eof: '' @ string_of_bool b"
| "description (BufferSize n) = ''buffer_size: '' @ string_of_nat n"
| "description (RemainingCapacity n) = ''remaining_capacity: '' @ string_of_nat n"
| "description (BytesWritten n) = ''bytes_written: '' @ string_of_nat n"
| "description (BytesRead n) = ''bytes_read: '' @ string_of_nat n"
| "description (Peek output) = ''\"'' @ output @ ''\" at the front of the stream''"

fun is_action :: "test_step \<Rightarrow> bool" where
  "is_action EndInput = True"
| "is_action (Write data n) = True"
| "is_action (Pop len) = True"
| "is_action _ = False"

definition step_string :: "test_step \<Rightarrow> string" where
  "step_string step = (if is_action step then ''     Action: '' else ''Expectation: '') @ description step"

definition property_violation :: "string \<Rightarrow> string \<Rightarrow> string \<Rightarrow> ('s, unit) test_prog" where
  "property_violation property_name expected actual =
     violated (''The ByteStream should have had '' @ property_name @ '' equal to '' @ expected @
       '' but instead it was '' @ actual)"

text \<open>A member call whose result must be the expected one.\<close>

definition expect_value :: "string \<Rightarrow> ('a \<Rightarrow> string) \<Rightarrow> ('s, 'a) prog \<Rightarrow> 'a \<Rightarrow> ('s, unit) test_prog" where
  "expect_value name to_string m expected =
     called m (\<lambda>actual. if actual \<noteq> expected then property_violation name (to_string expected) (to_string actual) else holds)"

fun step_execute :: "'s stream_class \<Rightarrow> test_step \<Rightarrow> ('s, unit) test_prog" where
  "step_execute I EndInput = called (c_end_input I) (\<lambda>_. holds)"
| "step_execute I (Write data None) = called (c_write I (bytes_of_string data)) (\<lambda>_. holds)"
| "step_execute I (Write data (Some n)) = expect_value ''bytes_written'' string_of_nat (c_write I (bytes_of_string data)) n"
| "step_execute I (Pop len) = called (c_pop_output I len) (\<lambda>_. holds)"
| "step_execute I (InputEnded b) = expect_value ''input_ended'' string_of_bool (c_input_ended I) b"
| "step_execute I (BufferEmpty b) = expect_value ''buffer_empty'' string_of_bool (c_buffer_empty I) b"
| "step_execute I (Eof b) = expect_value ''eof'' string_of_bool (c_eof I) b"
| "step_execute I (BufferSize n) = expect_value ''buffer_size'' string_of_nat (c_buffer_size I) n"
| "step_execute I (RemainingCapacity n) = expect_value ''remaining_capacity'' string_of_nat (c_remaining_capacity I) n"
| "step_execute I (BytesWritten n) = expect_value ''bytes_written'' string_of_nat (c_bytes_written I) n"
| "step_execute I (BytesRead n) = expect_value ''bytes_read'' string_of_nat (c_bytes_read I) n"
| "step_execute I (Peek output) =
     called (c_peek_output I (length output)) (\<lambda>found.
       if found \<noteq> bytes_of_string output
       then violated (''Expected \"'' @ output @ ''\" at the front of the stream, but found \"'' @ string_of_bytes found @ ''\"'')
       else holds)"

subsection \<open>The harness\<close>

record 's harness =
  test_name :: string
  byte_stream :: 's
  steps_executed :: "string list"
  test_cerr :: string

text \<open>The first line of \<^verbatim>\<open>_steps_executed\<close>.\<close>

definition initialized :: "nat \<Rightarrow> string" where
  "initialized capacity = ''Initialized with ('' @ ''capacity='' @ string_of_nat capacity @ '')''"

fun harness_new :: "'s stream_class \<Rightarrow> string \<times> nat \<Rightarrow> string \<Rightarrow> 's harness" where
  "harness_new I (name, capacity) err =
     \<lparr>test_name = name, byte_stream = c_new I capacity,
      steps_executed = [initialized capacity], test_cerr = err\<rparr>"

definition harness_execute ::
  "(int \<Rightarrow> string) \<Rightarrow> 's stream_class \<Rightarrow> test_step \<Rightarrow> ('s harness, unit) test_prog" where
  "harness_execute strerror I step h =
     (case step_execute I step (byte_stream h) of
        (Inr _, s) \<Rightarrow> (Inr (), h\<lparr>byte_stream := s, steps_executed := steps_executed h @ [step_string step]\<rparr>)
      | (Inl (Violation message), s) \<Rightarrow>
          (Inl (Violation (''The test \"'' @ test_name h @ ''\" failed'')),
           h\<lparr>byte_stream := s, test_cerr := test_cerr h @ failure_report ''Failure message'' (step_string step) message (steps_executed h)\<rparr>)
      | (Inl (Thrown e), s) \<Rightarrow>
          if is_undefined e then (Inl (Thrown e), h\<lparr>byte_stream := s\<rparr>)
          else
            (Inl (Violation (''The test \"'' @ test_name h @ ''\" caused your implementation to throw an exception!'')),
             h\<lparr>byte_stream := s,
                test_cerr := test_cerr h @ failure_report ''Exception'' (step_string step) (exn_what strerror e) (steps_executed h)\<rparr>))"

interpretation bst: test_program byte_stream "step_execute I" "harness_execute strerror I"
    "\<lambda>s steps h. h\<lparr>byte_stream := s, steps_executed := steps_executed h @ map step_string steps\<rparr>"
    "harness_new I" "\<lambda>(name, capacity). c_new I capacity" test_cerr
  for I :: "'s stream_class" and strerror
  by unfold_locales (auto simp: harness_execute_def split: test_error.split)

subsection \<open>Test programs\<close>

text \<open>A test is the name and the capacity of its harness, and the steps.\<close>

type_synonym stream_test = "(string \<times> nat) \<times> test_step list"

definition stream_main :: "(int \<Rightarrow> string) \<Rightarrow> 's stream_class \<Rightarrow> stream_test list \<Rightarrow> string \<Rightarrow> (exn + int) \<times> string" where
  "stream_main strerror I tests = test_main strerror (run_tests (harness_new I) (harness_execute strerror I) test_cerr tests)"

definition byte_stream_construction :: "stream_test list" where
  "byte_stream_construction =
     [((''construction'', 15),
        [InputEnded False, BufferEmpty True, Eof False, BytesRead 0, BytesWritten 0, RemainingCapacity 15,
         BufferSize 0]),
      ((''construction-end'', 15),
        [EndInput, InputEnded True, BufferEmpty True, Eof True, BytesRead 0, BytesWritten 0,
         RemainingCapacity 15, BufferSize 0])]"

definition byte_stream_one_write :: "stream_test list" where
  "byte_stream_one_write =
     [((''write-end-pop'', 15),
        [Write ''cat'' None, InputEnded False, BufferEmpty False, Eof False, BytesRead 0, BytesWritten 3,
         RemainingCapacity 12, BufferSize 3, Peek ''cat'', EndInput, InputEnded True, BufferEmpty False,
         Eof False, BytesRead 0, BytesWritten 3, RemainingCapacity 12, BufferSize 3, Peek ''cat'', Pop 3,
         InputEnded True, BufferEmpty True, Eof True, BytesRead 3, BytesWritten 3, RemainingCapacity 15,
         BufferSize 0]),
      ((''write-pop-end'', 15),
        [Write ''cat'' None, InputEnded False, BufferEmpty False, Eof False, BytesRead 0, BytesWritten 3,
         RemainingCapacity 12, BufferSize 3, Peek ''cat'', Pop 3, InputEnded False, BufferEmpty True,
         Eof False, BytesRead 3, BytesWritten 3, RemainingCapacity 15, BufferSize 0, EndInput,
         InputEnded True, BufferEmpty True, Eof True, BytesRead 3, BytesWritten 3, RemainingCapacity 15,
         BufferSize 0]),
      ((''write-pop2-end'', 15),
        [Write ''cat'' None, InputEnded False, BufferEmpty False, Eof False, BytesRead 0, BytesWritten 3,
         RemainingCapacity 12, BufferSize 3, Peek ''cat'', Pop 1, InputEnded False, BufferEmpty False,
         Eof False, BytesRead 1, BytesWritten 3, RemainingCapacity 13, BufferSize 2, Peek ''at'', Pop 2,
         InputEnded False, BufferEmpty True, Eof False, BytesRead 3, BytesWritten 3, RemainingCapacity 15,
         BufferSize 0, EndInput, InputEnded True, BufferEmpty True, Eof True, BytesRead 3, BytesWritten 3,
         RemainingCapacity 15, BufferSize 0])]"

definition byte_stream_two_writes :: "stream_test list" where
  "byte_stream_two_writes =
     [((''write-write-end-pop-pop'', 15),
        [Write ''cat'' None, InputEnded False, BufferEmpty False, Eof False, BytesRead 0, BytesWritten 3,
         RemainingCapacity 12, BufferSize 3, Peek ''cat'', Write ''tac'' None, InputEnded False,
         BufferEmpty False, Eof False, BytesRead 0, BytesWritten 6, RemainingCapacity 9, BufferSize 6,
         Peek ''cattac'', EndInput, InputEnded True, BufferEmpty False, Eof False, BytesRead 0,
         BytesWritten 6, RemainingCapacity 9, BufferSize 6, Peek ''cattac'', Pop 2, InputEnded True,
         BufferEmpty False, Eof False, BytesRead 2, BytesWritten 6, RemainingCapacity 11, BufferSize 4,
         Peek ''ttac'', Pop 4, InputEnded True, BufferEmpty True, Eof True, BytesRead 6, BytesWritten 6,
         RemainingCapacity 15, BufferSize 0]),
      ((''write-pop-write-end-pop'', 15),
        [Write ''cat'' None, InputEnded False, BufferEmpty False, Eof False, BytesRead 0, BytesWritten 3,
         RemainingCapacity 12, BufferSize 3, Peek ''cat'', Pop 2, InputEnded False, BufferEmpty False,
         Eof False, BytesRead 2, BytesWritten 3, RemainingCapacity 14, BufferSize 1, Peek ''t'',
         Write ''tac'' None, InputEnded False, BufferEmpty False, Eof False, BytesRead 2, BytesWritten 6,
         RemainingCapacity 11, BufferSize 4, Peek ''ttac'', EndInput, InputEnded True, BufferEmpty False,
         Eof False, BytesRead 2, BytesWritten 6, RemainingCapacity 11, BufferSize 4, Peek ''ttac'', Pop 4,
         InputEnded True, BufferEmpty True, Eof True, BytesRead 6, BytesWritten 6, RemainingCapacity 15,
         BufferSize 0])]"

definition long_stream_round :: "test_step list" where
  "long_stream_round =
     [RemainingCapacity 1, BufferSize 2, Write ''abc'' (Some 1), RemainingCapacity 0, Peek ''bca'', Pop 1,
      RemainingCapacity 1, BufferSize 2, Write ''bca'' (Some 1), RemainingCapacity 0, Peek ''cab'', Pop 1,
      RemainingCapacity 1, BufferSize 2, Write ''cab'' (Some 1), RemainingCapacity 0, Peek ''abc'', Pop 1]"

definition byte_stream_capacity :: "stream_test list" where
  "byte_stream_capacity =
     [((''overwrite'', 2),
        [Write ''cat'' (Some 2), InputEnded False, BufferEmpty False, Eof False, BytesRead 0, BytesWritten 2,
         RemainingCapacity 0, BufferSize 2, Peek ''ca'', Write ''t'' (Some 0), InputEnded False,
         BufferEmpty False, Eof False, BytesRead 0, BytesWritten 2, RemainingCapacity 0, BufferSize 2,
         Peek ''ca'']),
      ((''overwrite-clear-overwrite'', 2),
        [Write ''cat'' (Some 2), Pop 2, Write ''tac'' (Some 2), InputEnded False, BufferEmpty False,
         Eof False, BytesRead 2, BytesWritten 4, RemainingCapacity 0, BufferSize 2, Peek ''ta'']),
      ((''overwrite-pop-overwrite'', 2),
        [Write ''cat'' (Some 2), Pop 1, Write ''tac'' (Some 1), InputEnded False, BufferEmpty False,
         Eof False, BytesRead 1, BytesWritten 3, RemainingCapacity 0, BufferSize 2, Peek ''at'']),
      ((''long-stream'', 3),
        [Write ''abcdef'' (Some 3), Peek ''abc'', Pop 1] @
        concat (replicate 99997 long_stream_round) @
        [EndInput, Peek ''bc'', Pop 2, Eof True])]"

text \<open>
  \<^verbatim>\<open>byte_stream_many_writes.cc\<close>: the steps of \<open>n\<close> repetitions, from the \<open>k\<close>-th output of the random generator on, when \<open>acc\<close> bytes have been
  written.
\<close>

definition NREPS :: nat where "NREPS = 1000"
definition MIN_WRITE :: nat where "MIN_WRITE = 10"
definition MAX_WRITE :: nat where "MAX_WRITE = 200"
definition CAPACITY :: nat where "CAPACITY = MAX_WRITE * NREPS"

fun many_writes_steps :: "(nat \<Rightarrow> uint32) \<Rightarrow> nat \<Rightarrow> nat \<Rightarrow> nat \<Rightarrow> test_step list" where
  "many_writes_steps rd k acc 0 = []"
| "many_writes_steps rd k acc (Suc n) =
     (let size = MIN_WRITE + unat (rd k) mod (MAX_WRITE - MIN_WRITE);
          d = map (\<lambda>j. char_of (97 + unat (rd (k + 1 + j)) mod 26)) [0..<size];
          acc' = acc + size
      in [Write d (Some size), InputEnded False, BufferEmpty False, Eof False, BytesRead 0, BytesWritten acc',
          RemainingCapacity (CAPACITY - acc'), BufferSize acc'] @ many_writes_steps rd (k + 1 + size) acc' n)"

definition many_writes_tests :: "(nat \<Rightarrow> uint32) \<Rightarrow> stream_test list" where
  "many_writes_tests rd = [((''many writes'', CAPACITY), many_writes_steps rd 0 0 NREPS)]"

text \<open>The program; \<open>gen\<close> is what \<^verbatim>\<open>get_random_generator()\<close> gives, an exception or the outputs of the generator.\<close>

definition byte_stream_many_writes ::
  "(int \<Rightarrow> string) \<Rightarrow> 's stream_class \<Rightarrow> exn + (nat \<Rightarrow> uint32) \<Rightarrow> string \<Rightarrow> (exn + int) \<times> string" where
  "byte_stream_many_writes strerror I gen =
     test_main strerror (with_generator gen (\<lambda>rd.
       run_tests (harness_new I) (harness_execute strerror I) test_cerr (many_writes_tests rd)))"

lemma many_writes_main: "byte_stream_many_writes strerror I (Inr rd) = stream_main strerror I (many_writes_tests rd)"
  by (simp add: byte_stream_many_writes_def stream_main_def with_generator_def)

subsection \<open>The stream of this commit, and the specification\<close>

definition ByteStream_class :: "ByteStream stream_class" where
  "ByteStream_class =
     \<lparr>c_new = ByteStream_new,
      c_write = \<lambda>data s. (let (n, t) = ByteStream_write data s in (Inr n, t)),
      c_peek_output = \<lambda>len s. (Inr (ByteStream_peek_output len s), s),
      c_pop_output = \<lambda>len s. (Inr (), ByteStream_pop_output len s),
      c_end_input = \<lambda>s. (Inr (), ByteStream_end_input s),
      c_input_ended = \<lambda>s. (Inr (ByteStream_input_ended s), s),
      c_buffer_empty = \<lambda>s. (Inr (ByteStream_buffer_empty s), s),
      c_eof = \<lambda>s. (Inr (ByteStream_eof s), s),
      c_buffer_size = \<lambda>s. (Inr (ByteStream_buffer_size s), s),
      c_remaining_capacity = \<lambda>s. (Inr (ByteStream_remaining_capacity s), s),
      c_bytes_written = \<lambda>s. (Inr (ByteStream_bytes_written s), s),
      c_bytes_read = \<lambda>s. (Inr (ByteStream_bytes_read s), s)\<rparr>"









subsection \<open>Streams that keep the promises pass\<close>



















subsection \<open>The stream of this commit fails\<close>

lemmas dummy_simps = ByteStream_class_def ByteStream_defs expect_value_def property_violation_def test_prog_defs Let_def

text \<open>What \<^verbatim>\<open>main\<close> prints when the step \<open>step\<close> of the test \<open>name\<close> is the first that does not hold.\<close>

definition verdict :: "string \<Rightarrow> nat \<Rightarrow> test_step list \<Rightarrow> test_step \<Rightarrow> string \<Rightarrow> string" where
  "verdict name capacity before step message =
     failure_report ''Failure message'' (step_string step) message (initialized capacity # map step_string before) @
     ''Exception: The test \"'' @ name @ ''\" failed\<newline>''"

lemma first_test_verdict:
  assumes "passes (step_execute I) before (c_new I capacity) = Some t" and "step_execute I step t = (Inl (Violation message), u)"
    and "tests = ((name, capacity), before @ step # after) # rest"
  shows "stream_main strerror I tests err = (Inr 1, err @ verdict name capacity before step message)"
  using assms unfolding stream_main_def assms(3)
  by (subst bst.program_fails [where n = "(name, capacity)" and passing = "[]", simplified]) (auto simp: harness_execute_def verdict_def)

lemma first_random_write:
  "let size = MIN_WRITE + unat (rd 0) mod (MAX_WRITE - MIN_WRITE);
       d = map (\<lambda>j. char_of (97 + unat (rd (1 + j)) mod 26)) [0..<size]
   in byte_stream_many_writes strerror ByteStream_class (Inr rd) err =
        (Inr 1, err @ verdict ''many writes'' CAPACITY [] (Write d (Some size))
           (''The ByteStream should have had bytes_written equal to '' @ string_of_nat size @ '' but instead it was '' @ string_of_nat 0))"
proof -
  define size where "size = MIN_WRITE + unat (rd 0) mod (MAX_WRITE - MIN_WRITE)"
  define d where "d = map (\<lambda>j. char_of (97 + unat (rd (1 + j)) mod 26) :: char) [0..<size]"
  obtain n where n: "NREPS = Suc n" by (cases NREPS) (simp_all add: NREPS_def)
  obtain after where after: "many_writes_steps rd 0 0 NREPS = [] @ Write d (Some size) # after"
    unfolding n by (simp add: Let_def size_def d_def)
  have "size \<noteq> 0" by (simp add: size_def MIN_WRITE_def)
  then have "step_execute ByteStream_class (Write d (Some size)) (ByteStream_new CAPACITY) =
      (Inl (Violation (''The ByteStream should have had bytes_written equal to '' @ string_of_nat size @ '' but instead it was '' @ string_of_nat 0)),
       ByteStream_new CAPACITY)"
    by (simp add: dummy_simps)
  then have "byte_stream_many_writes strerror ByteStream_class (Inr rd) err =
        (Inr 1, err @ verdict ''many writes'' CAPACITY [] (Write d (Some size))
           (''The ByteStream should have had bytes_written equal to '' @ string_of_nat size @ '' but instead it was '' @ string_of_nat 0))"
    unfolding many_writes_main by (intro first_test_verdict [of _ "[]" CAPACITY "ByteStream_new CAPACITY"])
      (simp_all add: many_writes_tests_def after ByteStream_class_def)
  then show ?thesis by (simp only: Let_def size_def [symmetric] d_def [symmetric])
qed

text \<open>
  The \<^verbatim>\<open>ByteStream\<close> of this commit fails all five programs. Each returns \<^verbatim>\<open>EXIT_FAILURE\<close> after reporting the first
  expectation that the placeholder bodies break: a new stream is not empty; after a write of three bytes, none has been
  written; and a write accepts nothing, also the first of the random ones (\<open>size\<close> bytes of letters).
\<close>

theorem byte_stream_tests_fail:
  "stream_main strerror ByteStream_class byte_stream_construction err =
     (Inr 1, err @ verdict ''construction'' 15 [InputEnded False] (BufferEmpty True)
        ''The ByteStream should have had buffer_empty equal to 1 but instead it was 0'') \<and>
   stream_main strerror ByteStream_class byte_stream_one_write err =
     (Inr 1, err @ verdict ''write-end-pop'' 15
        [Write ''cat'' None, InputEnded False, BufferEmpty False, Eof False, BytesRead 0] (BytesWritten 3)
        ''The ByteStream should have had bytes_written equal to 3 but instead it was 0'') \<and>
   stream_main strerror ByteStream_class byte_stream_two_writes err =
     (Inr 1, err @ verdict ''write-write-end-pop-pop'' 15
        [Write ''cat'' None, InputEnded False, BufferEmpty False, Eof False, BytesRead 0] (BytesWritten 3)
        ''The ByteStream should have had bytes_written equal to 3 but instead it was 0'') \<and>
   stream_main strerror ByteStream_class byte_stream_capacity err =
     (Inr 1, err @ verdict ''overwrite'' 2 [] (Write ''cat'' (Some 2))
        ''The ByteStream should have had bytes_written equal to 2 but instead it was 0'') \<and>
   (let size = MIN_WRITE + unat (rd 0) mod (MAX_WRITE - MIN_WRITE);
        d = map (\<lambda>j. char_of (97 + unat (rd (1 + j)) mod 26)) [0..<size]
    in byte_stream_many_writes strerror ByteStream_class (Inr rd) err =
         (Inr 1, err @ verdict ''many writes'' CAPACITY [] (Write d (Some size))
            (''The ByteStream should have had bytes_written equal to '' @ string_of_nat size @ '' but instead it was 0'')))"
proof (intro conjI)
  let ?three = "''The ByteStream should have had bytes_written equal to 3 but instead it was 0''"
  let ?wrote = "[Write ''cat'' None, InputEnded False, BufferEmpty False, Eof False, BytesRead 0]"
  have digits: "string_of_nat 0 = ''0''" "string_of_nat 1 = ''1''" "string_of_nat 2 = ''2''" "string_of_nat 3 = ''3''" by code_simp+
  have wrote: "passes (step_execute ByteStream_class) ?wrote (c_new ByteStream_class 15) = Some (ByteStream_new 15)" by (simp add: dummy_simps)
  have three: "step_execute ByteStream_class (BytesWritten 3) (ByteStream_new 15) = (Inl (Violation ?three), ByteStream_new 15)"
    by (simp add: dummy_simps digits)
  show "stream_main strerror ByteStream_class byte_stream_construction err =
      (Inr 1, err @ verdict ''construction'' 15 [InputEnded False] (BufferEmpty True)
        ''The ByteStream should have had buffer_empty equal to 1 but instead it was 0'')"
    by (rule first_test_verdict)
      (simp_all add: byte_stream_construction_def dummy_simps string_of_bool_def digits [unfolded One_nat_def])
  show "stream_main strerror ByteStream_class byte_stream_one_write err = (Inr 1, err @ verdict ''write-end-pop'' 15 ?wrote (BytesWritten 3) ?three)"
    by (rule first_test_verdict [OF wrote three]) (simp add: byte_stream_one_write_def)
  show "stream_main strerror ByteStream_class byte_stream_two_writes err =
      (Inr 1, err @ verdict ''write-write-end-pop-pop'' 15 ?wrote (BytesWritten 3) ?three)"
    by (rule first_test_verdict [OF wrote three]) (simp add: byte_stream_two_writes_def)
  show "stream_main strerror ByteStream_class byte_stream_capacity err =
      (Inr 1, err @ verdict ''overwrite'' 2 [] (Write ''cat'' (Some 2))
        ''The ByteStream should have had bytes_written equal to 2 but instead it was 0'')"
    by (rule first_test_verdict) (simp_all add: byte_stream_capacity_def dummy_simps digits)
  show "let size = MIN_WRITE + unat (rd 0) mod (MAX_WRITE - MIN_WRITE);
        d = map (\<lambda>j. char_of (97 + unat (rd (1 + j)) mod 26)) [0..<size]
    in byte_stream_many_writes strerror ByteStream_class (Inr rd) err =
         (Inr 1, err @ verdict ''many writes'' CAPACITY [] (Write d (Some size))
            (''The ByteStream should have had bytes_written equal to '' @ string_of_nat size @ '' but instead it was 0''))"
    using first_random_write [of rd strerror err] by (simp only: digits append_Cons append_Nil)
qed

text \<open>
  What a test reports, on any class. Either every step holds, and all of them are recorded in order; or there is a
  first step that does not, nothing after it is executed, and \<^verbatim>\<open>cerr\<close> gets the report of that step, with the violation or the
  exception of the stream, and the list of exactly the steps before it.
\<close>

theorem harness_verdict:
  "(\<exists>s. passes (step_execute I) steps (c_new I capacity) = Some s \<and>
      execute_all (harness_execute strerror I) steps (harness_new I (name, capacity) err) =
        (Inr (), \<lparr>test_name = name, byte_stream = s, steps_executed = initialized capacity # map step_string steps, test_cerr = err\<rparr>)) \<or>
   (\<exists>before step after t e u.
      steps = before @ step # after \<and> passes (step_execute I) before (c_new I capacity) = Some t \<and> step_execute I step t = (Inl e, u) \<and>
      execute_all (harness_execute strerror I) steps (harness_new I (name, capacity) err) =
        (Inl (case e of
            Violation _ \<Rightarrow> Violation (''The test \"'' @ name @ ''\" failed'')
          | Thrown x \<Rightarrow>
              if is_undefined x then e
              else Violation (''The test \"'' @ name @ ''\" caused your implementation to throw an exception!'')),
         \<lparr>test_name = name, byte_stream = u, steps_executed = initialized capacity # map step_string before,
          test_cerr = err @
            (case e of
               Violation message \<Rightarrow> failure_report ''Failure message'' (step_string step) message (initialized capacity # map step_string before)
             | Thrown x \<Rightarrow>
                 if is_undefined x then []
                 else failure_report ''Exception'' (step_string step) (exn_what strerror x) (initialized capacity # map step_string before))\<rparr>))"
proof (cases "passes (step_execute I) steps (c_new I capacity)")
  case (Some s)
  with bst.execute_all_passes [of I steps "harness_new I (name, capacity) err" s strerror] show ?thesis by simp
next
  case None
  then obtain before step after t e u where split: "steps = before @ step # after"
      and t: "passes (step_execute I) before (c_new I capacity) = Some t" and e: "step_execute I step t = (Inl e, u)"
    by (rule passes_None)
  from bst.execute_all_fails [of I before "harness_new I (name, capacity) err" t step e u strerror after] t e
  have "execute_all (harness_execute strerror I) steps (harness_new I (name, capacity) err) =
      harness_execute strerror I step
        \<lparr>test_name = name, byte_stream = t, steps_executed = initialized capacity # map step_string before, test_cerr = err\<rparr>"
    by (simp add: split)
  with split t e show ?thesis
    by (intro disjI2 exI [of _ before] exI [of _ step] exI [of _ after] exI [of _ t] exI [of _ e] exI [of _ u])
      (simp add: harness_execute_def split: test_error.split)
qed

end
