(* ===== verification/Reassembler_Test.thy ===== *)
theory Reassembler_Test
  imports Stream_Test
begin

text \<open>
  The tests of \<^verbatim>\<open>StreamReassembler\<close>: \<^verbatim>\<open>tests/fsm_stream_reassembler_harness.hh\<close>, the six programs that use it and the two that do not,
  \<^verbatim>\<open>fsm_stream_reassembler_many.cc\<close> and \<^verbatim>\<open>fsm_stream_reassembler_win.cc\<close>. As in theory \<open>Stream_Test\<close>, the class is a parameter, and the
  programs are run on the class of this commit; theory \<open>Reassembly\<close> shows that every class that does what the comments say passes. What the programs take
  from \<^verbatim>\<open>mt19937\<close>, \<^verbatim>\<open>shuffle\<close> and \<^verbatim>\<open>uniform_int_distribution\<close> is a parameter too.
\<close>

subsection \<open>The class under test\<close>

text \<open>The members of the class, and those of the stream that \<^verbatim>\<open>stream_out()\<close> refers to.\<close>

record 's reassembler_class =
  r_new :: "nat \<Rightarrow> 's"
  r_push_substring :: "bytes \<Rightarrow> nat \<Rightarrow> bool \<Rightarrow> ('s, unit) prog"
  r_unassembled_bytes :: "('s, nat) prog"
  r_buffer_size :: "('s, nat) prog"
  r_read :: "nat \<Rightarrow> ('s, bytes) prog"
  r_bytes_written :: "('s, nat) prog"
  r_eof :: "('s, bool) prog"

subsection \<open>Test steps\<close>

datatype reassembler_step =
    BytesAvailable string
  | BytesAssembled nat
  | UnassembledBytes nat
  | AtEof
  | NotAtEof
  | SubmitSegment string nat bool

fun reassembler_description :: "reassembler_step \<Rightarrow> string" where
  "reassembler_description (BytesAvailable bytes) =
     ''stream_out().buffer_size() returned '' @ string_of_nat (length bytes) @ '', and stream_out().read('' @
     string_of_nat (length bytes) @ '') returned the string \"'' @ bytes @ ''\"''"
| "reassembler_description (BytesAssembled n) = ''net bytes assembled = '' @ string_of_nat n"
| "reassembler_description (UnassembledBytes n) = ''bytes not assembled = '' @ string_of_nat n"
| "reassembler_description AtEof = ''at EOF''"
| "reassembler_description NotAtEof = ''not at EOF''"
| "reassembler_description (SubmitSegment data index eof) =
     ''substring submitted with data \"'' @ data @ ''\", index `'' @ string_of_nat index @ ''`, eof `'' @ string_of_bool eof @ ''`''"

fun to_string_step :: "reassembler_step \<Rightarrow> string" where
  "to_string_step (SubmitSegment data index eof) =
     ''Action:      '' @ reassembler_description (SubmitSegment data index eof)"
| "to_string_step step = ''Expectation: '' @ reassembler_description step"

fun reassembler_execute :: "'s reassembler_class \<Rightarrow> reassembler_step \<Rightarrow> ('s, unit) test_prog" where
  "reassembler_execute I (BytesAvailable bytes) =
     called (r_buffer_size I) (\<lambda>size.
     if size \<noteq> length bytes
     then
       called (r_buffer_size I) (\<lambda>size.
       violated (''The reassembler was expected to have `'' @ string_of_nat (length bytes) @ ''` bytes available, but there were `'' @
         string_of_nat size @ ''`''))
     else
       called (r_read I (length bytes)) (\<lambda>data.
       if data \<noteq> bytes_of_string bytes
       then violated (''The reassembler was expected to have  bytes \"'' @ bytes @ ''\", but there were \"'' @ string_of_bytes data @ ''\"'')
       else holds))"
| "reassembler_execute I (BytesAssembled n) =
     called (r_bytes_written I) (\<lambda>written.
     if written \<noteq> n
     then
       called (r_bytes_written I) (\<lambda>written.
       violated (''The reassembler was expected to have `'' @ string_of_nat n @ ''` total bytes assembled, but there were `'' @
         string_of_nat written @ ''`''))
     else holds)"
| "reassembler_execute I (UnassembledBytes n) =
     called (r_unassembled_bytes I) (\<lambda>waiting.
     if waiting \<noteq> n
     then
       called (r_unassembled_bytes I) (\<lambda>waiting.
       violated (''The reassembler was expected to have `'' @ string_of_nat n @ ''` bytes not assembled, but there were `'' @
         string_of_nat waiting @ ''`''))
     else holds)"
| "reassembler_execute I AtEof =
     called (r_eof I) (\<lambda>eof. if \<not> eof then violated ''The reassembler was expected to be at EOF, but was not'' else holds)"
| "reassembler_execute I NotAtEof =
     called (r_eof I) (\<lambda>eof. if eof then violated ''The reassembler was expected to **not** be at EOF, but was'' else holds)"
| "reassembler_execute I (SubmitSegment data index eof) =
     called (r_push_substring I (bytes_of_string data) index eof) (\<lambda>_. holds)"

subsection \<open>The harness\<close>

record 's reassembler_harness =
  reassembler :: 's
  rh_steps :: "string list"
  rh_cerr :: string

definition reassembler_initialized :: "nat \<Rightarrow> string" where
  "reassembler_initialized capacity = ''Initialized (capacity = '' @ string_of_nat capacity @ '')''"

definition reassembler_harness_new :: "'s reassembler_class \<Rightarrow> nat \<Rightarrow> string \<Rightarrow> 's reassembler_harness" where
  "reassembler_harness_new I capacity err =
     \<lparr>reassembler = r_new I capacity, rh_steps = [reassembler_initialized capacity], rh_cerr = err\<rparr>"

definition reassembler_harness_execute ::
  "(int \<Rightarrow> string) \<Rightarrow> 's reassembler_class \<Rightarrow> reassembler_step \<Rightarrow> ('s reassembler_harness, unit) test_prog" where
  "reassembler_harness_execute strerror I step h =
     (let report = \<lambda>message. failure_report ''Failure message'' (to_string_step step) message (rh_steps h) in
      case reassembler_execute I step (reassembler h) of
        (Inr _, s) \<Rightarrow> (Inr (), h\<lparr>reassembler := s, rh_steps := rh_steps h @ [to_string_step step]\<rparr>)
      | (Inl (Violation message), s) \<Rightarrow>
          (Inl (Violation message), h\<lparr>reassembler := s, rh_cerr := rh_cerr h @ report message\<rparr>)
      | (Inl (Thrown e), s) \<Rightarrow>
          if is_undefined e then (Inl (Thrown e), h\<lparr>reassembler := s\<rparr>)
          else
            (Inl (Violation ''The test caused your implementation to throw an exception!''),
             h\<lparr>reassembler := s, rh_cerr := rh_cerr h @ report (exn_what strerror e)\<rparr>))"

interpretation rst: test_program reassembler "reassembler_execute I" "reassembler_harness_execute strerror I"
    "\<lambda>s steps h. h\<lparr>reassembler := s, rh_steps := rh_steps h @ map to_string_step steps\<rparr>"
    "reassembler_harness_new I" "r_new I" rh_cerr
  for I :: "'s reassembler_class" and strerror
  by unfold_locales (auto simp: reassembler_harness_execute_def reassembler_harness_new_def Let_def split: test_error.split)

subsection \<open>Programs with the harness\<close>

text \<open>A test is the capacity of its harness, and the steps.\<close>

type_synonym reassembler_test = "nat \<times> reassembler_step list"

definition reassembler_main :: "(int \<Rightarrow> string) \<Rightarrow> 's reassembler_class \<Rightarrow> reassembler_test list \<Rightarrow> string \<Rightarrow> (exn + int) \<times> string" where
  "reassembler_main strerror I tests =
     test_main strerror (run_tests (reassembler_harness_new I) (reassembler_harness_execute strerror I) rh_cerr tests)"

text \<open>
  A random generator with its state, and what \<^verbatim>\<open>shuffle\<close> and \<^verbatim>\<open>uniform_int_distribution\<close> make of it.
\<close>

record 'g generator =
  draw :: "'g \<Rightarrow> uint32 \<times> 'g"
  shuffle :: "(nat \<times> nat) list \<Rightarrow> 'g \<Rightarrow> (nat \<times> nat) list \<times> 'g"
  uniform :: "nat \<Rightarrow> nat \<Rightarrow> 'g \<Rightarrow> nat \<times> 'g"

definition reassembler_single :: "reassembler_test list" where
  "reassembler_single =
     [(65000, [BytesAssembled 0, BytesAvailable '''', NotAtEof]),
      (65000, [SubmitSegment ''a'' 0 False, BytesAssembled 1, BytesAvailable ''a'', NotAtEof]),
      (65000, [SubmitSegment ''a'' 0 True, BytesAssembled 1, BytesAvailable ''a'', AtEof]),
      (65000, [SubmitSegment '''' 0 True, BytesAssembled 0, BytesAvailable '''', AtEof]),
      (65000, [SubmitSegment ''b'' 0 True, BytesAssembled 1, BytesAvailable ''b'', AtEof]),
      (65000, [SubmitSegment '''' 0 False, BytesAssembled 0, BytesAvailable '''', NotAtEof]),
      (8, [SubmitSegment ''abcdefgh'' 0 False, BytesAssembled 8, BytesAvailable ''abcdefgh'', NotAtEof]),
      (8, [SubmitSegment ''abcdefgh'' 0 True, BytesAssembled 8, BytesAvailable ''abcdefgh'', AtEof]),
      (8, [SubmitSegment ''abc'' 0 False, BytesAssembled 3, SubmitSegment ''bcdefgh'' 1 True, BytesAssembled 8,
        BytesAvailable ''abcdefgh'', AtEof]),
      (8, [SubmitSegment ''abc'' 0 False, BytesAssembled 3, NotAtEof, SubmitSegment ''ghX'' 6 True, BytesAssembled 3,
        NotAtEof, SubmitSegment ''cdefg'' 2 False, BytesAssembled 8, BytesAvailable ''abcdefgh'', NotAtEof]),
      (8, [SubmitSegment ''abc'' 0 False, BytesAssembled 3, NotAtEof, SubmitSegment '''' 6 False, BytesAssembled 3,
        NotAtEof, SubmitSegment ''de'' 3 True, BytesAssembled 5, BytesAvailable ''abcde'', AtEof])]"

definition reassembler_seq :: "reassembler_test list" where
  "reassembler_seq =
     [(65000, [SubmitSegment ''abcd'' 0 False, BytesAssembled 4, BytesAvailable ''abcd'', NotAtEof,
        SubmitSegment ''efgh'' 4 False, BytesAssembled 8, BytesAvailable ''efgh'', NotAtEof]),
      (65000, [SubmitSegment ''abcd'' 0 False, BytesAssembled 4, NotAtEof, SubmitSegment ''efgh'' 4 False,
        BytesAssembled 8, BytesAvailable ''abcdefgh'', NotAtEof]),
      (65000, concat (map (\<lambda>i. [BytesAssembled (4 * i), SubmitSegment ''abcd'' (4 * i) False, NotAtEof]) [0..<100]) @
        [BytesAvailable (concat (replicate 100 ''abcd'')), NotAtEof]),
      (65000, concat (map (\<lambda>i. [BytesAssembled (4 * i), SubmitSegment ''abcd'' (4 * i) False, NotAtEof, BytesAvailable ''abcd''])
        [0..<100]))]"

text \<open>The random parts of \<^verbatim>\<open>"abcdefgh"\<close> that \<^verbatim>\<open>fsm_stream_reassembler_dup.cc\<close> submits again.\<close>

fun dup_ranges :: "'g generator \<Rightarrow> nat \<Rightarrow> 'g \<Rightarrow> (nat \<times> nat) list" where
  "dup_ranges G 0 g = []"
| "dup_ranges G (Suc n) g =
     (let (start_i, g1) = uniform G 0 8 g;
          (end_i, g2) = uniform G start_i 8 g1
      in (start_i, end_i) # dup_ranges G n g2)"

fun dup_round :: "nat \<times> nat \<Rightarrow> reassembler_step list" where
  "dup_round (start_i, end_i) =
     [SubmitSegment (take (end_i - start_i) (drop start_i ''abcdefgh'')) start_i False, BytesAssembled 8, BytesAvailable '''', NotAtEof]"

definition dup_tests :: "'g generator \<Rightarrow> 'g \<Rightarrow> reassembler_test list" where
  "dup_tests G g =
     [(65000, [SubmitSegment ''abcd'' 0 False, BytesAssembled 4, BytesAvailable ''abcd'', NotAtEof,
        SubmitSegment ''abcd'' 0 False, BytesAssembled 4, BytesAvailable '''', NotAtEof]),
      (65000, [SubmitSegment ''abcd'' 0 False, BytesAssembled 4, BytesAvailable ''abcd'', NotAtEof,
        SubmitSegment ''abcd'' 4 False, BytesAssembled 8, BytesAvailable ''abcd'', NotAtEof,
        SubmitSegment ''abcd'' 0 False, BytesAssembled 8, BytesAvailable '''', NotAtEof, SubmitSegment ''abcd'' 4 False,
        BytesAssembled 8, BytesAvailable '''', NotAtEof]),
      (65000, [SubmitSegment ''abcdefgh'' 0 False, BytesAssembled 8, BytesAvailable ''abcdefgh'', NotAtEof] @
        concat (map dup_round (dup_ranges G 1000 g))),
      (65000, [SubmitSegment ''abcd'' 0 False, BytesAssembled 4, BytesAvailable ''abcd'', NotAtEof,
        SubmitSegment ''abcdef'' 0 False, BytesAssembled 6, BytesAvailable ''ef'', NotAtEof])]"

text \<open>The program; \<open>gen\<close> is what \<^verbatim>\<open>get_random_generator()\<close> gives, an exception or the generator.\<close>

definition reassembler_dup ::
  "(int \<Rightarrow> string) \<Rightarrow> 's reassembler_class \<Rightarrow> 'g generator \<Rightarrow> exn + 'g \<Rightarrow> string \<Rightarrow> (exn + int) \<times> string" where
  "reassembler_dup strerror I G gen =
     test_main strerror (with_generator gen (\<lambda>g.
       run_tests (reassembler_harness_new I) (reassembler_harness_execute strerror I) rh_cerr (dup_tests G g)))"

lemma dup_main: "reassembler_dup strerror I G (Inr g) = reassembler_main strerror I (dup_tests G g)"
  by (simp add: reassembler_dup_def reassembler_main_def with_generator_def)

definition reassembler_holes :: "reassembler_test list" where
  "reassembler_holes =
     [(65000, [SubmitSegment ''b'' 1 False, BytesAssembled 0, BytesAvailable '''', NotAtEof]),
      (65000, [SubmitSegment ''b'' 1 False, SubmitSegment ''a'' 0 False, BytesAssembled 2, BytesAvailable ''ab'', NotAtEof]),
      (65000, [SubmitSegment ''b'' 1 True, BytesAssembled 0, BytesAvailable '''', NotAtEof, SubmitSegment ''a'' 0 False,
        BytesAssembled 2, BytesAvailable ''ab'', AtEof]),
      (65000, [SubmitSegment ''b'' 1 False, SubmitSegment ''ab'' 0 False, BytesAssembled 2, BytesAvailable ''ab'',
        NotAtEof]),
      (65000, [SubmitSegment ''b'' 1 False, BytesAssembled 0, BytesAvailable '''', NotAtEof, SubmitSegment ''d'' 3 False,
        BytesAssembled 0, BytesAvailable '''', NotAtEof, SubmitSegment ''c'' 2 False, BytesAssembled 0,
        BytesAvailable '''', NotAtEof, SubmitSegment ''a'' 0 False, BytesAssembled 4, BytesAvailable ''abcd'', NotAtEof]),
      (65000, [SubmitSegment ''b'' 1 False, BytesAssembled 0, BytesAvailable '''', NotAtEof, SubmitSegment ''d'' 3 False,
        BytesAssembled 0, BytesAvailable '''', NotAtEof, SubmitSegment ''abc'' 0 False, BytesAssembled 4,
        BytesAvailable ''abcd'', NotAtEof]),
      (65000, [SubmitSegment ''b'' 1 False, BytesAssembled 0, BytesAvailable '''', NotAtEof, SubmitSegment ''d'' 3 False,
        BytesAssembled 0, BytesAvailable '''', NotAtEof, SubmitSegment ''a'' 0 False, BytesAssembled 2,
        BytesAvailable ''ab'', NotAtEof, SubmitSegment ''c'' 2 False, BytesAssembled 4, BytesAvailable ''cd'', NotAtEof,
        SubmitSegment '''' 4 True, BytesAssembled 4, BytesAvailable '''', AtEof])]"

definition reassembler_overlapping :: "reassembler_test list" where
  "reassembler_overlapping =
     [(1000, [SubmitSegment ''a'' 0 False, SubmitSegment ''ab'' 0 False, BytesAssembled 2, BytesAvailable ''ab'']),
      (1000, [SubmitSegment ''a'' 0 False, BytesAvailable ''a'', SubmitSegment ''ab'' 0 False, BytesAvailable ''b'',
        BytesAssembled 2]),
      (1000, [SubmitSegment ''b'' 1 False, BytesAvailable '''', SubmitSegment ''ab'' 0 False, BytesAvailable ''ab'',
        UnassembledBytes 0, BytesAssembled 2]),
      (1000, [SubmitSegment ''b'' 1 False, BytesAvailable '''', SubmitSegment ''bc'' 1 False, BytesAvailable '''',
        UnassembledBytes 2, BytesAssembled 0]),
      (1000, [SubmitSegment ''c'' 2 False, BytesAvailable '''', SubmitSegment ''bcd'' 1 False, BytesAvailable '''',
        UnassembledBytes 3, BytesAssembled 0]),
      (1000, [SubmitSegment ''b'' 1 False, SubmitSegment ''d'' 3 False, BytesAvailable '''',
        SubmitSegment ''bcde'' 1 False, BytesAvailable '''', BytesAssembled 0, UnassembledBytes 4]),
      (1000, [SubmitSegment ''c'' 2 False, SubmitSegment ''bcd'' 1 False, BytesAvailable '''', BytesAssembled 0,
        UnassembledBytes 3, SubmitSegment ''a'' 0 False, BytesAvailable ''abcd'', BytesAssembled 4, UnassembledBytes 0]),
      (1000, [SubmitSegment ''bcd'' 1 False, SubmitSegment ''c'' 2 False, BytesAvailable '''', BytesAssembled 0,
        UnassembledBytes 3, SubmitSegment ''a'' 0 False, BytesAvailable ''abcd'', BytesAssembled 4, UnassembledBytes 0])]"

definition cap_round :: "nat \<Rightarrow> reassembler_step list" where
  "cap_round i =
     (let segment = map char_of [i, i + 1, i + 2, i + 13, i + 47, i + 9] in
      [SubmitSegment segment i False, BytesAssembled (i + 3), BytesAvailable (take 3 segment)])"

definition reassembler_cap :: "reassembler_test list" where
  "reassembler_cap =
     [(2, [SubmitSegment ''ab'' 0 False, BytesAssembled 2, BytesAvailable ''ab'', SubmitSegment ''cd'' 2 False,
        BytesAssembled 4, BytesAvailable ''cd'', SubmitSegment ''ef'' 4 False, BytesAssembled 6, BytesAvailable ''ef'']),
      (2, [SubmitSegment ''ab'' 0 False, BytesAssembled 2, SubmitSegment ''cd'' 2 False, BytesAssembled 2,
        BytesAvailable ''ab'', BytesAssembled 2, SubmitSegment ''cd'' 2 False, BytesAssembled 4, BytesAvailable ''cd'']),
      (2, [SubmitSegment ''bX'' 1 False, BytesAssembled 0, SubmitSegment ''a'' 0 False, BytesAssembled 2,
        BytesAvailable ''ab'']),
      (1, [SubmitSegment ''ab'' 0 False, BytesAssembled 1, SubmitSegment ''ab'' 0 False, BytesAssembled 1,
        BytesAvailable ''a'', BytesAssembled 1, SubmitSegment ''abc'' 0 False, BytesAssembled 2, BytesAvailable ''b'',
        BytesAssembled 2]),
      (8, [SubmitSegment ''a'' 0 False, BytesAssembled 1, BytesAvailable ''a'', NotAtEof, SubmitSegment ''bc'' 1 False,
        BytesAssembled 3, NotAtEof, SubmitSegment ''ghi'' 6 True, BytesAssembled 3, NotAtEof,
        SubmitSegment ''cdefg'' 2 False, BytesAssembled 9, BytesAvailable ''bcdefghi'', AtEof]),
      (3, concat (map (\<lambda>k. cap_round (3 * k)) [0..<33333]))]"

subsection \<open>Programs without the harness\<close>

definition MANY_NREPS :: nat where "MANY_NREPS = 32"
definition NSEGS :: nat where "NSEGS = 128"
definition MAX_SEG_LEN :: nat where "MAX_SEG_LEN = 2048"

text \<open>\<^verbatim>\<open>read(reassembler)\<close>: all that the stream has.\<close>

definition read_all :: "'s reassembler_class \<Rightarrow> ('s, bytes) prog" where
  "read_all I = bnd (r_buffer_size I) (\<lambda>size. r_read I size)"

text \<open>\<^verbatim>\<open>equal(result.cbegin(), result.cend(), d.cbegin())\<close>, which reads past the end of a \<open>d\<close> that is too short.\<close>

fun equal_to :: "bytes \<Rightarrow> bytes \<Rightarrow> bool result" where
  "equal_to [] ds = Inr True"
| "equal_to (x # xs) [] = Inl (UndefinedBehaviour ''equal: read past the end'')"
| "equal_to (x # xs) (d # ds) = (if x = d then equal_to xs ds else Inr False)"

definition check_received :: "'s reassembler_class \<Rightarrow> (nat \<Rightarrow> bool) \<Rightarrow> bytes \<Rightarrow> string \<Rightarrow> string \<Rightarrow> ('s, unit) prog" where
  "check_received I expected d wrong_number wrong_content =
     bnd (read_all I) (\<lambda>result.
     bnd (r_bytes_written I) (\<lambda>written.
     if \<not> expected written then throw (RuntimeError wrong_number)
     else
       bnd (lift_result (equal_to result d)) (\<lambda>same.
       if \<not> same then throw (RuntimeError wrong_content) else ret ())))"

fun push_segments :: "'s reassembler_class \<Rightarrow> bytes \<Rightarrow> nat \<Rightarrow> (nat \<times> nat) list \<Rightarrow> ('s, unit) prog" where
  "push_segments I d offset [] = ret ()"
| "push_segments I d offset ((off, sz) # segs) =
     bnd (r_push_substring I (take sz (drop off d)) off (off + sz = offset)) (\<lambda>_. push_segments I d offset segs)"

text \<open>
  The segments of one repetition: consecutive ones in \<^verbatim>\<open>many\<close>, and ones that overlap what comes before by up to 1023 bytes in
  \<^verbatim>\<open>win\<close>; and random bytes.
\<close>

fun draw_segments :: "'g generator \<Rightarrow> nat \<Rightarrow> nat \<Rightarrow> 'g \<Rightarrow> ((nat \<times> nat) list \<times> nat) \<times> 'g" where
  "draw_segments G 0 offset g = (([], offset), g)"
| "draw_segments G (Suc n) offset g =
     (let (w, g1) = draw G g;
          size = 1 + unat w mod (MAX_SEG_LEN - 1);
          ((segs, offset'), g2) = draw_segments G n (offset + size) g1
      in (((offset, size) # segs, offset'), g2))"

fun draw_overlapping :: "'g generator \<Rightarrow> nat \<Rightarrow> nat \<Rightarrow> 'g \<Rightarrow> ((nat \<times> nat) list \<times> nat) \<times> 'g" where
  "draw_overlapping G 0 offset g = (([], offset), g)"
| "draw_overlapping G (Suc n) offset g =
     (let (w, g1) = draw G g;
          size = 1 + unat w mod (MAX_SEG_LEN - 1);
          (v, g2) = draw G g1;
          offs = min offset (1 + unat v mod 1023);
          ((segs, offset'), g3) = draw_overlapping G n (offset + size) g2
      in (((offset - offs, size + offs) # segs, offset'), g3))"

fun draw_bytes :: "'g generator \<Rightarrow> nat \<Rightarrow> 'g \<Rightarrow> bytes \<times> 'g" where
  "draw_bytes G 0 g = ([], g)"
| "draw_bytes G (Suc n) g = (let (w, g1) = draw G g; (ds, g2) = draw_bytes G n g1 in (ucast w # ds, g2))"

text \<open>A repetition that shuffles the segments, pushes them and reads the stream.\<close>

definition shuffled_rep ::
  "'s reassembler_class \<Rightarrow> 'g generator \<Rightarrow> ('g \<Rightarrow> ((nat \<times> nat) list \<times> nat) \<times> 'g) \<Rightarrow> string \<Rightarrow> string \<Rightarrow> ('g, unit) prog" where
  "shuffled_rep I G segments wrong_number wrong_content g =
     (let ((segs, offset), g1) = segments g;
          (segs, g2) = shuffle G segs g1;
          (d, g3) = draw_bytes G offset g2
      in (fst (bnd (push_segments I d offset segs) (\<lambda>_. check_received I (\<lambda>n. n = offset) d wrong_number wrong_content)
            (r_new I (MAX_SEG_LEN * NSEGS))), g3))"

definition many_rep1 :: "'s reassembler_class \<Rightarrow> 'g generator \<Rightarrow> ('g, unit) prog" where
  "many_rep1 I G =
     shuffled_rep I G (draw_segments G NSEGS 0) ''test 1 - number of bytes RX is incorrect'' ''test 1 - content of RX bytes is incorrect''"

text \<open>The second and the third test of \<^verbatim>\<open>many\<close> begin alike; \<open>rest\<close> is what follows.\<close>

definition hole_rep :: "'s reassembler_class \<Rightarrow> 'g generator \<Rightarrow> string \<Rightarrow> (bytes \<Rightarrow> ('s, unit) prog) \<Rightarrow> ('g, unit) prog" where
  "hole_rep I G test rest g =
     (let size = 1024;
          (d, g1) = draw_bytes G size g
      in (fst (bnd (r_push_substring I d 0 False) (\<lambda>_.
               bnd (r_push_substring I (drop 10 d) (size + 10) False) (\<lambda>_.
               bnd (check_received I (\<lambda>n. n = size) d
                      (test @ '' - number of RX bytes is incorrect'') (test @ '' - content of RX bytes is incorrect'')) (\<lambda>_.
               rest d))) (r_new I 65000)), g1))"

definition many_rep2 :: "'s reassembler_class \<Rightarrow> 'g generator \<Rightarrow> ('g, unit) prog" where
  "many_rep2 I G =
     hole_rep I G ''test 3'' (\<lambda>d.
       let size = 1024 in
       bnd (r_push_substring I (take 7 d) size False) (\<lambda>_.
       bnd (r_push_substring I (take 1 (drop 7 d)) (size + 7) True) (\<lambda>_.
       check_received I (\<lambda>n. n = size + 8) d
         ''test 3 - number of RX bytes is incorrect after 2nd read'' ''test 3 - content of RX bytes is incorrect after 2nd read'')))"

definition many_rep3 :: "'s reassembler_class \<Rightarrow> 'g generator \<Rightarrow> ('g, unit) prog" where
  "many_rep3 I G =
     hole_rep I G ''test 4'' (\<lambda>d.
       let size = 1024 in
       bnd (r_push_substring I (take 15 d) size True) (\<lambda>_.
       check_received I (\<lambda>n. n = 2 * size \<or> n = size + 15) d
         ''test 4 - number of RX bytes is incorrect after 2nd read'' ''test 4 - content of RX bytes is incorrect after 2nd read''))"

fun repeat :: "nat \<Rightarrow> ('g, unit) prog \<Rightarrow> ('g, unit) prog" where
  "repeat 0 rep = ret ()"
| "repeat (Suc n) rep = bnd rep (\<lambda>_. repeat n rep)"

definition reassembler_many :: "'s reassembler_class \<Rightarrow> 'g generator \<Rightarrow> ('g, unit) prog" where
  "reassembler_many I G =
     bnd (repeat MANY_NREPS (many_rep1 I G)) (\<lambda>_.
     bnd (repeat MANY_NREPS (many_rep2 I G)) (\<lambda>_.
     repeat MANY_NREPS (many_rep3 I G)))"

definition reassembler_win :: "'s reassembler_class \<Rightarrow> 'g generator \<Rightarrow> ('g, unit) prog" where
  "reassembler_win I G =
     repeat MANY_NREPS (shuffled_rep I G (draw_overlapping G NSEGS 0)
       ''test 2 - number of RX bytes is incorrect'' ''test 2 - content of RX bytes is incorrect'')"

definition random_main :: "(int \<Rightarrow> string) \<Rightarrow> ('g, unit) prog \<Rightarrow> exn + 'g \<Rightarrow> string \<Rightarrow> (exn + int) \<times> string" where
  "random_main strerror body gen = test_main strerror (with_generator gen (\<lambda>g err. (map_sum Thrown id (fst (body g)), err)))"

lemma random_main_eq: "random_main strerror body (Inr g) err = test_main strerror (\<lambda>err. (map_sum Thrown id (fst (body g)), err)) err"
  by (simp add: random_main_def with_generator_def)

subsection \<open>The reassembler of this commit\<close>

definition StreamReassembler_class :: "StreamReassembler reassembler_class" where
  "StreamReassembler_class =
     \<lparr>r_new = StreamReassembler_new,
      r_push_substring = \<lambda>data index eof r. (Inr (), StreamReassembler_push_substring data index eof r),
      r_unassembled_bytes = \<lambda>r. (Inr (StreamReassembler_unassembled_bytes r), r),
      r_buffer_size = \<lambda>r. (Inr (ByteStream_buffer_size (StreamReassembler_stream_out r)), r),
      r_read = \<lambda>len r. (let (data, out) = ByteStream_read len (StreamReassembler_stream_out r) in (Inr data, r\<lparr>sr_output := out\<rparr>)),
      r_bytes_written = \<lambda>r. (Inr (ByteStream_bytes_written (StreamReassembler_stream_out r)), r),
      r_eof = \<lambda>r. (Inr (ByteStream_eof (StreamReassembler_stream_out r)), r)\<rparr>"

subsection \<open>The reassembler of this commit fails\<close>

lemmas dummy_reassembler_simps = StreamReassembler_class_def StreamReassembler_defs ByteStream_defs test_prog_defs

definition reassembler_verdict :: "nat \<Rightarrow> reassembler_step list \<Rightarrow> reassembler_step \<Rightarrow> string \<Rightarrow> string" where
  "reassembler_verdict capacity before step message =
     failure_report ''Failure message'' (to_string_step step) message (reassembler_initialized capacity # map to_string_step before) @
     ''Exception: '' @ message @ ''\<newline>''"

lemma reassembler_main_fails:
  assumes "\<And>capacity steps. (capacity, steps) \<in> set passing \<Longrightarrow> passes (reassembler_execute I) steps (r_new I capacity) \<noteq> None"
    and "passes (reassembler_execute I) before (r_new I capacity) = Some t"
    and "reassembler_execute I step t = (Inl (Violation message), u)"
    and "tests = passing @ (capacity, before @ step # after) # rest"
  shows "reassembler_main strerror I tests err = (Inr 1, err @ reassembler_verdict capacity before step message)"
  unfolding reassembler_main_def assms(4)
  by (subst rst.program_fails [OF assms(1-3)])
    (auto simp: assms(3) reassembler_harness_execute_def reassembler_harness_new_def reassembler_verdict_def)

definition nothing_assembled :: "nat \<Rightarrow> string" where
  "nothing_assembled n =
     ''The reassembler was expected to have `'' @ string_of_nat n @ ''` total bytes assembled, but there were `'' @ string_of_nat 0 @ ''`''"

lemma few_assembled:
  assumes "\<And>step. step \<in> set before \<Longrightarrow> \<exists>data index eof. step = SubmitSegment data index eof" and "0 < n"
    and "\<And>capacity steps. (capacity, steps) \<in> set passing \<Longrightarrow>
           passes (reassembler_execute StreamReassembler_class) steps (r_new StreamReassembler_class capacity) \<noteq> None"
    and "tests = passing @ (capacity, before @ BytesAssembled n # after) # rest"
  shows "reassembler_main strerror StreamReassembler_class tests err =
    (Inr 1, err @ reassembler_verdict capacity before (BytesAssembled n) (nothing_assembled n))"
proof (rule reassembler_main_fails [OF assms(3) _ _ assms(4)])
  let ?s = "r_new StreamReassembler_class capacity"
  show "passes (reassembler_execute StreamReassembler_class) before ?s = Some ?s" using assms(1)
    by (induction before) (force simp: dummy_reassembler_simps)+
  show "reassembler_execute StreamReassembler_class (BytesAssembled n) ?s =
(Inl (Violation (nothing_assembled n)), ?s)"
    using assms(2) by (simp add: dummy_reassembler_simps nothing_assembled_def)
qed auto

lemma draw_segments_grow:
  "draw_segments G n offset g = ((segs, end), g') \<Longrightarrow> offset + n \<le> end"
  by (induction n arbitrary: offset g segs) (auto simp: Let_def split: prod.splits, fastforce)

lemma draw_overlapping_grow:
  "draw_overlapping G n offset g = ((segs, end), g') \<Longrightarrow> offset + n \<le> end"
  by (induction n arbitrary: offset g segs) (auto simp: Let_def split: prod.splits, fastforce)

lemma push_segments_dummy: "push_segments StreamReassembler_class d offset segs r = (Inr (), r)"
  by (induction segs) (auto simp: ret_def bnd_def dummy_reassembler_simps)

lemma check_received_dummy:
  "\<not> expected 0 \<Longrightarrow>
     fst (check_received StreamReassembler_class expected d wrong_number wrong_content r) = Inl (RuntimeError wrong_number)"
  by (simp add: check_received_def read_all_def bnd_def throw_def dummy_reassembler_simps)

lemma shuffled_rep_dummy:
  assumes "\<And>segs offset g'. segments g = ((segs, offset), g') \<Longrightarrow> 0 < offset"
  shows "fst (shuffled_rep StreamReassembler_class G segments wrong_number wrong_content g) = Inl (RuntimeError wrong_number)"
proof -
  obtain segs offset g1 where s: "segments g = ((segs, offset), g1)" by (metis prod.exhaust)
  then have "offset \<noteq> 0" using assms by blast
  then show ?thesis
    by (simp add: shuffled_rep_def s split_beta bnd_def push_segments_dummy check_received_dummy)
qed

lemma repeat_fails: "fst (rep g) = Inl e \<Longrightarrow> 0 < n \<Longrightarrow> fst (repeat n rep g) = Inl e"
  by (cases n; cases "rep g") (auto simp: bnd_def)

text \<open>
  The \<^verbatim>\<open>StreamReassembler\<close> of this commit fails the eight programs of its tests. Each returns \<^verbatim>\<open>EXIT_FAILURE\<close>, since nothing is ever
  assembled: the six that use the harness after its report of the first test that expects a byte, the other two with the message of their
  first check, whatever the random generator gives.
\<close>

theorem reassembler_tests_fail:
  "reassembler_main strerror StreamReassembler_class reassembler_single err =
     (Inr 1, err @ reassembler_verdict 65000 [SubmitSegment ''a'' 0 False] (BytesAssembled 1) (nothing_assembled 1)) \<and>
   reassembler_main strerror StreamReassembler_class reassembler_seq err =
     (Inr 1, err @ reassembler_verdict 65000 [SubmitSegment ''abcd'' 0 False] (BytesAssembled 4) (nothing_assembled 4)) \<and>
   reassembler_dup strerror StreamReassembler_class G (Inr g) err =
     (Inr 1, err @ reassembler_verdict 65000 [SubmitSegment ''abcd'' 0 False] (BytesAssembled 4) (nothing_assembled 4)) \<and>
   reassembler_main strerror StreamReassembler_class reassembler_holes err =
     (Inr 1, err @ reassembler_verdict 65000 [SubmitSegment ''b'' 1 False, SubmitSegment ''a'' 0 False] (BytesAssembled 2) (nothing_assembled 2)) \<and>
   reassembler_main strerror StreamReassembler_class reassembler_overlapping err =
     (Inr 1, err @ reassembler_verdict 1000 [SubmitSegment ''a'' 0 False, SubmitSegment ''ab'' 0 False] (BytesAssembled 2) (nothing_assembled 2)) \<and>
   reassembler_main strerror StreamReassembler_class reassembler_cap err =
     (Inr 1, err @ reassembler_verdict 2 [SubmitSegment ''ab'' 0 False] (BytesAssembled 2) (nothing_assembled 2)) \<and>
   random_main strerror (reassembler_many StreamReassembler_class G) (Inr g) err =
     (Inr 1, err @ ''Exception: test 1 - number of bytes RX is incorrect\<newline>'') \<and>
   random_main strerror (reassembler_win StreamReassembler_class G) (Inr g) err =
     (Inr 1, err @ ''Exception: test 2 - number of RX bytes is incorrect\<newline>'')"
  (is "?single \<and> ?seq \<and> ?dup \<and> ?holes \<and> ?overlapping \<and> ?cap \<and> ?many \<and> ?win")
proof (intro conjI)
  show ?single
    by (rule few_assembled [where passing = "take 1 reassembler_single"])
      (auto simp: reassembler_single_def dummy_reassembler_simps)
  show ?seq
    by (rule few_assembled [where passing = "[]"]) (auto simp: reassembler_seq_def)
  show ?dup
    unfolding dup_main by (rule few_assembled [where passing = "[]"]) (auto simp: dup_tests_def)
  show ?holes
    by (rule few_assembled [where passing = "take 1 reassembler_holes"])
      (auto simp: reassembler_holes_def dummy_reassembler_simps)
  show ?overlapping
    by (rule few_assembled [where passing = "[]"]) (auto simp: reassembler_overlapping_def)
  show ?cap
    by (rule few_assembled [where passing = "[]"]) (auto simp: reassembler_cap_def)
  have "fst (repeat MANY_NREPS (many_rep1 StreamReassembler_class G) g) = Inl (RuntimeError ''test 1 - number of bytes RX is incorrect'')"
    unfolding many_rep1_def
    by (intro repeat_fails shuffled_rep_dummy) (auto dest: draw_segments_grow simp: MANY_NREPS_def NSEGS_def)
  then show ?many
    by (auto simp: random_main_eq test_main_def reassembler_many_def bnd_def exn_what_def split: prod.split)
  have "fst (reassembler_win StreamReassembler_class G g) = Inl (RuntimeError ''test 2 - number of RX bytes is incorrect'')"
    unfolding reassembler_win_def
    by (intro repeat_fails shuffled_rep_dummy) (auto dest: draw_overlapping_grow simp: MANY_NREPS_def NSEGS_def)
  then show ?win
    by (auto simp: random_main_eq test_main_def exn_what_def split: prod.split)
qed

end
