(* ===== verification/Reassembly.thy ===== *)
theory Reassembly
  imports Reassembler_Test "HOL-Library.Multiset"
begin

text \<open>
  A specification of the reassembler, from the comments of \<^verbatim>\<open>stream_reassembler.hh\<close>, the invariant by which what it has written is the longest
  contiguous part of what it has received, and that every class that follows it passes the tests of theory \<open>Reassembler_Test\<close>.
\<close>

subsection \<open>The specification\<close>














subsection \<open>What it holds\<close>

















subsection \<open>The programs without the harness\<close>






















subsection \<open>The programs with the harness\<close>

































subsection \<open>Classes that keep the promises\<close>
















end
