(* ===== verification/Webget.thy ===== *)
theory Webget
  imports Posix
begin

text \<open>
  \<^verbatim>\<open>apps/webget.cc\<close>. The program's arguments are the list \<open>argv\<close>; its only output is on
  \<^verbatim>\<open>cerr\<close>, the state of its computations. \<^verbatim>\<open>get_URL\<close> is the placeholder of the starter code.
\<close>

datatype exit_status = Abort | Return int

definition EXIT_SUCCESS :: int where "EXIT_SUCCESS = 0"
definition EXIT_FAILURE :: int where "EXIT_FAILURE = 1"

definition print_err :: "string \<Rightarrow> (string, unit) prog" where
  "print_err s = modify (\<lambda>cerr. cerr @ s)"

definition get_URL :: "string \<Rightarrow> string \<Rightarrow> (string, unit) prog" where
  "get_URL host path =
     bnd (print_err (''Function called: get_URL('' @ host @ '', '' @ path @ '').\<newline>'')) (\<lambda>_.
     print_err ''Warning: get_URL() has not been implemented yet.\<newline>'')"

definition webget_main :: "(int \<Rightarrow> string) \<Rightarrow> string list \<Rightarrow> (string, exit_status) prog" where
  "webget_main strerror argv =
     try_catch
       (if length argv = 0 then ret Abort
        else if length argv \<noteq> 3
        then
          bnd (print_err (''Usage: '' @ argv ! 0 @ '' HOST PATH\<newline>'')) (\<lambda>_.
          bnd (print_err ([CHR 0x09] @ ''Example: '' @ argv ! 0 @ '' stanford.edu /class/cs144\<newline>'')) (\<lambda>_.
          ret (Return EXIT_FAILURE)))
        else
          bnd (get_URL (argv ! 1) (argv ! 2)) (\<lambda>_.
          ret (Return EXIT_SUCCESS)))
       (\<lambda>e. bnd (print_err (exn_what strerror e @ ''\<newline>'')) (\<lambda>_. ret (Return EXIT_FAILURE)))"

lemma webget_main_spec:
  "webget_main strerror argv cerr =
     (case argv of
        [] \<Rightarrow> (Inr Abort, cerr)
      | [prog, host, path] \<Rightarrow>
          (Inr (Return 0), cerr @ ''Function called: get_URL('' @ host @ '', '' @ path @ '').\<newline>'' @
             ''Warning: get_URL() has not been implemented yet.\<newline>'')
      | prog # _ \<Rightarrow>
          (Inr (Return 1), cerr @ ''Usage: '' @ prog @ '' HOST PATH\<newline>'' @
             [CHR 0x09] @ ''Example: '' @ prog @ '' stanford.edu /class/cs144\<newline>''))"
  by (auto simp: webget_main_def get_URL_def print_err_def try_catch_def prog_defs EXIT_SUCCESS_def EXIT_FAILURE_def
      split: list.split)

end
