(* ===== verification/Clock.thy ===== *)
theory Clock
  imports Sponge_Prelude
begin

text \<open>
  \<^verbatim>\<open>timestamp_ms\<close> of \<^verbatim>\<open>util/util.cc\<close>. The steady clock is a parameter: a reading is a number of
  nanoseconds and may change the world. The function's static variable is part of its state; it
  is empty until the first call.
\<close>

type_synonym uint64 = "64 word"

text \<open>Division of the C++ language, and \<^verbatim>\<open>duration_cast\<close> from nanoseconds to milliseconds with it.\<close>

definition trunc_div :: "int \<Rightarrow> int \<Rightarrow> int" where
  "trunc_div a b = sgn a * sgn b * (\<bar>a\<bar> div \<bar>b\<bar>)"

definition milliseconds_of :: "int \<Rightarrow> int" where
  "milliseconds_of nanoseconds = trunc_div nanoseconds 1000000"

record 'w clock_state =
  program_start :: "int option"
  clock_world :: 'w

definition steady_now :: "('w \<Rightarrow> int \<times> 'w) \<Rightarrow> ('w clock_state, int) prog" where
  "steady_now now s = (let (t, w) = now (clock_world s) in (Inr t, s\<lparr>clock_world := w\<rparr>))"

text \<open>The initialisation of the static variable, at the first time control passes it.\<close>

definition get_program_start :: "('w \<Rightarrow> int \<times> 'w) \<Rightarrow> ('w clock_state, int) prog" where
  "get_program_start now =
     bnd (gets program_start) (\<lambda>start.
     case start of
       Some t \<Rightarrow> ret t
     | None \<Rightarrow> bnd (steady_now now) (\<lambda>t. bnd (modify (\<lambda>s. s\<lparr>program_start := Some t\<rparr>)) (\<lambda>_. ret t)))"

definition timestamp_ms :: "('w \<Rightarrow> int \<times> 'w) \<Rightarrow> ('w clock_state, uint64) prog" where
  "timestamp_ms now =
     bnd (get_program_start now) (\<lambda>start.
     bnd (steady_now now) (\<lambda>t.
     ret (word_of_int (milliseconds_of (t - start)))))"

subsection \<open>A clock that does not go back\<close>

text \<open>
  \<open>time\<close> is the time of a world. A reading lies between the time before and the time after it; this is what
  \<^verbatim>\<open>steady_clock\<close> promises. A \<^verbatim>\<open>time_point\<close> is a signed 64-bit count, so no two readings are
  \<open>2 ^ 63\<close> nanoseconds (292 years) apart.
\<close>

definition steady :: "('w \<Rightarrow> int \<times> 'w) \<Rightarrow> ('w \<Rightarrow> int) \<Rightarrow> bool" where
  "steady now time \<longleftrightarrow> (\<forall>W t W'. now W = (t, W') \<longrightarrow> time W \<le> t \<and> t \<le> time W')"

definition started_by :: "('w \<Rightarrow> int) \<Rightarrow> 'w clock_state \<Rightarrow> bool" where
  "started_by time s \<longleftrightarrow> (case program_start s of None \<Rightarrow> True | Some t \<Rightarrow> t \<le> time (clock_world s))"

lemma milliseconds_of_nonneg: "0 \<le> n \<Longrightarrow> milliseconds_of n = n div 1000000"
  by (cases "n = 0") (simp_all add: milliseconds_of_def trunc_div_def)

lemma milliseconds_bounds:
  assumes "0 \<le> n" and "n < 2 ^ 63"
  shows "int (unat (word_of_int (milliseconds_of n) :: uint64)) = n div 1000000"
    and "1000000 * int (unat (word_of_int (milliseconds_of n) :: uint64)) \<le> n"
    and "n < 1000000 * (int (unat (word_of_int (milliseconds_of n) :: uint64)) + 1)"
proof -
  have "0 \<le> n div 1000000" "n div 1000000 < 2 ^ 64"
    using assms pos_mod_sign [of 1000000 n] mult_div_mod_eq [of 1000000 n] by simp_all
  then have "uint (word_of_int (n div 1000000) :: uint64) = n div 1000000"
    by (simp add: uint_word_of_int take_bit_int_eq_self)
  with assms show *: "int (unat (word_of_int (milliseconds_of n) :: uint64)) = n div 1000000"
    by (simp add: milliseconds_of_nonneg)
  show "1000000 * int (unat (word_of_int (milliseconds_of n) :: uint64)) \<le> n"
    "n < 1000000 * (int (unat (word_of_int (milliseconds_of n) :: uint64)) + 1)"
    unfolding * using pos_mod_sign [of 1000000 n] pos_mod_bound [of 1000000 n] mult_div_mod_eq [of 1000000 n]
    by simp_all
qed

text \<open>One call: the origin of time it measures from, and the reading it measures to.\<close>

lemma timestamp_ms_result:
  assumes st: "steady now time" and inv: "started_by time s" and call: "timestamp_ms now s = (r, s')"
  obtains t0 t where "program_start s' = Some t0" "r = Inr (word_of_int (milliseconds_of (t - t0)))"
    "t0 \<le> t" "time (clock_world s) \<le> t" "t \<le> time (clock_world s')" "started_by time s'"
    "case program_start s of Some t' \<Rightarrow> t0 = t' | None \<Rightarrow> time (clock_world s) \<le> t0"
proof (cases "program_start s")
  case (Some t0)
  obtain t W where n: "now (clock_world s) = (t, W)" by (cases "now (clock_world s)")
  then have b: "time (clock_world s) \<le> t" "t \<le> time W" using st by (auto simp: steady_def)
  have "r = Inr (word_of_int (milliseconds_of (t - t0)))" "s' = s\<lparr>clock_world := W\<rparr>"
    using call Some n by (auto simp: timestamp_ms_def get_program_start_def steady_now_def prog_defs)
  with b inv Some that [of t0 t] show thesis by (simp add: started_by_def)
next
  case None
  obtain t0 W0 where n0: "now (clock_world s) = (t0, W0)" by (cases "now (clock_world s)")
  obtain t W where n: "now W0 = (t, W)" by (cases "now W0")
  have b: "time (clock_world s) \<le> t0" "t0 \<le> time W0" "time W0 \<le> t" "t \<le> time W"
    using st n0 n by (auto simp: steady_def)
  have "r = Inr (word_of_int (milliseconds_of (t - t0)))" "s' = s\<lparr>clock_world := W, program_start := Some t0\<rparr>"
    using call None n0 n by (auto simp: timestamp_ms_def get_program_start_def steady_now_def prog_defs)
  with b None that [of t0 t] show thesis by (simp add: started_by_def)
qed

subsection \<open>Property\<close>

text \<open>
  C34: With a steady clock, \<^verbatim>\<open>timestamp_ms\<close> returns whole milliseconds, rounded down and without
  wrap-around, and a later call, however much later, never returns less than an earlier one. Time is counted from the first
  call: the origin that every call measures from is not before the first call began, whenever
  the program started.
\<close>

theorem timestamp_ms_bounds:
  assumes "steady now time" and "program_start s = None"
    and "timestamp_ms now s = (r, s1)"
    and "program_start s2 = program_start s1" and "time (clock_world s1) \<le> time (clock_world s2)"
    and "timestamp_ms now s2 = (r', s3)"
    and "time (clock_world s3) - time (clock_world s) < 2 ^ 63"
  shows "\<exists>t0 t t' k k'. r = Inr k \<and> r' = Inr k' \<and> unat k \<le> unat k' \<and>
    time (clock_world s) \<le> t0 \<and> t0 \<le> t \<and> t \<le> time (clock_world s1) \<and>
    time (clock_world s2) \<le> t' \<and> t' \<le> time (clock_world s3) \<and>
    1000000 * int (unat k) \<le> t - t0 \<and> t - t0 < 1000000 * (int (unat k) + 1) \<and>
    1000000 * int (unat k') \<le> t' - t0 \<and> t' - t0 < 1000000 * (int (unat k') + 1)"
proof -
  have "started_by time s" using assms(2) by (simp add: started_by_def)
  then obtain t0 t where
    t: "program_start s1 = Some t0" "r = Inr (word_of_int (milliseconds_of (t - t0)))"
    "t0 \<le> t" "t \<le> time (clock_world s1)" "started_by time s1"
    and "case program_start s of Some t' \<Rightarrow> t0 = t' | None \<Rightarrow> time (clock_world s) \<le> t0"
    using timestamp_ms_result [OF assms(1) _ assms(3)] by blast
  then have t0: "time (clock_world s) \<le> t0" using assms(2) by simp
  have "started_by time s2" using t(1,5) assms(4,5) by (auto simp: started_by_def)
  then obtain t0' t' where
    t': "r' = Inr (word_of_int (milliseconds_of (t' - t0')))" "t0' \<le> t'" "time (clock_world s2) \<le> t'"
    "t' \<le> time (clock_world s3)"
    and "case program_start s2 of Some t' \<Rightarrow> t0' = t' | None \<Rightarrow> time (clock_world s2) \<le> t0'"
    using timestamp_ms_result [OF assms(1) _ assms(6)] by blast
  then have [simp]: "t0' = t0" using t(1) assms(4) by simp
  have range: "0 \<le> t - t0" "t - t0 < 2 ^ 63" "0 \<le> t' - t0" "t' - t0 < 2 ^ 63" "t - t0 \<le> t' - t0"
    using t t' t0 assms(5,7) by simp_all
  note k = milliseconds_bounds [OF range(1,2)] and k' = milliseconds_bounds [OF range(3,4)]
  have "(t - t0) div 1000000 \<le> (t' - t0) div 1000000" using range(5) by (rule zdiv_mono1) simp
  with k(1) k'(1) have mono: "unat (word_of_int (milliseconds_of (t - t0)) :: uint64) \<le>
      unat (word_of_int (milliseconds_of (t' - t0)) :: uint64)" by linarith
  show ?thesis
    by (rule exI [of _ t0], rule exI [of _ t], rule exI [of _ t'], rule exI [of _ "word_of_int (milliseconds_of (t - t0))"],
        rule exI [of _ "word_of_int (milliseconds_of (t' - t0))"])
      (intro conjI; fact t t0 t'(2-) k(2,3) k'(2,3) mono t'(1) [simplified])
qed

theorem timestamp_ms_bounds_witness:
  "\<exists>k k'. fst (timestamp_ms (\<lambda>W. (W, W + 4)) \<lparr>program_start = None, clock_world = 9000000\<rparr>) = Inr k \<and>
     fst (timestamp_ms (\<lambda>W. (W, W + 4)) \<lparr>program_start = Some 9000000, clock_world = 12500000\<rparr>) = Inr k' \<and>
     unat k \<le> unat k'"
proof -
  let ?now = "\<lambda>W :: int. (W, W + 4)"
  have first: "timestamp_ms ?now \<lparr>program_start = None, clock_world = 9000000\<rparr> =
      (Inr 0, \<lparr>program_start = Some 9000000, clock_world = 9000008\<rparr>)"
    and second: "timestamp_ms ?now \<lparr>program_start = Some 9000000, clock_world = 12500000\<rparr> =
      (Inr 3, \<lparr>program_start = Some 9000000, clock_world = 12500004\<rparr>)"
    by (simp_all add: timestamp_ms_def get_program_start_def steady_now_def milliseconds_of_def trunc_div_def prog_defs)
  have "steady ?now (\<lambda>W. W)" by (simp add: steady_def)
  from timestamp_ms_bounds [OF this _ first _ _ second] first second show ?thesis by auto
qed

end
