(* ===== verification/Socket_Example.thy ===== *)
theory Socket_Example
  imports Loopback_Host
begin

text \<open>
  The documentation's socket programs, \<^verbatim>\<open>doctests/socket_example_1.cc\<close> (UDP), \<^verbatim>\<open>socket_example_2.cc\<close>
  (TCP), \<^verbatim>\<open>socket_example_3.cc\<close> (a pair of local sockets) and \<^verbatim>\<open>socket_dt.cc\<close>, which runs the three, with the scopes of their
  objects. They are verified twice: on every kernel, that they leave no descriptor behind and have
  no undefined behaviour; on a kernel that behaves as documented, that both messages of each
  program arrive.
\<close>

subsection \<open>The programs\<close>

definition check_data :: "bytes \<Rightarrow> bytes \<Rightarrow> ('w process, unit) prog" where
  "check_data recvd recvd2 =
     (if recvd \<noteq> bytes_of_string ''hi there'' \<or> recvd2 \<noteq> bytes_of_string ''hi yourself''
      then throw (RuntimeError ''wrong data received'')
      else ret ())"

definition example_port :: "uint32 \<Rightarrow> uint16" where
  "example_port v = ucast (v mod 50000 + 1025)"

definition udp_messages :: "('w, 'z) host_kernel_scheme \<Rightarrow> uint16 \<Rightarrow> handle \<Rightarrow> handle \<Rightarrow> ('w process, unit) prog" where
  "udp_messages P portnum sock1 sock2 =
     bnd (Address_of_ip P ''127.0.0.1'' portnum) (\<lambda>destination.
     bnd (UDPSocket_sendto P sock2 destination (BufferViewList_of_string (bytes_of_string ''hi there''))) (\<lambda>_.
     bnd (UDPSocket_recv P sock1 default_mtu) (\<lambda>recvd.
     bnd (Socket_connect P sock1 (source_address recvd)) (\<lambda>_.
     bnd (UDPSocket_send P sock1 (BufferViewList_of_string (bytes_of_string ''hi yourself''))) (\<lambda>_.
     bnd (UDPSocket_recv P sock2 default_mtu) (\<lambda>recvd2.
     check_data (payload recvd) (payload recvd2)))))))"

definition udp_exchange :: "('w, 'z) host_kernel_scheme \<Rightarrow> uint16 \<Rightarrow> ('w process, unit) prog" where
  "udp_exchange P portnum =
     bnd (UDPSocket_new P) (\<lambda>sock1. scoped P sock1 (
     bnd (Address_of_ip P ''127.0.0.1'' portnum) (\<lambda>local.
     bnd (Socket_bind P sock1 local) (\<lambda>_.
     bnd (UDPSocket_new P) (\<lambda>sock2. scoped P sock2 (
     udp_messages P portnum sock1 sock2))))))"

definition socket_example_1 :: "('w, 'z) host_kernel_scheme \<Rightarrow> ('w process, unit) prog" where
  "socket_example_1 P = bnd (random_device (sys_random_device P)) (\<lambda>v. udp_exchange P (example_port v))"

definition tcp_messages :: "('w, 'z) host_kernel_scheme \<Rightarrow> handle \<Rightarrow> handle \<Rightarrow> handle \<Rightarrow> ('w process, unit) prog" where
  "tcp_messages P sock1 sock2 sock3 =
     bnd (FileDescriptor_write_string P sock3 (bytes_of_string ''hi there'') True) (\<lambda>_.
     bnd (FileDescriptor_read P sock2 default_limit) (\<lambda>recvd.
     bnd (FileDescriptor_write_string P sock2 (bytes_of_string ''hi yourself'') True) (\<lambda>_.
     bnd (FileDescriptor_read P sock3 default_limit) (\<lambda>recvd2.
     bnd (FileDescriptor_close P sock1) (\<lambda>_.
     bnd (FileDescriptor_close P sock2) (\<lambda>_.
     bnd (Socket_shutdown P sock3 SHUT_RDWR) (\<lambda>_.
     check_data recvd recvd2)))))))"

definition tcp_exchange :: "('w, 'z) host_kernel_scheme \<Rightarrow> uint16 \<Rightarrow> ('w process, unit) prog" where
  "tcp_exchange P portnum =
     bnd (TCPSocket_new P) (\<lambda>sock1. scoped P sock1 (
     bnd (Address_of_ip P ''127.0.0.1'' portnum) (\<lambda>local.
     bnd (Socket_bind P sock1 local) (\<lambda>_.
     bnd (TCPSocket_listen P sock1 1) (\<lambda>_.
     bnd (TCPSocket_new P) (\<lambda>sock2. scoped P sock2 (
     bnd (Address_of_ip P ''127.0.0.1'' portnum) (\<lambda>remote.
     bnd (Socket_connect P sock2 remote) (\<lambda>_.
     bnd (TCPSocket_accept P sock1) (\<lambda>sock3. scoped P sock3 (
     tcp_messages P sock1 sock2 sock3)))))))))))"

definition socket_example_2 :: "('w, 'z) host_kernel_scheme \<Rightarrow> ('w process, unit) prog" where
  "socket_example_2 P = bnd (random_device (sys_random_device P)) (\<lambda>v. tcp_exchange P (example_port v))"

text \<open>\<^verbatim>\<open>LocalStreamSocket pipe{FileDescriptor(fd)};\<close>\<close>

definition local_socket :: "('w, 'z) host_kernel_scheme \<Rightarrow> int \<Rightarrow> ('w process, handle) prog" where
  "local_socket P fd = bnd (FileDescriptor_new fd) (\<lambda>h. LocalStreamSocket_of_fd P h)"

definition pipe_messages :: "('w, 'z) host_kernel_scheme \<Rightarrow> handle \<Rightarrow> handle \<Rightarrow> ('w process, unit) prog" where
  "pipe_messages P pipe1 pipe2 =
     bnd (FileDescriptor_write_string P pipe1 (bytes_of_string ''hi there'') True) (\<lambda>_.
     bnd (FileDescriptor_read P pipe2 default_limit) (\<lambda>recvd.
     bnd (FileDescriptor_write_string P pipe2 (bytes_of_string ''hi yourself'') True) (\<lambda>_.
     bnd (FileDescriptor_read P pipe1 default_limit) (\<lambda>recvd2.
     check_data recvd recvd2))))"

definition socket_example_3 :: "('w, 'z) host_kernel_scheme \<Rightarrow> ('w process, unit) prog" where
  "socket_example_3 P =
     bnd (syscall (sys_socketpair P AF_UNIX SOCK_STREAM 0)) (\<lambda>(r, fd0, fd1).
     bnd (lift_result (SystemCall ''socketpair'' (sr_val r) (sr_errno r) 0)) (\<lambda>_.
     bnd (local_socket P fd0) (\<lambda>pipe1. scoped P pipe1 (
     bnd (local_socket P fd1) (\<lambda>pipe2. scoped P pipe2 (
     pipe_messages P pipe1 pipe2))))))"

text \<open>\<^verbatim>\<open>main\<close> of \<^verbatim>\<open>socket_dt.cc\<close>.\<close>

definition socket_dt_main :: "('w, 'z) host_kernel_scheme \<Rightarrow> ('w process, int) prog" where
  "socket_dt_main P =
     catch_all
       (bnd (socket_example_1 P) (\<lambda>_.
        bnd (socket_example_2 P) (\<lambda>_.
        bnd (socket_example_3 P) (\<lambda>_.
        ret 0))))"

subsection \<open>On every kernel\<close>

lemma tidy_check_data [tidy_intros]: "tidy c (check_data recvd recvd2)"
  unfolding check_data_def by (intro tidy_intros) simp

lemma tidy_random_device [tidy_intros]:
  assumes "\<And>W. \<not> undefined_behaviour (fst (rd W))"
  shows "tidy c (random_device rd)"
  unfolding random_device_def using assms
  by (intro tidy_bnd_syscall tidy_lift) (metis fst_conv)

lemma tidy_udp:
  assumes "keeps_arrays P" and "memcpy_null P"
  shows "tidy c (udp_exchange P portnum)"
  unfolding udp_exchange_def udp_messages_def UDPSocket_new_def using assms
  by (intro tidy_intros acquires_Socket_new) (auto split: if_splits)

lemma tidy_tcp:
  assumes "keeps_arrays P"
  shows "tidy c (tcp_exchange P portnum)"
  unfolding tcp_exchange_def tcp_messages_def TCPSocket_new_def using assms
  by (intro tidy_intros acquires_Socket_new acquires_accept) (auto split: if_splits)

lemma tidy_pipe: "tidy c (socket_example_3 P)"
  unfolding socket_example_3_def pipe_messages_def local_socket_def
  by (intro tidy_intros acquires_local) (auto split: if_splits)

lemma tidy_examples:
  assumes "keeps_arrays P" and "memcpy_null P" and "\<And>W. \<not> undefined_behaviour (fst (sys_random_device P W))"
  shows "tidy c (bnd (socket_example_1 P) (\<lambda>_. bnd (socket_example_2 P) (\<lambda>_. bnd (socket_example_3 P) (\<lambda>_. ret 0))))"
  unfolding socket_example_1_def socket_example_2_def using assms
  by (intro tidy_bnd tidy_random_device tidy_udp tidy_tcp tidy_pipe tidy_ret)

lemma catch_all_tidy:
  assumes "tidy (use_count s) m" and "process_inv s" and "catch_all m s = (r, t)"
  shows "process_inv t \<and> use_count t = use_count s \<and> (\<exists>x. r = Inr x \<and> (x = 1 \<or> m s = (Inr x, t)))"
proof -
  obtain q u where m: "m s = (q, u)" by (cases "m s")
  from tidyD [OF assms(1,2) refl m] m assms(3) show ?thesis
    by (cases q) (auto simp: catch_all_def try_catch_def ret_def)
qed

subsection \<open>On a kernel that behaves as documented\<close>

text \<open>Messages short enough for one read and one datagram.\<close>

lemma greetings:
  "length (bytes_of_string ''hi there'') \<le> 256" "length (bytes_of_string ''hi yourself'') \<le> 256"
  "length (bytes_of_string ''hi there'') \<le> BUFFER_SIZE" "length (bytes_of_string ''hi yourself'') \<le> BUFFER_SIZE"
  "length (bytes_of_string ''hi there'') \<le> default_mtu" "length (bytes_of_string ''hi yourself'') \<le> default_mtu"
  "bytes_of_string ''hi there'' \<noteq> []" "bytes_of_string ''hi yourself'' \<noteq> []"
  "length (bytes_of_string ''hi there'') < 2 ^ 63" "length (bytes_of_string ''hi yourself'') < 2 ^ 63"
  by (simp_all add: bytes_of_string_def BUFFER_SIZE_def default_mtu_def)

lemma default_sizes: "BUFFER_SIZE \<le> default_limit" "default_mtu < 2147483648"
  by (simp_all add: BUFFER_SIZE_def default_limit_def default_mtu_def)

lemma triple_check_data:
  "Q () C \<Longrightarrow> triple net C (check_data (bytes_of_string ''hi there'') (bytes_of_string ''hi yourself'')) Q"
  by (simp add: check_data_def triple_ret)


lemma loopback_address_length [simp]: "length (loopback_address be p) = 16"
  by (simp add: loopback_address_def)



text \<open>Streams: a message each way between two connected sockets, and the rest of the program.\<close>

lemma triple_stream_exchange:
  assumes lo: "loopback be P net" and fd: "fds C h = Some a" "fds C h' = Some b" "a \<noteq> b"
    and table: "table C a = Some (KConn domain b [])" "table C b = Some (KConn domain a [])"
    and rest: "triple net C (k (bytes_of_string ''hi there'') (bytes_of_string ''hi yourself'')) Q"
  shows "triple net C
     (bnd (FileDescriptor_write_string P h (bytes_of_string ''hi there'') True) (\<lambda>_.
      bnd (FileDescriptor_read P h' default_limit) (\<lambda>recvd.
      bnd (FileDescriptor_write_string P h' (bytes_of_string ''hi yourself'') True) (\<lambda>_.
      bnd (FileDescriptor_read P h default_limit) (\<lambda>recvd2. k recvd recvd2))))) Q"
proof -
  let ?hi = "bytes_of_string ''hi there''" and ?yo = "bytes_of_string ''hi yourself''"
  note kw = loopbackD(9) [OF lo] and kr = loopbackD(10) [OF lo]
  define T where "T X Y = C\<lparr>table := (table C)(a \<mapsto> KConn domain b X, b \<mapsto> KConn domain a Y)\<rparr>" for X Y
  have C: "C = T [] []" using table by (auto simp: T_def fun_upd_idem)
  have T: "fds (T X Y) h = Some a" "fds (T X Y) h' = Some b" "table (T X Y) a = Some (KConn domain b X)"
    "table (T X Y) b = Some (KConn domain a Y)"
    "(T X Y)\<lparr>table := (table (T X Y))(a \<mapsto> KConn domain b Z)\<rparr> = T Z Y"
    "(T X Y)\<lparr>table := (table (T X Y))(b \<mapsto> KConn domain a Z)\<rparr> = T X Z" for X Y Z
    using fd by (simp_all add: T_def fun_upd_twist)
  have "triple net (T [] []) (FileDescriptor_write_string P h ?hi True) (\<lambda>n C'. C' = T [] ?hi)"
    using triple_write [OF kw T(1,3,4) fd(3) greetings(9)] by (rule triple_conseq) (simp add: T)
  moreover have "triple net (T [] ?hi) (FileDescriptor_read P h' default_limit) (\<lambda>str C'. str = ?hi \<and> C' = T [] [])"
    using triple_read [OF kr T(2,4) greetings(7,3) default_sizes(1)] by (rule triple_conseq) (simp add: T)
  moreover have "triple net (T [] []) (FileDescriptor_write_string P h' ?yo True) (\<lambda>n C'. C' = T ?yo [])"
    using triple_write [OF kw T(2,4,3) fd(3) [symmetric] greetings(10)] by (rule triple_conseq) (simp add: T)
  moreover have "triple net (T ?yo []) (FileDescriptor_read P h default_limit) (\<lambda>str C'. str = ?yo \<and> C' = T [] [])"
    using triple_read [OF kr T(1,3) greetings(8,4) default_sizes(1)] by (rule triple_conseq) (simp add: T)
  ultimately show ?thesis
    using rest unfolding C by (auto elim!: triple_bnd)
qed

lemma triple_tcp_messages:
  assumes lo: "loopback be P net" and h: "h1 \<noteq> h2" "h1 \<noteq> h3" "h2 \<noteq> h3"
    and fd: "fds C h1 = Some l" "fds C h2 = Some c" "fds C h3 = Some d" "l \<noteq> c" "l \<noteq> d" "c \<noteq> d"
    and table: "table C l \<noteq> None" "table C c = Some (KConn 2 d [])" "table C d = Some (KConn 2 c [])"
  shows "triple net C (tcp_messages P h1 h2 h3)
    (\<lambda>_ C'. C' = C\<lparr>fds := (fds C)(h1 := None, h2 := None), table := (table C)(l := None, c := None)\<rparr>)"
  unfolding tcp_messages_def
proof (rule triple_stream_exchange [OF lo fd(3,2) fd(6) [symmetric] table(3,2)])
  note k = loopbackD [OF lo]
  let ?C1 = "C\<lparr>fds := (fds C)(h1 := None), table := (table C)(l := None)\<rparr>"
  let ?C2 = "C\<lparr>fds := (fds C)(h1 := None, h2 := None), table := (table C)(l := None, c := None)\<rparr>"
  let ?ok = "check_data (bytes_of_string ''hi there'') (bytes_of_string ''hi yourself'')"
  have "triple net ?C2 (bnd (Socket_shutdown P h3 SHUT_RDWR) (\<lambda>_. ?ok)) (\<lambda>_ C'. C' = ?C2)"
    by (rule triple_bnd [OF triple_shutdown [OF k(11), where fd = d and domain = 2 and peer = c and X = "[]"]])
      (use h fd table in \<open>auto intro: triple_check_data\<close>)
  moreover have "triple net ?C1 (FileDescriptor_close P h2) (\<lambda>_ C'. C' = ?C2)"
    using h fd table by (intro triple_conseq [OF triple_close [OF k(12), where fd = c]]) auto
  moreover have "triple net C (FileDescriptor_close P h1) (\<lambda>_ C'. C' = ?C1)"
    using fd table by (intro triple_conseq [OF triple_close [OF k(12), where fd = l]]) auto
  ultimately show "triple net C (bnd (FileDescriptor_close P h1) (\<lambda>_. bnd (FileDescriptor_close P h2) (\<lambda>_.
      bnd (Socket_shutdown P h3 SHUT_RDWR) (\<lambda>_. ?ok)))) (\<lambda>_ C'. C' = ?C2)"
    by (auto elim!: triple_bnd)
qed

text \<open>From the connection on, and from the second socket on.\<close>

lemma triple_tcp_accept:
  assumes lo: "loopback be P net" and h: "h1 \<noteq> h2" "fds C h1 = Some l" "fds C h2 = Some c" "l \<noteq> c"
    and table: "table C l = Some (KListening a [c])" "table C c = Some KWaiting"
  shows "triple net C (bnd (TCPSocket_accept P h1) (\<lambda>sock3. scoped P sock3 (tcp_messages P h1 h2 sock3)))
    (\<lambda>_ C'. C' = C\<lparr>fds := (fds C)(h1 := None, h2 := None), table := (table C)(l := None, c := None)\<rparr>)"
proof (rule triple_bnd [OF triple_accept [OF loopbackD(6,8) [OF lo] h(2) table]], elim conjE exE,
    rule triple_scoped [OF loopbackD(12) [OF lo]])
  fix h3 C3 d assume h3: "counts C h3 = 0" "fds C h3 = None" "table C d = None"
    and C3: "C3 = C\<lparr>counts := (counts C)(h3 := 1), fds := (fds C)(h3 \<mapsto> d),
        table := (table C)(l \<mapsto> KListening a [], c \<mapsto> KConn 2 d [], d \<mapsto> KConn 2 c [])\<rparr>"
  have ne: "h1 \<noteq> h3" "h2 \<noteq> h3" "l \<noteq> d" "c \<noteq> d" using h h3 table by auto
  show "triple net C3 (tcp_messages P h1 h2 h3) (\<lambda>x C'. counts C' h3 = 1 \<and> (\<forall>fd. fds C' h3 = Some fd \<longrightarrow> table C' fd \<noteq> None) \<and>
      release h3 C' = C\<lparr>fds := (fds C)(h1 := None, h2 := None), table := (table C)(l := None, c := None)\<rparr>)"
  proof (rule triple_conseq [OF triple_tcp_messages [OF lo h(1) ne(1,2), where l = l and c = c and d = d]])
    fix C' :: config
    assume C': "C' = C3\<lparr>fds := (fds C3)(h1 := None, h2 := None), table := (table C3)(l := None, c := None)\<rparr>"
    have "(counts C)(h3 := 0) = counts C"
      "(fds C)(h3 := None, h1 := None, h2 := None) = (fds C)(h1 := None, h2 := None)"
      "(table C)(d := None, l := None, c := None) = (table C)(l := None, c := None)"
      using h3 by (simp_all add: fun_upd_idem)
    moreover have "fds C' h3 = Some d" "table C' d = Some (KConn 2 c [])" using ne by (simp_all add: C' C3)
    ultimately show "counts C' h3 = 1 \<and> (\<forall>fd. fds C' h3 = Some fd \<longrightarrow> table C' fd \<noteq> None) \<and>
      release h3 C' = C\<lparr>fds := (fds C)(h1 := None, h2 := None), table := (table C)(l := None, c := None)\<rparr>"
      using ne h by (simp add: release_def) (simp add: C' C3 fun_upd_twist)
  qed (use ne h in \<open>simp_all add: C3\<close>)
qed

lemma triple_tcp_client:
  assumes lo: "loopback be P net" and h: "fds C h1 = Some l" "table C l = Some (KListening (loopback_address be port) [])"
    and listens: "listens_at (table C) (loopback_address be port) l"
  shows "triple net C (bnd (Socket_new P 2 1) (\<lambda>sock2. scoped P sock2 (
      bnd (Address_of_ip P ''127.0.0.1'' port) (\<lambda>remote. bnd (Socket_connect P sock2 remote) (\<lambda>_.
      bnd (TCPSocket_accept P h1) (\<lambda>sock3. scoped P sock3 (tcp_messages P h1 sock2 sock3)))))))
    (\<lambda>_ C'. C' = C\<lparr>fds := (fds C)(h1 := None), table := (table C)(l := None)\<rparr>)"
proof (rule triple_bnd [OF triple_socket [OF loopbackD(1) [OF lo], where k = KStream]], simp, elim conjE exE,
    rule triple_scoped [OF loopbackD(12) [OF lo]], rule triple_bnd_address [OF loopbackD(13) [OF lo]])
  let ?A = "loopback_address be port"
  fix h2 C3 c and x :: Address assume h2: "counts C h2 = 0" "fds C h2 = None" "table C c = None"
    and C3: "C3 = C\<lparr>counts := (counts C)(h2 := 1), fds := (fds C)(h2 \<mapsto> c), table := (table C)(c \<mapsto> KStream)\<rparr>"
    and x: "addr_size x = 16" "take 16 (addr_storage x) = ?A"
  have ne: "h1 \<noteq> h2" "l \<noteq> c" using h h2 by auto
  let ?C4 = "C3\<lparr>table := (table C)(c \<mapsto> KWaiting, l \<mapsto> KListening ?A [c])\<rparr>"
  have "listens_at (table C3) ?A l" using listens ne by (auto simp: listens_at_def C3)
  then have connect: "triple net C3 (Socket_connect P h2 x) (\<lambda>_ C'. C' = ?C4)"
    using x ne h
    by (intro triple_conseq [OF triple_connect [OF loopbackD(4) [OF lo], where fd = c and l = l and a = ?A
          and K = "(table C)(c \<mapsto> KWaiting, l \<mapsto> KListening ?A [c])"]]) (auto simp: C3)
  have "triple net ?C4 (bnd (TCPSocket_accept P h1) (\<lambda>sock3. scoped P sock3 (tcp_messages P h1 h2 sock3)))
      (\<lambda>_ C'. C' = ?C4\<lparr>fds := (fds ?C4)(h1 := None, h2 := None), table := (table ?C4)(l := None, c := None)\<rparr>)"
    using ne h by (intro triple_tcp_accept [OF lo ne(1), where a = ?A]) (auto simp: C3)
  then have rest: "triple net ?C4 (bnd (TCPSocket_accept P h1) (\<lambda>sock3. scoped P sock3 (tcp_messages P h1 h2 sock3)))
      (\<lambda>x C'. counts C' h2 = 1 \<and> (\<forall>fd. fds C' h2 = Some fd \<longrightarrow> table C' fd \<noteq> None) \<and>
         release h2 C' = C\<lparr>fds := (fds C)(h1 := None), table := (table C)(l := None)\<rparr>)"
    by (rule triple_conseq) (use ne h2 in \<open>auto simp: C3 release_def fun_eq_iff\<close>)
  show "triple net C3 (bnd (Socket_connect P h2 x) (\<lambda>_.
      bnd (TCPSocket_accept P h1) (\<lambda>sock3. scoped P sock3 (tcp_messages P h1 h2 sock3))))
      (\<lambda>x C'. counts C' h2 = 1 \<and> (\<forall>fd. fds C' h2 = Some fd \<longrightarrow> table C' fd \<noteq> None) \<and>
         release h2 C' = C\<lparr>fds := (fds C)(h1 := None), table := (table C)(l := None)\<rparr>)"
    using rest by (intro triple_bnd [OF connect]) simp
qed

lemma triple_tcp_exchange:
  assumes lo: "loopback be P net" and free: "loopback_address be port \<notin> stream_names (table C)" "1024 \<le> unat port"
  shows "triple net C (tcp_exchange P port) (\<lambda>_ C'. C' = C)"
  unfolding tcp_exchange_def TCPSocket_new_def AF_INET_def SOCK_STREAM_def
proof (rule triple_bnd [OF triple_socket [OF loopbackD(1) [OF lo], where k = KStream]], simp, elim conjE exE,
    rule triple_scoped [OF loopbackD(12) [OF lo]], rule triple_bnd_address [OF loopbackD(13) [OF lo]])
  let ?A = "loopback_address be port"
  fix h1 C1 l and x :: Address assume h1: "counts C h1 = 0" "fds C h1 = None" "table C l = None"
    and C1: "C1 = C\<lparr>counts := (counts C)(h1 := 1), fds := (fds C)(h1 \<mapsto> l), table := (table C)(l \<mapsto> KStream)\<rparr>"
    and x: "addr_size x = 16" "take 16 (addr_storage x) = ?A"
  let ?C2 = "C1\<lparr>table := (table C)(l \<mapsto> KNamed ?A)\<rparr>" and ?C3 = "C1\<lparr>table := (table C)(l \<mapsto> KListening ?A [])\<rparr>"
  let ?Q = "\<lambda>_ C'. counts C' h1 = 1 \<and> (\<forall>fd. fds C' h1 = Some fd \<longrightarrow> table C' fd \<noteq> None) \<and> release h1 C' = C"
  have "?A \<notin> stream_names (table C1)" using free h1(3) by (simp add: C1 stream_names_new)
  then have bind: "triple net C1 (Socket_bind P h1 x) (\<lambda>_ C'. C' = ?C2)"
    using x free(2) by (intro triple_conseq [OF triple_bind [OF loopbackD(2) [OF lo], where fd = l and a = ?A and port = port and k = "KNamed ?A"]]) (auto simp: C1)
  have listen: "triple net ?C2 (TCPSocket_listen P h1 1) (\<lambda>_ C'. C' = ?C3)"
    by (intro triple_conseq [OF triple_listen [OF loopbackD(5) [OF lo], where fd = l and a = ?A]]) (auto simp: C1)
  have "listens_at (table ?C3) ?A l" using free by (auto simp: listens_at_def stream_names_def)
  then have client: "triple net ?C3 (bnd (Socket_new P 2 1) (\<lambda>sock2. scoped P sock2 (
      bnd (Address_of_ip P ''127.0.0.1'' port) (\<lambda>remote. bnd (Socket_connect P sock2 remote) (\<lambda>_.
      bnd (TCPSocket_accept P h1) (\<lambda>sock3. scoped P sock3 (tcp_messages P h1 sock2 sock3))))))) ?Q"
    by (intro triple_conseq [OF triple_tcp_client [OF lo, where l = l]]) (use h1 in \<open>auto simp: C1 release_def fun_eq_iff\<close>)
  then show "triple net C1 (bnd (Socket_bind P h1 x) (\<lambda>_. bnd (TCPSocket_listen P h1 1) (\<lambda>_.
      bnd (Socket_new P 2 1) (\<lambda>sock2. scoped P sock2 (
      bnd (Address_of_ip P ''127.0.0.1'' port) (\<lambda>remote. bnd (Socket_connect P sock2 remote) (\<lambda>_.
      bnd (TCPSocket_accept P h1) (\<lambda>sock3. scoped P sock3 (tcp_messages P h1 sock2 sock3))))))))) ?Q"
    by (intro triple_bnd [OF bind], simp, intro triple_bnd [OF listen]) simp
qed

text \<open>The pair of local sockets.\<close>

lemma triple_local_socket:
  assumes "loopback be P net" and "table C fd = Some (KConn 1 peer X)" and "0 \<le> fd"
  shows "triple net C (local_socket P fd)
    (\<lambda>h C'. counts C h = 0 \<and> fds C h = None \<and> C' = C\<lparr>counts := (counts C)(h := 1), fds := (fds C)(h \<mapsto> fd)\<rparr>)"
  using triple_socket_of_fd [OF loopbackD(8) [OF assms(1)] assms(2,3)]
  by (simp add: local_socket_def LocalStreamSocket_of_fd_def [abs_def] AF_UNIX_def SOCK_STREAM_def)

lemma triple_pipes:
  assumes lo: "loopback be P net" and ab: "0 \<le> a" "0 \<le> b" "a \<noteq> b"
    and table: "table C a = Some (KConn 1 b [])" "table C b = Some (KConn 1 a [])"
  shows "triple net C (bnd (local_socket P a) (\<lambda>pipe1. scoped P pipe1 (
      bnd (local_socket P b) (\<lambda>pipe2. scoped P pipe2 (pipe_messages P pipe1 pipe2)))))
    (\<lambda>_ C'. C' = C\<lparr>table := (table C)(a := None, b := None)\<rparr>)"
proof (rule triple_bnd [OF triple_local_socket [OF lo table(1) ab(1)]], elim conjE, rule triple_scoped [OF loopbackD(12) [OF lo]])
  fix h1 C1 assume h1: "counts C h1 = 0" "fds C h1 = None"
    and C1: "C1 = C\<lparr>counts := (counts C)(h1 := 1), fds := (fds C)(h1 \<mapsto> a)\<rparr>"
  have t1: "table C1 b = Some (KConn 1 a [])" using table C1 by simp
  show "triple net C1 (bnd (local_socket P b) (\<lambda>pipe2. scoped P pipe2 (pipe_messages P h1 pipe2)))
      (\<lambda>x C'. counts C' h1 = 1 \<and> (\<forall>fd. fds C' h1 = Some fd \<longrightarrow> table C' fd \<noteq> None) \<and>
         release h1 C' = C\<lparr>table := (table C)(a := None, b := None)\<rparr>)"
  proof (rule triple_bnd [OF triple_local_socket [OF lo t1 ab(2)]], elim conjE, rule triple_scoped [OF loopbackD(12) [OF lo]])
    fix h2 C2 assume h2: "counts C1 h2 = 0" "fds C1 h2 = None"
      and C2: "C2 = C1\<lparr>counts := (counts C1)(h2 := 1), fds := (fds C1)(h2 \<mapsto> b)\<rparr>"
    have ne: "h1 \<noteq> h2" using h2 C1 by auto
    show "triple net C2 (pipe_messages P h1 h2)
      (\<lambda>x C'. counts C' h2 = 1 \<and> (\<forall>fd. fds C' h2 = Some fd \<longrightarrow> table C' fd \<noteq> None) \<and>
         counts (release h2 C') h1 = 1 \<and> (\<forall>fd. fds (release h2 C') h1 = Some fd \<longrightarrow> table (release h2 C') fd \<noteq> None) \<and>
         release h1 (release h2 C') = C\<lparr>table := (table C)(a := None, b := None)\<rparr>)"
      unfolding pipe_messages_def
      by (rule triple_stream_exchange [OF lo, where a = a and b = b and domain = 1], goal_cases)
        (use ne h1 h2 ab table in \<open>auto simp: C1 C2 release_def fun_eq_iff intro!: triple_check_data\<close>)
  qed
qed

lemma triple_example_3:
  assumes lo: "loopback be P net"
  shows "triple net C (socket_example_3 P) (\<lambda>_ C'. C' = C)"
  unfolding socket_example_3_def AF_UNIX_def SOCK_STREAM_def
proof (rule triple_syscall [where R = "\<lambda>x K. \<exists>a b. x = (returns 0, a, b) \<and> 0 \<le> a \<and> 0 \<le> b \<and> a \<noteq> b \<and>
    table C a = None \<and> table C b = None \<and> K = (table C)(a \<mapsto> KConn 1 b [], b \<mapsto> KConn 1 a [])"])
  fix W assume "net W = table C"
  with loopbackD(7) [OF lo] show "\<exists>x W'. sys_socketpair P 1 1 0 W = (x, W') \<and> (\<exists>a b. x = (returns 0, a, b) \<and> 0 \<le> a \<and> 0 \<le> b \<and> a \<noteq> b \<and>
      table C a = None \<and> table C b = None \<and> net W' = (table C)(a \<mapsto> KConn 1 b [], b \<mapsto> KConn 1 a []))"
    unfolding k_socketpair_def by metis
next
  fix x K assume "\<exists>a b. x = (returns 0, a, b) \<and> 0 \<le> a \<and> 0 \<le> b \<and> a \<noteq> b \<and>
      table C a = None \<and> table C b = None \<and> K = (table C)(a \<mapsto> KConn 1 b [], b \<mapsto> KConn 1 a [])"
  then obtain a b where x: "x = (returns 0, a, b)" and ab: "0 \<le> a" "0 \<le> b" "a \<noteq> b" "table C a = None" "table C b = None"
    and K: "K = (table C)(a \<mapsto> KConn 1 b [], b \<mapsto> KConn 1 a [])" by blast
  have "triple net (C\<lparr>table := K\<rparr>) (bnd (local_socket P a) (\<lambda>pipe1. scoped P pipe1 (
      bnd (local_socket P b) (\<lambda>pipe2. scoped P pipe2 (pipe_messages P pipe1 pipe2))))) (\<lambda>_ C'. C' = C)"
    using ab by (intro triple_conseq [OF triple_pipes [OF lo ab(1-3)]]) (auto simp: K fun_upd_twist fun_upd_idem)
  then show "triple net (C\<lparr>table := K\<rparr>) (case x of (r, fd0, fd1) \<Rightarrow>
      bnd (lift_result (SystemCall ''socketpair'' (sr_val r) (sr_errno r) 0)) (\<lambda>_.
      bnd (local_socket P fd0) (\<lambda>pipe1. scoped P pipe1 (
      bnd (local_socket P fd1) (\<lambda>pipe2. scoped P pipe2 (pipe_messages P pipe1 pipe2)))))) (\<lambda>_ C'. C' = C)"
    by (simp add: x SystemCall_def)
qed

text \<open>The port number of the first two examples.\<close>

lemma example_port_range: "unat (example_port v) = unat v mod 50000 + 1025"
proof -
  have v: "unat (v mod 50000) = unat v mod 50000" by (simp add: unat_mod_distrib)
  have "unat v mod 50000 < 50000" by simp
  then have "unat (v mod 50000) + unat (1025 :: uint32) < 2 ^ 32" unfolding v by simp
  then have "unat (v mod 50000 + 1025) = unat (v mod 50000) + unat (1025 :: uint32)"
    using unat_add_lem [of "v mod 50000" 1025] by simp
  then have sum: "unat (v mod 50000 + 1025) = unat v mod 50000 + 1025" unfolding v by simp
  have "unat v mod 50000 + 1025 < 2 ^ 16" using \<open>unat v mod 50000 < 50000\<close> by simp
  then show ?thesis unfolding example_port_def by (simp add: unsigned_ucast_eq sum take_bit_nat_eq_self)
qed

lemma example_port_unprivileged: "1024 \<le> unat (example_port v)"
  unfolding example_port_range by simp

text \<open>Back from configurations to states.\<close>

lemma triple_same:
  assumes "triple net (config_of net s) m (\<lambda>y C'. y = x \<and> C' = config_of net s)" and "process_inv s"
  shows "\<exists>t. m s = (Inr x, t) \<and> process_inv t \<and> use_count t = use_count s \<and> open_fds t = open_fds s \<and> net (world t) = net (world s)"
proof -
  obtain y t where t: "m s = (Inr y, t)" "process_inv t" "y = x \<and> config_of net t = config_of net s"
    using assms refl by (rule tripleE)
  then have "config_of net t = config_of net s" by blast
  then have "use_count t = use_count s \<and> open_fds t = open_fds s \<and> net (world t) = net (world s)"
    by (simp add: config_of_def)
  with t show ?thesis by blast
qed

lemma with_unit: "triple net C m (\<lambda>_ C'. R C') \<Longrightarrow> triple net C m (\<lambda>y C'. y = () \<and> R C')"
  by simp


lemma tcp_example_runs:
  assumes "process_inv s" and "loopback be P net" and "sys_random_device P (world s) = (Inr v, W)"
    and "loopback_address be (example_port v) \<notin> stream_names (net (world s))"
  shows "\<exists>t. socket_example_2 P s = (Inr (), t) \<and> process_inv t \<and> use_count t = use_count s \<and>
    open_fds t = open_fds s \<and> net (world t) = net (world s)"
proof -
  let ?s = "s\<lparr>world := W\<rparr>"
  have W: "net W = net (world s)" using loopbackD(13) [OF assms(2)] assms(3) unfolding k_services_def by (metis prod.inject)
  have "triple net (config_of net ?s) (tcp_exchange P (example_port v)) (\<lambda>_ C'. C' = config_of net ?s)"
    using assms W example_port_unprivileged by (intro triple_tcp_exchange) simp_all
  from triple_same [OF with_unit [OF this]] assms(1) W show ?thesis
    using assms(3) by (auto simp: socket_example_2_def random_device_def bnd_Inr syscall_eq lift_result_def bnd_assoc)
qed

lemma pipe_example_runs:
  assumes "process_inv s" and "loopback be P net"
  shows "\<exists>t. socket_example_3 P s = (Inr (), t) \<and> process_inv t \<and> use_count t = use_count s \<and>
    open_fds t = open_fds s \<and> net (world t) = net (world s)"
  by (rule triple_same [OF with_unit [OF triple_example_3 [OF assms(2)]] assms(1)])


text \<open>The empty host: no sockets, all ports free.\<close>

lemma empty_host:
  "dgram_names (lo_net []) = {}" "stream_names (lo_net []) = {}" "world (init_process []) = []"
  "sys_random_device (lo_kernel be) (world (init_process [])) = (Inr 0, [])" "use_count (init_process []) = (\<lambda>_. 0)"
  by (simp_all add: dgram_names_def stream_names_def lo_net_def lo_kernel_simps init_process_def)


subsection \<open>Properties\<close>

text \<open>
  C16: The TCP example and the example with a pair of local sockets pass on a kernel that behaves as documented between sockets of one host, when the
  port that the first draws is free: the connection is accepted, both messages of each arrive whatever the pieces the kernel takes
  them in, both \<^verbatim>\<open>close\<close>s and the \<^verbatim>\<open>shutdown\<close> succeed, nothing is thrown, and at the end the use counts, the open
  descriptors and the kernel's table of sockets are what they were.
\<close>

theorem stream_examples_pass:
  assumes "process_inv s" and "loopback be P net" and "sys_random_device P (world s) = (Inr v, W)"
    and "loopback_address be (example_port v) \<notin> stream_names (net (world s))"
  shows "(\<exists>t. socket_example_2 P s = (Inr (), t) \<and> process_inv t \<and> use_count t = use_count s \<and>
      open_fds t = open_fds s \<and> net (world t) = net (world s)) \<and>
    (\<exists>t. socket_example_3 P s = (Inr (), t) \<and> process_inv t \<and> use_count t = use_count s \<and>
      open_fds t = open_fds s \<and> net (world t) = net (world s))"
  using tcp_example_runs [OF assms] pipe_example_runs [OF assms(1,2)] by (rule conjI)

theorem stream_examples_pass_witness:
  "(\<exists>t. socket_example_2 (lo_kernel True) (init_process []) = (Inr (), t) \<and> use_count t = (\<lambda>_. 0) \<and> lo_net (world t) = lo_net []) \<and>
   (\<exists>t. socket_example_3 (lo_kernel True) (init_process []) = (Inr (), t) \<and> use_count t = (\<lambda>_. 0) \<and> lo_net (world t) = lo_net [])"
proof -
  have "loopback_address True (example_port 0) \<notin> stream_names (lo_net (world (init_process [])))" by (simp add: empty_host(2,3))
  from stream_examples_pass [OF process_inv_init lo_kernel_loopback empty_host(4) this] show ?thesis
    unfolding empty_host(3,5) by blast
qed



text \<open>
  C18: Whatever the kernel answers, call by call, \<^verbatim>\<open>socket_dt\<close> ends with \<^verbatim>\<open>EXIT_SUCCESS\<close> or \<^verbatim>\<open>EXIT_FAILURE\<close>: no
  exception escapes, nothing is undefined, and no use of a \<^verbatim>\<open>FileDescriptor\<close> is left over or given up twice. All that is assumed is that the kernel
  keeps the sizes of arrays, and that the C library defines a \<^verbatim>\<open>memcpy\<close> of zero bytes from a null pointer, without which \<^verbatim>\<open>UDPSocket::recv\<close> is
  undefined. A number from \<^verbatim>\<open>socketpair\<close> that never becomes a \<^verbatim>\<open>FileDescriptor\<close> has no use that could be counted, and is
  not covered.
\<close>

theorem socket_dt_tidy:
  assumes "keeps_arrays P" and "memcpy_null P" and "\<And>W. \<not> undefined_behaviour (fst (sys_random_device P W))"
    and "process_inv s" and "socket_dt_main P s = (r, t)"
  shows "(r = Inr 0 \<or> r = Inr 1) \<and> process_inv t \<and> use_count t = use_count s"
  using catch_all_tidy [OF tidy_examples [OF assms(1-3)] assms(4) assms(5) [unfolded socket_dt_main_def]]
  by (auto simp: bnd_eq_Inr ret_def)

theorem socket_dt_tidy_witness:
  "use_count (snd (socket_dt_main (lo_kernel False) (init_process []))) = (\<lambda>_. 0)"
proof -
  have "\<not> undefined_behaviour (fst (sys_random_device (lo_kernel False) W))" for W by (simp add: lo_kernel_simps)
  from socket_dt_tidy [OF lo_kernel_arrays _ this process_inv_init prod.collapse [symmetric]] show ?thesis
    by (simp add: init_process_def lo_kernel_simps)
qed

text \<open>
  C19: The example with a pair of local sockets leaks a descriptor when the constructor of the first socket throws: \<^verbatim>\<open>socketpair\<close> has
  returned two numbers, the first is closed by the \<^verbatim>\<open>FileDescriptor\<close> that holds it, and the exception leaves the block before the second has an
  owner. After \<^verbatim>\<open>socketpair\<close> and the failing \<^verbatim>\<open>getsockopt\<close> the only call is the \<^verbatim>\<open>close\<close> of the first number.
\<close>

theorem socket_example_3_leaks:
  assumes "sys_socketpair P 1 1 0 (world s) = ((r, a, b), W)" and "0 \<le> sr_val r" and "0 \<le> a"
    and "sys_getsockopt P a 1 39 W = ((\<lparr>sr_val = - 1, sr_errno = e\<rparr>, v, len), W')" and "e \<noteq> 0"
    and "sys_close P a W' = (rc, W'')"
  shows "\<exists>t. socket_example_3 P s = (Inl (UnixError ''getsockopt'' e), t) \<and> world t = W''"
proof -
  let ?h = "next_handle s" and ?w = "\<lparr>w_fd = a, w_eof = False, w_closed = False, w_read_count = 0, w_write_count = 0\<rparr>"
  let ?s = "s\<lparr>world := W, wrappers := (wrappers s)(next_handle s \<mapsto> \<lparr>w_fd = a, w_eof = False, w_closed = False, w_read_count = 0, w_write_count = 0\<rparr>),
      use_count := (use_count s)(next_handle s := 1), next_handle := Suc (next_handle s)\<rparr>"
  have new: "FileDescriptor_new a (s\<lparr>world := W\<rparr>) = (Inr ?h, ?s)" using assms(3) by (simp add: FileDescriptor_new_eq)
  have w: "wrappers ?s ?h = Some ?w" "use_count ?s ?h \<le> 1" by simp_all
  have "verify_option P ?h SO_DOMAIN 1 m ?s = (Inl (UnixError ''getsockopt'' e), ?s\<lparr>world := W'\<rparr>)" for m
    using verify_option_eq [OF w(1), of P SO_DOMAIN "\<lparr>sr_val = - 1, sr_errno = e\<rparr>" v len W' 1 m] assms(4,5)
    by (simp add: SOL_SOCKET_def SO_DOMAIN_def call_ok_def)
  then have body: "bnd (verify_option P ?h SO_DOMAIN 1 m) f ?s = (Inl (UnixError ''getsockopt'' e), ?s\<lparr>world := W'\<rparr>)" for m f
    by (intro bnd_Inl)
  obtain x u where u: "FDWrapper_destructor P ?h (?s\<lparr>world := W'\<rparr>) = (x, u)" by (cases "FDWrapper_destructor P ?h (?s\<lparr>world := W'\<rparr>)")
  let ?t = "u\<lparr>use_count := (use_count u)(?h := 0), wrappers := (wrappers u)(?h := None)\<rparr>"
  have "FileDescriptor_destructor P ?h (?s\<lparr>world := W'\<rparr>) = (Inr (), ?t)" using destructor_last [OF _ _ u] by simp
  with body have "LocalStreamSocket_of_fd P ?h ?s = (Inl (UnixError ''getsockopt'' e), ?t)"
    unfolding LocalStreamSocket_of_fd_def Socket_of_fd_def AF_UNIX_def by (rule with_base_throws)
  then have "local_socket P a (s\<lparr>world := W\<rparr>) = (Inl (UnixError ''getsockopt'' e), ?t)"
    unfolding local_socket_def by (simp only: bnd_Inr [where m = "FileDescriptor_new a", OF new])
  then have "bnd (local_socket P a) f (s\<lparr>world := W\<rparr>) = (Inl (UnixError ''getsockopt'' e), ?t)" for f :: "handle \<Rightarrow> ('a process, unit) prog"
    by (rule bnd_Inl)
  then have "socket_example_3 P s = (Inl (UnixError ''getsockopt'' e), ?t)"
    using assms(1,2) by (simp add: socket_example_3_def AF_UNIX_def SOCK_STREAM_def bnd_Inr syscall_eq SystemCall_def)
  moreover have "world ?t = W''"
    using u FDWrapper_destructor_open(1) [of "?s\<lparr>world := W'\<rparr>" ?h ?w P rc W''] assms(6) by simp
  ultimately show ?thesis by blast
qed

theorem socket_example_3_leaks_witness:
  "\<exists>t. socket_example_3 ((lo_kernel False)\<lparr>sys_getsockopt := \<lambda>fd level opt W. ((\<lparr>sr_val = - 1, sr_errno = 12\<rparr>, 0, 4), W)\<rparr>) (init_process []) =
       (Inl (UnixError ''getsockopt'' 12), t) \<and> world t = [None, Some (KConn 1 0 [])]"
proof -
  let ?P = "(lo_kernel False)\<lparr>sys_getsockopt := \<lambda>fd level opt W. ((\<lparr>sr_val = - 1, sr_errno = 12\<rparr>, 0, 4), W)\<rparr>"
  let ?W = "[Some (KConn 1 1 []), Some (KConn 1 0 [])]"
  have pair: "sys_socketpair ?P 1 1 0 (world (init_process [])) = ((returns 0, 0, 1), ?W)"
    by (simp add: lo_kernel_simps lo_socketpair_def init_process_def)
  have close: "sys_close ?P 0 ?W = (returns 0, [None, Some (KConn 1 0 [])])"
    by (simp add: lo_kernel_simps lo_close_def lo_net_def)
  from socket_example_3_leaks [OF pair _ _ _ _ close, of 12 0 4] show ?thesis by simp
qed

end
