(* ===== verification/Doctest.thy ===== *)
theory Doctest
  imports Socket_Example
begin

text \<open>
  The other two documentation programs: \<^verbatim>\<open>doctests/parser_dt.cc\<close>, which runs the serialisation example, and
  \<^verbatim>\<open>doctests/address_dt.cc\<close> with the address examples it includes.
\<close>

definition parser_dt_main :: "int result" where
  "parser_dt_main =
     fst (catch_all
       (bnd (parser_example 0x32 0xdeadbeef 0xc0c0 0xff 0x0c05fefe) (\<lambda>_. ret 0))
       (NetParser_of_Buffer (Buffer_of_string (parser_example_write 0x32 0xdeadbeef 0xc0c0 0xff 0x0c05fefe))))"

definition address_example_1 :: "('w, 'z) netdb_scheme \<Rightarrow> ('w process, Address) prog" where
  "address_example_1 P = Address_of_name P ''www.google.com'' ''https''"

definition address_example_2 :: "('w, 'z) netdb_scheme \<Rightarrow> ('w process, Address) prog" where
  "address_example_2 P = Address_of_ip P ''18.71.0.151'' 53"

definition address_example_3 :: "bool \<Rightarrow> Address \<Rightarrow> ('w process, uint32) prog" where
  "address_example_3 be a_dns_server = lift_result (Address_ipv4_numeric be a_dns_server)"

definition print_cerr :: "string \<Rightarrow> ('w process, unit) prog" where
  "print_cerr text = modify (\<lambda>s. s\<lparr>cerr := cerr s @ text\<rparr>)"

definition address_dt_main :: "bool \<Rightarrow> ('w, 'z) netdb_scheme \<Rightarrow> ('w process, int) prog" where
  "address_dt_main be P =
     try_catch
       (bnd (address_example_1 P) (\<lambda>google_webserver.
        bnd (address_example_2 P) (\<lambda>a_dns_server.
        bnd (address_example_3 be a_dns_server) (\<lambda>a_dns_server_numeric.
        bnd (Address_port P google_webserver) (\<lambda>port.
        if port \<noteq> 443 \<or> a_dns_server_numeric \<noteq> 0x12470097
        then throw (RuntimeError ''unexpected value'')
        else ret 0)))))
       (\<lambda>e. if is_undefined e then throw e
            else
              bnd (print_cerr ''This test requires Internet access and working DNS.\<newline>'') (\<lambda>_.
              bnd (print_cerr (''Error: '' @ exn_what (sys_strerror P) e @ ''\<newline>'')) (\<lambda>_.
              ret 1)))"

lemma parser_dt_succeeds: "parser_dt_main = Inr 0"
proof -
  let ?p = "NetParser_of_Buffer (Buffer_of_string (parser_example_write 0x32 0xdeadbeef 0xc0c0 0xff 0x0c05fefe))"
  obtain p' where "parser_example 0x32 0xdeadbeef 0xc0c0 0xff 0x0c05fefe ?p = (Inr (), p')"
    using parser_example_passes by blast
  then show ?thesis by (simp add: parser_dt_main_def catch_all_def try_catch_def bnd_Inr ret_def)
qed

lemma dns_server_quad: "''18.71.0.151'' = dotted_quad 18 71 0 151"
  by code_simp

lemma dns_server_numeric:
  assumes "numeric_getaddrinfo be P"
  obtains x W where "address_example_2 P s = (Inr x, s\<lparr>world := W\<rparr>)"
    "W = snd (sys_getaddrinfo P ''18.71.0.151'' ''53'' \<lparr>ai_flags = 0x404, ai_family = 2\<rparr> (world s))"
    "Address_ipv4_numeric be x = Inr 0x12470097"
proof -
  let ?x = "\<lparr>addr_size = 16, addr_storage = inet_sockaddr be [18, 71, 0, 151] 53 @ replicate 112 0\<rparr>"
  let ?W = "snd (sys_getaddrinfo P ''18.71.0.151'' ''53'' \<lparr>ai_flags = 0x404, ai_family = 2\<rparr> (world s))"
  have "fst (Address_of_ip P ''18.71.0.151'' 53 s) = Inr ?x"
    unfolding dns_server_quad by (rule Address_of_ip_numeric [OF assms])
  moreover have "c_str ''18.71.0.151'' = ''18.71.0.151''" "c_str (string_of_nat (unat (53 :: uint16))) = ''53''" by code_simp+
  then have "snd (Address_of_ip P ''18.71.0.151'' 53 s) = s\<lparr>world := ?W\<rparr>"
    unfolding Address_of_ip_def Address_resolve_state
    by (simp add: make_hints_def AI_NUMERICHOST_def AI_NUMERICSERV_def AF_INET_def)
  ultimately have "address_example_2 P s = (Inr ?x, s\<lparr>world := ?W\<rparr>)"
    unfolding address_example_2_def by (metis prod.collapse)
  moreover have "Address_ipv4_numeric be ?x = Inr 0x12470097"
    by (simp add: Address_ipv4_numeric_def sizeof_sockaddr_in_def AF_INET_def inet_sockaddr_parts be_word_def)
  ultimately show thesis using that by blast
qed

lemma Address_port_eq:
  assumes "sys_getnameinfo P (addr_storage x) (addr_size x) 3 (world s) = ((gni, ip, port), W)"
  shows "Address_port P x s =
    (if gni \<noteq> 0 then Inl (TaggedError (sys_gai_strerror P gni) ''getnameinfo'' gni)
     else map_sum id word_of_int (stoi port), s\<lparr>world := W\<rparr>)"
proof -
  have "(NI_NUMERICHOST OR NI_NUMERICSERV) = 3" by (simp add: NI_NUMERICHOST_def NI_NUMERICSERV_def)
  with assms show ?thesis
    by (auto simp: Address_port_def Address_ip_port_def bnd_def syscall_def Let_def throw_def gai_error_def lift_result_def
        ret_def split: sum.splits)
qed

lemma stoi_error: "stoi text = Inl e \<Longrightarrow> e \<in> {InvalidArgument ''stoi'', OutOfRange ''stoi''}"
  by (auto simp: stoi_def Let_def split: if_splits)

lemma address_example_1_eq:
  assumes "sys_getaddrinfo P ''www.google.com'' ''https'' \<lparr>ai_flags = 0x10, ai_family = 2\<rparr> (world s) = ((gai, found), W)"
    and "gai = 0 \<longrightarrow> found = Some (mem, len) \<and> len \<le> 128 \<and> len \<le> length mem"
  shows "address_example_1 P s =
    (if gai \<noteq> 0 then Inl (TaggedError (sys_gai_strerror P gai) ''getaddrinfo(www.google.com, https)'' gai)
     else Inr \<lparr>addr_size = len, addr_storage = take len mem @ replicate (128 - len) 0\<rparr>, s\<lparr>world := W\<rparr>)"
proof -
  have "c_str ''www.google.com'' = ''www.google.com''" "c_str ''https'' = ''https''" by code_simp+
  with assms show ?thesis
    by (auto simp: address_example_1_def Address_of_name_def Address_resolve_def make_hints_def AI_ALL_def AF_INET_def bnd_Inr
        syscall_eq throw_def gai_error_def lift_result_def Address_of_sockaddr_def sizeof_storage_def)
qed

text \<open>What \<^verbatim>\<open>address_dt\<close> leaves when it fails.\<close>

definition address_dt_failure :: "'w process \<Rightarrow> 'w \<Rightarrow> string \<Rightarrow> int result \<times> 'w process" where
  "address_dt_failure s W message =
     (Inr 1, s\<lparr>world := W,
        cerr := cerr s @ ''This test requires Internet access and working DNS.\<newline>'' @ ''Error: '' @ message @ ''\<newline>''\<rparr>)"

lemma try_catch_throws:
  assumes "m s = (Inl e, t)" and "\<not> is_undefined e"
  shows "try_catch m (\<lambda>e. if is_undefined e then throw e
      else bnd (print_cerr ''This test requires Internet access and working DNS.\<newline>'') (\<lambda>_.
        bnd (print_cerr (''Error: '' @ exn_what f e @ ''\<newline>'')) (\<lambda>_. ret 1))) s =
    (Inr 1, t\<lparr>cerr := cerr t @ ''This test requires Internet access and working DNS.\<newline>'' @ ''Error: '' @ exn_what f e @ ''\<newline>''\<rparr>)"
  using assms by (simp add: try_catch_def print_cerr_def bnd_def modify_def ret_def)

text \<open>
  \<^verbatim>\<open>address_dt\<close>, for every answer of the resolver about \<^verbatim>\<open>www.google.com\<close>, given that numeric addresses are treated as
  documented: it succeeds exactly when the name resolves and the port of the resolved address
  reads as 443 (in 16 bits); each failure (of \<^verbatim>\<open>getaddrinfo\<close>, of \<^verbatim>\<open>getnameinfo\<close>, a port that is no number, a wrong
  port) ends in \<^verbatim>\<open>EXIT_FAILURE\<close> with its message on \<^verbatim>\<open>cerr\<close>.
\<close>

theorem address_dt_outcome:
  fixes s :: "'w process"
  assumes numeric: "numeric_getaddrinfo be P"
    and google: "sys_getaddrinfo P ''www.google.com'' ''https'' \<lparr>ai_flags = 0x10, ai_family = 2\<rparr> (world s) = ((gai, found), W1)"
    and found: "gai = 0 \<longrightarrow> found = Some (mem, len) \<and> len \<le> 128 \<and> len \<le> length mem"
    and dns: "W2 = snd (sys_getaddrinfo P ''18.71.0.151'' ''53'' \<lparr>ai_flags = 0x404, ai_family = 2\<rparr> W1)"
    and name: "sys_getnameinfo P (take len mem @ replicate (128 - len) 0) len 3 W2 = ((gni, ip, port), W3)"
  shows "address_dt_main be P s =
    (if gai \<noteq> 0 then address_dt_failure s W1 (''getaddrinfo(www.google.com, https): '' @ sys_gai_strerror P gai)
     else if gni \<noteq> 0 then address_dt_failure s W3 (''getnameinfo: '' @ sys_gai_strerror P gni)
     else case stoi port of
            Inl e \<Rightarrow> address_dt_failure s W3 ''stoi''
          | Inr n \<Rightarrow> if (word_of_int n :: uint16) = 443 then (Inr 0, s\<lparr>world := W3\<rparr>)
                     else address_dt_failure s W3 ''unexpected value'')"
proof -
  let ?f = "sys_strerror P"
  note ex1 = address_example_1_eq [OF google found]
  show ?thesis
  proof (cases "gai = 0")
    case False
    with ex1 show ?thesis
      unfolding address_dt_main_def
      by (subst try_catch_throws [where e = "TaggedError (sys_gai_strerror P gai) ''getaddrinfo(www.google.com, https)'' gai" and t = "s\<lparr>world := W1\<rparr>"])
        (simp_all add: bnd_def address_dt_failure_def exn_what_def tagged_error_what_def)
  next
    case True
    let ?x = "\<lparr>addr_size = len, addr_storage = take len mem @ replicate (128 - len) 0\<rparr>"
    obtain y where y: "address_example_2 P (s\<lparr>world := W1\<rparr>) = (Inr y, s\<lparr>world := W2\<rparr>)" "Address_ipv4_numeric be y = Inr 0x12470097"
      using dns_server_numeric [OF numeric, of "s\<lparr>world := W1\<rparr>"] dns by auto
    have port: "Address_port P ?x (s\<lparr>world := W2\<rparr>) =
        (if gni \<noteq> 0 then Inl (TaggedError (sys_gai_strerror P gni) ''getnameinfo'' gni)
         else map_sum id word_of_int (stoi port), s\<lparr>world := W3\<rparr>)"
      using Address_port_eq [of P ?x "s\<lparr>world := W2\<rparr>"] name by simp
    note stoi = stoi_error [of port]
    let ?m = "bnd (address_example_1 P) (\<lambda>google_webserver. bnd (address_example_2 P) (\<lambda>a_dns_server.
        bnd (address_example_3 be a_dns_server) (\<lambda>a_dns_server_numeric. bnd (Address_port P google_webserver) (\<lambda>port.
        if port \<noteq> 443 \<or> a_dns_server_numeric \<noteq> 0x12470097 then throw (RuntimeError ''unexpected value'') else ret (0 :: int)))))"
    let ?q = "if gni \<noteq> 0 then Inl (TaggedError (sys_gai_strerror P gni) ''getnameinfo'' gni)
      else case stoi port of Inl e \<Rightarrow> Inl e
           | Inr n \<Rightarrow> if (word_of_int n :: uint16) = 443 then Inr (0 :: int) else Inl (RuntimeError ''unexpected value'')"
    have run: "?m s = (?q, s\<lparr>world := W3\<rparr>)"
      using ex1 True y by (simp add: bnd_Inr address_example_3_def)
        (auto simp: bnd_def port throw_def ret_def split: sum.split)
    have defined: "\<not> is_undefined e" if "?q = Inl e" for e
      using that stoi by (auto split: if_splits sum.splits)
    have ok: "address_dt_main be P s = (Inr 0, s\<lparr>world := W3\<rparr>)" if "?q = Inr 0"
      using run that unfolding address_dt_main_def try_catch_def by (simp only: prod.case sum.case)
    have bad: "address_dt_main be P s = address_dt_failure s W3 (exn_what ?f e)" if "?q = Inl e" for e
    proof -
      have "?m s = (Inl e, s\<lparr>world := W3\<rparr>)" using run that by (simp only:)
      note throws = try_catch_throws [where m = ?m and s = s and f = ?f, OF this defined [OF that]]
      show ?thesis unfolding address_dt_main_def throws address_dt_failure_def by simp
    qed
    show ?thesis
      using True ok bad stoi
      by (auto simp: exn_what_def tagged_error_what_def split: sum.splits if_splits)
  qed
qed

theorem address_dt_outcome_witness:
  "address_dt_main False (demo_netdb False) (init_process ()) =
     address_dt_failure (init_process ()) () ''getaddrinfo(www.google.com, https): error''"
proof -
  have https: "stoi ''https'' = Inl (InvalidArgument ''stoi'')" by code_simp
  obtain gni ip port where name: "sys_getnameinfo (demo_netdb False) (take 0 [] @ replicate (128 - 0) 0) 0 3 () = ((gni, ip, port), ())"
    by (cases "sys_getnameinfo (demo_netdb False) (take 0 [] @ replicate (128 - 0) 0) 0 3 ()") auto
  show ?thesis
    using address_dt_outcome [OF demo_getaddrinfo, where s = "init_process ()" and gai = "- 8" and found = None and ?W1.0 = "()"
        and mem = "[]" and len = 0 and gni = gni and ip = ip and port = port and ?W3.0 = "()", OF _ _ refl] name https
    by (simp add: demo_netdb_def)
qed

end
