(* ===== verification/Spec2Isabelle.thy ===== *)
theory Spec2Isabelle
  imports Checksum Buffer_Store Loop_Drain Tun Hexdump Reassembly Webget Clock Doctest
begin

text \<open>
  Sponge, the networking library of CS144 (\<^verbatim>\<open>src/libsponge\<close>, \<^verbatim>\<open>src/apps\<close>, \<^verbatim>\<open>src/doctests\<close>) and the tests that
  are built at this commit (\<^verbatim>\<open>src/tests/byte_stream_*\<close>, \<^verbatim>\<open>src/tests/fsm_stream_reassembler_*\<close>), as a shallow embedding, with the theorems that make its parts correct.

  \<^bold>\<open>The program.\<close> The utility library wraps the socket interface of the kernel. \<^verbatim>\<open>Buffer\<close>, \<^verbatim>\<open>BufferList\<close>
  and \<^verbatim>\<open>BufferViewList\<close> hold bytes that are discarded from the front as they are parsed or
  written. \<^verbatim>\<open>NetParser\<close> and \<^verbatim>\<open>NetUnparser\<close> decode and encode integers in network byte order over
  them, \<^verbatim>\<open>InternetChecksum\<close> sums them up. \<^verbatim>\<open>FileDescriptor\<close> is a reference-counted descriptor:
  \<^verbatim>\<open>write\<close> sends a \<^verbatim>\<open>BufferViewList\<close> in as many \<^verbatim>\<open>writev\<close> calls as it takes. \<^verbatim>\<open>Socket\<close> and its
  subclasses and \<^verbatim>\<open>TunTapFD\<close> are FileDescriptors with more operations; \<^verbatim>\<open>Address\<close> is the argument
  of those. \<^verbatim>\<open>EventLoop\<close> holds duplicates of FileDescriptors in rules, polls them and calls
  the clients' callbacks. \<^verbatim>\<open>ByteStream\<close> and \<^verbatim>\<open>StreamReassembler\<close> are, at this commit, the
  placeholders of the starter code, as is \<^verbatim>\<open>webget\<close>. The documentation comes with example
  programs that use all of the above.

  \<^bold>\<open>Theories.\<close> Each component's theory has its state, its operations in the order of the code,
  lemmas, a contract as a locale where several operations share one, and its properties.
  \<^item> \<open>Sponge_Prelude\<close>: machine types, exceptions as values (\<open>exn\<close>), computations with a state and
    exceptions (\<open>prog\<close>, \<open>bnd\<close>), shared lemmas on lists, numerals and words.
  \<^item> \<open>Buffer\<close> (\<^verbatim>\<open>util/buffer.*\<close>): the three containers. Locale \<open>discardable\<close> (a byte string that discards from
    the front) and its extension \<open>discardable_queue\<close>, interpreted for all three classes; the view
    list simulates the buffer list. \<open>Buffer_Store\<close>: the same \<^verbatim>\<open>Buffer\<close> with its storage shared between copies and
    counted, which refines the first.
  \<^item> \<open>Parser\<close> (\<^verbatim>\<open>util/parser.*\<close>, \<^verbatim>\<open>doctests/parser_example.cc\<close>): round trips in both directions, the
    outcome of every sequence of reads, sticky errors. Locale \<open>net_int\<close> is the contract of a reader and a
    writer of one width, interpreted for 8, 16 and 32 bits.
  \<^item> \<open>Checksum\<close> (\<^verbatim>\<open>InternetChecksum\<close> in \<^verbatim>\<open>util/util.*\<close>): equality with the one's complement sum over natural
    numbers, for every way to cut the data into calls of \<^verbatim>\<open>add\<close>; verification of a packet;
    detection of a changed byte.
  \<^item> \<open>Posix\<close>: the system calls as fields of a record, \<^verbatim>\<open>SystemCall\<close> and the exception classes of \<^verbatim>\<open>util/util.*\<close>.
  \<^item> \<open>File_Descriptor\<close> (\<^verbatim>\<open>util/file_descriptor.*\<close>): wrappers with explicit use counts in a store of the
    process. Locale \<open>fd_operation\<close> is what every member function keeps, interpreted for those of
    FileDescriptor here and for those of the sockets in \<open>Socket\<close> and \<open>Scope\<close>. Reachable states of the
    process by rule induction over \<open>fd_step\<close>. What \<^verbatim>\<open>write\<close> delivers over any sequence of partial writes, and that it returns, for
    buffers of at most \<^verbatim>\<open>IOV_MAX\<close> views; that it fails on more. The string that \<^verbatim>\<open>read\<close> takes by reference is part of the state, since
    it keeps what \<^verbatim>\<open>read\<close> did to it when an exception is thrown.
  \<^item> \<open>EventLoop\<close> (\<^verbatim>\<open>util/eventloop.*\<close>): rules, setup, poll and service. Locales \<open>loop_client\<close>, \<open>steady_client\<close> and
    \<open>proc_client\<close> are the contracts of the callbacks; a client built from the library's operations interprets them.
    \<open>Loop_Run\<close>: the life of a loop, from its construction over rules and defined turns to its destruction. \<open>Loop_Relay\<close>: the
    bidirectional copy the loop was made for, on the kernel of \<open>Loopback\<close>, until nothing is left to copy.
    \<open>Loop_Drain\<close>: a stream whose peer has closed, copied to its end, until the rule is dropped and the loop exits.
  \<^item> \<open>Address\<close> (\<^verbatim>\<open>util/address.*\<close>) and \<open>Socket\<close> (\<^verbatim>\<open>util/socket.*\<close>): every constructor and member, on
    every answer of the kernel and the resolver. Whether a \<^verbatim>\<open>memcpy\<close> of no bytes from a null pointer is defined, as in
    \<^verbatim>\<open>UDPSocket::recv\<close>, is a parameter (\<open>memcpy_null\<close>).
  \<^item> \<open>Tun\<close> (\<^verbatim>\<open>util/tun.*\<close>), \<open>Hexdump\<close>, \<open>Clock\<close> (\<^verbatim>\<open>timestamp_ms\<close>) and \<open>Random_Generator\<close> (\<^verbatim>\<open>get_random_generator\<close>), all of
    \<^verbatim>\<open>util/util.*\<close> but the first; \<open>Byte_Stream\<close> and \<open>Webget\<close>.
  \<^item> \<open>Test_Program\<close>: what the test programs have in common; locale \<open>test_harness\<close> is the contract of a harness and \<open>test_program\<close>, which
    extends it, that of a program, interpreted for both harnesses. \<open>Stream_Test\<close> (\<^verbatim>\<open>tests/byte_stream_*\<close>) and \<open>Reassembler_Test\<close>
    (\<^verbatim>\<open>tests/fsm_stream_reassembler_*\<close>): the harnesses and their thirteen programs over any class with the members of \<^verbatim>\<open>ByteStream\<close> and
    \<^verbatim>\<open>StreamReassembler\<close>, and any outcome of \<^verbatim>\<open>get_random_generator\<close>. What the comments of the two headers promise is a partial
    specification (\<open>documented\<close>, \<open>documented_reassembler\<close>), which does not return where they say nothing; every class that follows it, by a
    simulation, passes all programs. For the reassembler, \<open>Reassembly\<close> shows that by an invariant on the indices received. The classes of this
    commit are placeholders, and fail all programs.
  \<^item> \<open>Scope\<close>: local variables of socket type, and programs that leave no use of a descriptor behind
    (\<open>tidy\<close>), by rules that follow the composition of the program.
  \<^item> \<open>Loopback\<close>: the documented behaviour of the kernel between sockets of one host, call by call (\<open>loopback\<close>: among others, \<^verbatim>\<open>bind\<close> takes the
    unused ports of 127.0.0.1 from 1024 on, \<^verbatim>\<open>writev\<close> arrays of at most \<^verbatim>\<open>IOV_MAX\<close>), and
    a total-correctness triple for each socket operation on such a kernel. That a short datagram is not lost is not documented and a hypothesis of
    its own (\<open>no_datagram_lost\<close>), on which only the UDP example rests. \<open>Loopback_Host\<close>: an executable
    kernel that has this behaviour.
  \<^item> \<open>Socket_Example\<close> (\<^verbatim>\<open>doctests/socket_*.cc\<close>) and \<open>Doctest\<close> (\<^verbatim>\<open>doctests/address_*.cc\<close>, \<^verbatim>\<open>parser_dt.cc\<close>): the
    documentation's programs, whole.
  \<^item> This theory: a message through the unparser, a descriptor, a stream of the kernel, another
    descriptor and the parser.

  \<^bold>\<open>Parameters.\<close> The kernel, the resolver, the entropy source, the steady clock and the
  callbacks of an event loop, and the random numbers of the tests, are not code of the repository. They are arguments of the definitions,
  functions on a world of any type, so that a theorem without further hypotheses holds for every
  answer they can give. What a theorem does rely on is a named predicate about one call (\<open>writev_sends\<close>,
  \<open>numeric_getaddrinfo\<close>, \<open>k_connect\<close> and so on), and its witness has a concrete, executable instance.

  \<^bold>\<open>Loops and bounds.\<close> No definition has fuel. Loops over containers, over the bytes of an integer
  and the loop of \<^verbatim>\<open>write\<close> are functions with a termination proof (\<^verbatim>\<open>write\<close> throws when the kernel
  reports that it wrote nothing of something, or more than was offered, so what remains gets
  shorter); the carry loop of the checksum ends because the sum gets smaller. Only the
  first loop of \<^verbatim>\<open>wait_next_event\<close> can run forever, when a callback keeps adding rules: it
  is a partial function, and a theorem shows that it ends when none does. Words keep their width; a
  \<^verbatim>\<open>size_t\<close> is a natural number, which the prelude justifies.

  \<^bold>\<open>Not modelled.\<close>
  \<^item> The rest of \<^verbatim>\<open>src/tests\<close>: tests of later labs, for classes that are not part of this commit, which the build leaves out.
  \<^item> A callback that calls \<^verbatim>\<open>wait_next_event\<close> of its own loop.
  \<^item> What an exception of \<^verbatim>\<open>UDPSocket::recv\<close> leaves in the datagram the caller passed by reference.
  \<^item> Failures of memory allocation.
  \<^item> \<^verbatim>\<open>hexdump\<close> of \<open>2 ^ 31\<close> bytes or more, where its \<^verbatim>\<open>int\<close> counters would overflow.
  \<^item> The output of the \<^verbatim>\<open>mt19937\<close> generator, which the library only seeds.
  \<^item> Concurrency: the library has no threads of its own; that another process acts between two
    calls is part of the world of the kernel.

  \<^bold>\<open>Possible extensions.\<close> Nonblocking descriptors in \<open>Loop_Relay\<close> and \<open>Loop_Drain\<close>.
\<close>

subsection \<open>Properties that span components\<close>

lemma parser_example_write_length: "length (parser_example_write val0 val1 val2 val3 val4) = 12"
  by (simp add: parser_example_write_def Let_def codec_funs unparse_int_append sizeof_def)

text \<open>
  C1: A message of mixed-width integers, serialised by \<^verbatim>\<open>NetUnparser\<close>, written to one end of a connected
  stream with \<^verbatim>\<open>FileDescriptor::write\<close> (in whatever pieces the kernel takes it), read at the other end
  with \<^verbatim>\<open>FileDescriptor::read\<close> and parsed by \<^verbatim>\<open>NetParser\<close>, gives every value back, without a parse
  error and with no byte left over.
\<close>

theorem message_over_stream:
  assumes "process_inv s" and "k_writev P net" and "k_read P net"
    and "open_fds s h = Some a" and "open_fds s h' = Some b" and "a \<noteq> b"
    and "net (world s) a = Some (KConn domain b X)" and "net (world s) b = Some (KConn domain a [])"
  shows "\<exists>t u msg p. FileDescriptor_write_string P h (parser_example_write val0 val1 val2 val3 val4) True s = (Inr 12, t) \<and>
    FileDescriptor_read P h' default_limit t = (Inr msg, u) \<and>
    parser_example val0 val1 val2 val3 val4 (NetParser_of_Buffer (Buffer_of_string msg)) = (Inr (), p) \<and>
    p_error p = NoError \<and> rest_of p = [] \<and> process_inv u \<and> net (world u) = net (world s)"
proof -
  let ?m = "parser_example_write val0 val1 val2 val3 val4" and ?C = "config_of net s"
  let ?D = "?C\<lparr>table := (table ?C)(b \<mapsto> KConn domain a ?m)\<rparr>"
  have len: "length ?m = 12" by (rule parser_example_write_length)
  have "triple net ?C (FileDescriptor_write_string P h ?m True) (\<lambda>n C'. n = 12 \<and> C' = ?D)"
    using triple_write [OF assms(2), of ?C h a domain b X "[]" ?m] assms(4,6-8) len by simp
  then obtain t where t: "FileDescriptor_write_string P h ?m True s = (Inr 12, t)" "process_inv t" "config_of net t = ?D"
    using assms(1) by (auto elim!: tripleE)
  have "triple net ?D (FileDescriptor_read P h' default_limit) (\<lambda>str C'. str = ?m \<and> C' = ?D\<lparr>table := (table ?D)(b \<mapsto> KConn domain a [])\<rparr>)"
    using assms(5) len by (intro triple_read [OF assms(3)]) (auto simp: BUFFER_SIZE_def default_limit_def)
  then obtain u where u: "FileDescriptor_read P h' default_limit t = (Inr ?m, u)" "process_inv u"
    "config_of net u = ?D\<lparr>table := (table ?D)(b \<mapsto> KConn domain a [])\<rparr>"
    using t(2,3) by (auto elim!: tripleE)
  have "net (world u) = table (config_of net u)" by simp
  also have "\<dots> = net (world s)" unfolding u(3) using assms(8) by (simp add: fun_upd_idem)
  finally show ?thesis using t(1) u(1,2) parser_example_passes by blast
qed

theorem message_over_stream_witness:
  "\<exists>t u msg. FileDescriptor_write_string (lo_kernel False) 0 (parser_example_write 1 2 3 4 5) True
       (snd (FileDescriptor_new 1 (snd (FileDescriptor_new 0 (init_process [Some (KConn 1 1 []), Some (KConn 1 0 [])]))))) = (Inr 12, t) \<and>
     FileDescriptor_read (lo_kernel False) 1 default_limit t = (Inr msg, u) \<and>
     is_ok (fst (parser_example 1 2 3 4 5 (NetParser_of_Buffer (Buffer_of_string msg))))"
proof -
  let ?W = "[Some (KConn 1 1 []), Some (KConn 1 0 [])]"
  let ?s1 = "snd (FileDescriptor_new 0 (init_process ?W))" and ?s = "snd (FileDescriptor_new 1 (snd (FileDescriptor_new 0 (init_process ?W))))"
  have inv: "process_inv ?s" by (intro keepsD [OF keeps_new] process_inv_init)
  have fds: "open_fds ?s 0 = Some 0" "open_fds ?s 1 = Some 1" "world ?s = ?W"
    by (simp_all add: FileDescriptor_new_eq init_process_def open_fds_def)
  have net: "lo_net (world ?s) 0 = Some (KConn 1 1 [])" "lo_net (world ?s) 1 = Some (KConn 1 0 [])"
    unfolding fds(3) by (simp_all add: lo_net_def)
  from message_over_stream [OF inv lo_writev_ok lo_read_ok fds(1,2) _ net, of False 1 2 3 4 5] show ?thesis
    by (metis fst_conv is_ok_simps(1) zero_neq_one)
qed

end
